(* ===== verification/Prelude.thy ===== *)
theory Prelude
  imports Main "HOL-Library.Word" "HOL-Library.Multiset"
begin

text \<open>
  Shared vocabulary of the development: C++ exceptions and undefined behaviour as values of
  an error type, the error monad that threads them, width checks for signed integers,
  \<^verbatim>\<open>std::to_string\<close>, digit classification and the generic list and arithmetic facts the
  component theories use.

  Signed integers of the source (\<^verbatim>\<open>int\<close>, \<^verbatim>\<open>int64_t\<close>) are HOL integers; wherever the
  source computes on them, the result passes through \<open>i32\<close> or \<open>i64\<close>, which answers
  \<open>SignedOverflow\<close> (undefined behaviour in C++) outside the width. Unsigned integers
  (\<^verbatim>\<open>uint64_t\<close>, \<^verbatim>\<open>size_t\<close>) are \<^typ>\<open>64 word\<close> where they wrap and \<^typ>\<open>nat\<close> where they count.
\<close>

section \<open>Errors\<close>

datatype cxx_exc =
    InvalidArgument string
  | RuntimeError string
  | LogicError string
  | SignedOverflow

type_synonym u64 = "64 word"
type_synonym 'a result = "cxx_exc + 'a"

named_theorems result_simps \<open>unfolding of the error monad\<close>

definition bind_r :: "'e + 'a \<Rightarrow> ('a \<Rightarrow> 'e + 'b) \<Rightarrow> 'e + 'b" where
  "bind_r m f = (case m of Inl e \<Rightarrow> Inl e | Inr x \<Rightarrow> f x)"

lemma bind_r_Inl [simp, result_simps]: "bind_r (Inl e) f = Inl e"
  by (simp add: bind_r_def)

lemma bind_r_Inr [simp, result_simps]: "bind_r (Inr x) f = f x"
  by (simp add: bind_r_def)

lemma bind_r_eq_Inr_iff [result_simps]:
  "bind_r m f = Inr y \<longleftrightarrow> (\<exists>x. m = Inr x \<and> f x = Inr y)"
  by (cases m) auto

lemma bind_r_assoc: "bind_r (bind_r m f) g = bind_r m (\<lambda>x. bind_r (f x) g)"
  by (cases m) auto

definition map_r :: "('a \<Rightarrow> 'b) \<Rightarrow> 'e + 'a \<Rightarrow> 'e + 'b" where
  "map_r f m = (case m of Inl e \<Rightarrow> Inl e | Inr x \<Rightarrow> Inr (f x))"

lemma map_r_simps [simp, result_simps]:
  "map_r f (Inl e) = Inl e" "map_r f (Inr x) = Inr (f x)"
  by (simp_all add: map_r_def)

section \<open>Signed integers at their width\<close>

definition in_i32 :: "int \<Rightarrow> bool" where
  "in_i32 x \<longleftrightarrow> - (2 ^ 31) \<le> x \<and> x < 2 ^ 31"

definition in_i64 :: "int \<Rightarrow> bool" where
  "in_i64 x \<longleftrightarrow> - (2 ^ 63) \<le> x \<and> x < 2 ^ 63"

definition i32 :: "int \<Rightarrow> int result" where
  "i32 x = (if in_i32 x then Inr x else Inl SignedOverflow)"

definition i64 :: "int \<Rightarrow> int result" where
  "i64 x = (if in_i64 x then Inr x else Inl SignedOverflow)"

lemma i64_in [simp]: "in_i64 x \<Longrightarrow> i64 x = Inr x"
  by (simp add: i64_def)

lemma i32_in [simp]: "in_i32 x \<Longrightarrow> i32 x = Inr x"
  by (simp add: i32_def)

lemma i64_eq_Inr_iff [result_simps]: "i64 x = Inr y \<longleftrightarrow> in_i64 x \<and> y = x"
  by (auto simp: i64_def)

lemma i32_eq_Inr_iff [result_simps]: "i32 x = Inr y \<longleftrightarrow> in_i32 x \<and> y = x"
  by (auto simp: i32_def)

lemma in_i64I: "- (2 ^ 63) \<le> x \<Longrightarrow> x < 2 ^ 63 \<Longrightarrow> in_i64 x"
  by (simp add: in_i64_def)

lemma int_div_mod_eq: "int (n div d) * int d + int (n mod d) = int n"
  by (simp flip: of_nat_mult of_nat_add)

lemma div_eq_iff_nat:
  fixes m n k :: nat
  assumes "0 < n"
  shows "m div n = k \<longleftrightarrow> k * n \<le> m \<and> m < k * n + n"
proof
  assume "m div n = k"
  then show "k * n \<le> m \<and> m < k * n + n"
    using assms dividend_less_div_times [of n m] by auto
next
  assume "k * n \<le> m \<and> m < k * n + n"
  then show "m div n = k" by (intro div_nat_eqI) (simp_all add: algebra_simps)
qed

section \<open>64-bit words\<close>

lemma u64_less: "unat (x :: u64) < 18446744073709551616"
  using unsigned_less [of x] by simp

lemma unat_of_nat_u64: "n < 18446744073709551616 \<Longrightarrow> unat (of_nat n :: u64) = n"
  by (simp add: unat_of_nat)

lemma u64_eq_iff: "(x :: u64) = y \<longleftrightarrow> unat x = unat y"
  by (rule word_unat_eq_iff)

section \<open>Decimal digits\<close>

definition is_digit :: "char \<Rightarrow> bool" where
  "is_digit c \<longleftrightarrow> 48 \<le> (of_char c :: nat) \<and> (of_char c :: nat) \<le> 57"

definition digit_val :: "char \<Rightarrow> int" where
  "digit_val c = of_char c - 48"

definition digit_char :: "nat \<Rightarrow> char" where
  "digit_char n = char_of (48 + n)"

text \<open>\<^verbatim>\<open>std::to_string\<close> on a non-negative and on an arbitrary integer.\<close>

fun show_nat :: "nat \<Rightarrow> string" where
  "show_nat n = (if n < 10 then [digit_char n] else show_nat (n div 10) @ [digit_char (n mod 10)])"

declare show_nat.simps [simp del]

definition show_int :: "int \<Rightarrow> string" where
  "show_int x = (if x < 0 then CHR ''-'' # show_nat (nat (- x)) else show_nat (nat x))"

lemma show_int_nonneg: "0 \<le> x \<Longrightarrow> show_int x = show_nat (nat x)"
  by (simp add: show_int_def)

lemma digit_char_facts [simp]:
  assumes "n < 10"
  shows "is_digit (digit_char n)" "digit_val (digit_char n) = int n"
proof -
  have of_c: "(of_char (char_of (48 + n) :: char) :: nat) = 48 + n"
    using assms by (simp add: of_char_of)
  show "is_digit (digit_char n)"
    using assms of_c by (simp add: is_digit_def digit_char_def)
  have "(of_char (char_of (48 + n) :: char) :: int) = int (of_char (char_of (48 + n) :: char) :: nat)"
    by (rule of_nat_of_char [symmetric])
  then show "digit_val (digit_char n) = int n"
    using of_c by (simp add: digit_val_def digit_char_def)
qed

lemma digit_val_bounds:
  assumes "is_digit c" shows "0 \<le> digit_val c" "digit_val c \<le> 9"
proof -
  have "(of_char c :: int) = int (of_char c :: nat)" by (rule of_nat_of_char [symmetric])
  then show "0 \<le> digit_val c" "digit_val c \<le> 9"
    using assms unfolding digit_val_def is_digit_def by linarith+
qed

lemma show_nat_digits: "\<forall>c \<in> set (show_nat n). is_digit c"
proof (induction n rule: show_nat.induct)
  case (1 n)
  then show ?case by (subst show_nat.simps) auto
qed

lemma show_nat_not_Nil [simp]: "show_nat n \<noteq> []"
  by (subst show_nat.simps) simp

lemma length_show_nat_lt: "n < 10 \<Longrightarrow> show_nat n = [digit_char n]"
  by (subst show_nat.simps) simp

text \<open>The value of a digit string, most significant digit first.\<close>

fun digits_val :: "int \<Rightarrow> string \<Rightarrow> int" where
  "digits_val acc [] = acc"
| "digits_val acc (c # cs) = digits_val (acc * 10 + digit_val c) cs"

lemma digits_val_append: "digits_val acc (xs @ ys) = digits_val (digits_val acc xs) ys"
  by (induction xs arbitrary: acc) auto

lemma digits_val_show_nat [simp]: "digits_val 0 (show_nat n) = int n"
proof (induction n rule: show_nat.induct)
  case (1 n)
  show ?case
  proof (cases "n < 10")
    case True
    then show ?thesis by (simp add: length_show_nat_lt)
  next
    case False
    then have "digits_val 0 (show_nat n) = int (n div 10) * 10 + int (n mod 10)"
      using 1 by (subst show_nat.simps) (simp add: digits_val_append)
    also have "\<dots> = int n"
      using int_div_mod_eq [of n 10] by simp
    finally show ?thesis .
  qed
qed

lemma digits_val_mono:
  "0 \<le> acc \<Longrightarrow> \<forall>c \<in> set cs. is_digit c \<Longrightarrow> acc \<le> digits_val acc cs"
proof (induction cs arbitrary: acc)
  case Nil
  then show ?case by simp
next
  case (Cons c cs)
  have "0 \<le> digit_val c" using Cons.prems digit_val_bounds by simp
  then have "acc \<le> acc * 10 + digit_val c" "0 \<le> acc * 10 + digit_val c"
    using Cons.prems(1) by linarith+
  moreover have "acc * 10 + digit_val c \<le> digits_val (acc * 10 + digit_val c) cs"
    using Cons calculation by simp
  ultimately show ?case by simp
qed

end
