(* ===== verification/Money.thy ===== *)
theory Money
  imports Prelude
begin

text \<open>
  \<^verbatim>\<open>tpcc/domain/money.h\<close>: the exact fixed-point amounts \<^verbatim>\<open>TMoney\<close> (two decimals) and
  \<^verbatim>\<open>TRate\<close> (four decimals) held in an \<^verbatim>\<open>int64_t\<close>, their checked arithmetic, their order,
  and their decimal text form. The two parsers of the source are the same code at two
  scales; \<open>ParseFixed\<close> is that code with the scale as a parameter. The index \<^verbatim>\<open>i\<close> of the
  source is modelled by the not yet consumed suffix of the text.
\<close>

section \<open>Types\<close>

datatype TMoney = TMoney (MoneyUnits: int)
datatype TRate = TRate (RateUnits: int)

definition Money_Scale :: int where "Money_Scale = 100"
definition Rate_Scale :: int where "Rate_Scale = 10000"

definition FromCents :: "int \<Rightarrow> TMoney" where
  "FromCents cents = TMoney cents"

definition FromMajorMinor :: "int \<Rightarrow> int \<Rightarrow> TMoney result" where
  "FromMajorMinor major minor =
     bind_r (i64 (major * Money_Scale)) (\<lambda>m. map_r TMoney (i64 (m + minor)))"

definition Cents :: "TMoney \<Rightarrow> int" where
  "Cents m = MoneyUnits m"

definition Rate_FromUnits :: "int \<Rightarrow> TRate" where
  "Rate_FromUnits units = TRate units"

definition Rate_FromPermille :: "int \<Rightarrow> TRate result" where
  "Rate_FromPermille permille = map_r TRate (i64 (permille * 10))"

text \<open>\<open>operator+=\<close> and \<open>operator-=\<close> (and their pure forms): an \<^verbatim>\<open>int64_t\<close> addition.\<close>

definition money_add :: "TMoney \<Rightarrow> TMoney \<Rightarrow> TMoney result" where
  "money_add a b = map_r TMoney (i64 (MoneyUnits a + MoneyUnits b))"

definition money_sub :: "TMoney \<Rightarrow> TMoney \<Rightarrow> TMoney result" where
  "money_sub a b = map_r TMoney (i64 (MoneyUnits a - MoneyUnits b))"

instantiation TMoney :: linorder
begin
definition less_eq_TMoney :: "TMoney \<Rightarrow> TMoney \<Rightarrow> bool" where
  "less_eq_TMoney a b \<longleftrightarrow> MoneyUnits a \<le> MoneyUnits b"
definition less_TMoney :: "TMoney \<Rightarrow> TMoney \<Rightarrow> bool" where
  "less_TMoney a b \<longleftrightarrow> MoneyUnits a < MoneyUnits b"
instance
  by standard (auto simp: less_eq_TMoney_def less_TMoney_def TMoney.expand)
end

section \<open>Parse\<close>

fun parse_major :: "int \<Rightarrow> string \<Rightarrow> (int \<times> string) result" where
  "parse_major major [] = Inr (major, [])"
| "parse_major major (c # cs) =
     (if is_digit c
      then bind_r (i64 (major * 10)) (\<lambda>m.
           bind_r (i64 (m + digit_val c)) (\<lambda>m'. parse_major m' cs))
      else Inr (major, c # cs))"

text \<open>The second loop: at most \<open>scale\<close> fraction digits, counted in \<open>digits\<close>.\<close>

fun parse_minor :: "nat \<Rightarrow> int \<Rightarrow> nat \<Rightarrow> string \<Rightarrow> int \<times> nat \<times> string" where
  "parse_minor scale minor digits [] = (minor, digits, [])"
| "parse_minor scale minor digits (c # cs) =
     (if is_digit c \<and> digits < scale
      then parse_minor scale (minor * 10 + digit_val c) (Suc digits) cs
      else (minor, digits, c # cs))"

fun skip_digits :: "string \<Rightarrow> string" where
  "skip_digits [] = []"
| "skip_digits (c # cs) = (if is_digit c then skip_digits cs else c # cs)"

function pad_minor :: "nat \<Rightarrow> int \<Rightarrow> nat \<Rightarrow> int" where
  "pad_minor scale minor digits =
     (if digits < scale then pad_minor scale (minor * 10) (Suc digits) else minor)"
  by pat_completeness auto
termination by (relation "measure (\<lambda>(scale, minor, digits). scale - digits)") auto

declare pad_minor.simps [simp del]

definition parse_fraction :: "nat \<Rightarrow> string \<Rightarrow> int \<times> string" where
  "parse_fraction scale rest =
     (case rest of
        c # cs \<Rightarrow>
          (if c = CHR ''.''
           then (let (minor, digits, rest') = parse_minor scale 0 0 cs
                 in (pad_minor scale minor digits, skip_digits rest'))
           else (0, rest))
      | [] \<Rightarrow> (0, []))"

definition parse_sign :: "string \<Rightarrow> bool \<times> string" where
  "parse_sign text =
     (case text of
        c # cs \<Rightarrow> (if c = CHR ''-'' then (True, cs)
                   else if c = CHR ''+'' then (False, cs) else (False, text))
      | [] \<Rightarrow> (False, []))"

definition ParseFixed :: "string \<Rightarrow> nat \<Rightarrow> int \<Rightarrow> string \<Rightarrow> int result" where
  "ParseFixed what scaleDigits scale text =
     (if text = [] then Inl (InvalidArgument (''empty '' @ what @ '' string''))
      else let (negative, rest) = parse_sign text in
        bind_r (parse_major 0 rest) (\<lambda>(major, rest1).
          let (minor, rest2) = parse_fraction scaleDigits rest1 in
          if rest2 \<noteq> [] then Inl (InvalidArgument (''invalid '' @ what @ '' string: '' @ text))
          else bind_r (i64 (major * scale)) (\<lambda>u.
               bind_r (i64 (u + minor)) (\<lambda>units.
               if negative then i64 (- units) else Inr units))))"

definition Money_Parse :: "string \<Rightarrow> TMoney result" where
  "Money_Parse text = map_r TMoney (ParseFixed ''money'' 2 Money_Scale text)"

definition Rate_Parse :: "string \<Rightarrow> TRate result" where
  "Rate_Parse text = map_r TRate (ParseFixed ''rate'' 4 Rate_Scale text)"

section \<open>ToString\<close>

definition Money_ToString :: "TMoney \<Rightarrow> string result" where
  "Money_ToString m =
     (let v0 = MoneyUnits m; negative = v0 < 0 in
      bind_r (if negative then i64 (- v0) else Inr v0) (\<lambda>v.
        let major = v div Money_Scale; minor = v mod Money_Scale in
        Inr ((if negative then ''-'' else []) @ show_int major @ ''.''
             @ (if minor < 10 then ''0'' else []) @ show_int minor)))"

definition Rate_ToString :: "TRate \<Rightarrow> string result" where
  "Rate_ToString r =
     (let v0 = RateUnits r; negative = v0 < 0 in
      bind_r (if negative then i64 (- v0) else Inr v0) (\<lambda>v.
        let major = v div Rate_Scale; minor = v mod Rate_Scale;
            frac = show_int minor in
        Inr ((if negative then ''-'' else []) @ show_int major @ ''.''
             @ (if length frac < 4 then replicate (4 - length frac) (CHR ''0'') else []) @ frac)))"

section \<open>What the parser computes\<close>

lemma parse_major_digits:
  assumes "\<forall>c \<in> set ds. is_digit c" "0 \<le> acc" "digits_val acc ds < 2 ^ 63"
    "rest = [] \<or> \<not> is_digit (hd rest)"
  shows "parse_major acc (ds @ rest) = Inr (digits_val acc ds, rest)"
  using assms
proof (induction ds arbitrary: acc)
  case Nil
  then show ?case by (cases rest) auto
next
  case (Cons c ds)
  have c: "0 \<le> digit_val c" using Cons.prems digit_val_bounds by simp
  have le: "acc * 10 + digit_val c \<le> digits_val (acc * 10 + digit_val c) ds"
    using Cons.prems c by (intro digits_val_mono) auto
  have "digits_val (acc * 10 + digit_val c) ds < 2 ^ 63"
    using Cons.prems(3) by (simp only: digits_val.simps)
  with c le Cons.prems(2) have "in_i64 (acc * 10)" "in_i64 (acc * 10 + digit_val c)"
    by (simp_all add: in_i64_def)
  moreover have "parse_major (acc * 10 + digit_val c) (ds @ rest)
      = Inr (digits_val (acc * 10 + digit_val c) ds, rest)"
    using Cons.prems c by (intro Cons.IH) auto
  ultimately show ?case using Cons.prems(1) by simp
qed

lemma parse_minor_digits:
  assumes "\<forall>c \<in> set fs. is_digit c" "d \<le> k"
  shows "parse_minor k m d fs
    = (digits_val m (take (k - d) fs), d + min (k - d) (length fs), drop (k - d) fs)"
  using assms
proof (induction fs arbitrary: m d)
  case Nil
  then show ?case by simp
next
  case (Cons c fs)
  show ?case
  proof (cases "d < k")
    case True
    then have "k - d = Suc (k - Suc d)" by simp
    with True Cons show ?thesis by simp
  next
    case False
    with Cons.prems show ?thesis by simp
  qed
qed

lemma skip_digits_all: "\<forall>c \<in> set cs. is_digit c \<Longrightarrow> skip_digits cs = []"
  by (induction cs) auto

lemma pad_minor_eq: "d \<le> k \<Longrightarrow> pad_minor k m d = m * 10 ^ (k - d)"
proof (induction k m d rule: pad_minor.induct)
  case (1 k m d)
  show ?case
  proof (cases "d < k")
    case True
    then have "k - d = Suc (k - Suc d)" by simp
    with True 1 show ?thesis by (subst pad_minor.simps) simp
  next
    case False
    with 1 show ?thesis by (subst pad_minor.simps) simp
  qed
qed

text \<open>The fraction a text denotes at \<open>k\<close> decimals: cut or padded with zeros to \<open>k\<close> digits.\<close>

definition fraction_val :: "nat \<Rightarrow> string \<Rightarrow> int" where
  "fraction_val k fs = digits_val 0 (take k fs) * 10 ^ (k - length fs)"

lemma digits_val_less: "\<forall>c \<in> set cs. is_digit c \<Longrightarrow> digits_val acc cs < (acc + 1) * 10 ^ length cs"
proof (induction cs arbitrary: acc)
  case Nil
  then show ?case by simp
next
  case (Cons c cs)
  have "digits_val (acc * 10 + digit_val c) cs < (acc * 10 + digit_val c + 1) * 10 ^ length cs"
    using Cons by simp
  also have "\<dots> \<le> (acc * 10 + 10) * 10 ^ length cs"
    using Cons.prems digit_val_bounds(2) [of c] by (intro mult_right_mono) auto
  also have "\<dots> = (acc + 1) * 10 ^ length (c # cs)" by (simp add: algebra_simps)
  finally show ?case by simp
qed

lemma fraction_val_bounds:
  assumes "\<forall>c \<in> set fs. is_digit c"
  shows "0 \<le> fraction_val k fs" "fraction_val k fs < 10 ^ k"
proof -
  have ds: "\<forall>c \<in> set (take k fs). is_digit c" using assms by (meson in_set_takeD)
  then have "0 \<le> digits_val 0 (take k fs)" by (intro digits_val_mono) auto
  then show "0 \<le> fraction_val k fs" by (simp add: fraction_val_def)
  have "digits_val 0 (take k fs) < 10 ^ length (take k fs)" using digits_val_less [OF ds, of 0] by simp
  then have "fraction_val k fs < 10 ^ length (take k fs) * 10 ^ (k - length fs)"
    by (simp add: fraction_val_def)
  also have "\<dots> = 10 ^ k" by (simp flip: power_add add: min_def)
  finally show "fraction_val k fs < 10 ^ k" .
qed

lemma parse_fraction_dot:
  assumes "\<forall>c \<in> set fs. is_digit c"
  shows "parse_fraction k (CHR ''.'' # fs) = (fraction_val k fs, [])"
proof -
  have "skip_digits (drop k fs) = []" using assms by (intro skip_digits_all) (meson in_set_dropD)
  moreover have "k - min k (length fs) = k - length fs" by simp
  ultimately show ?thesis
    using assms by (simp add: parse_fraction_def parse_minor_digits pad_minor_eq fraction_val_def)
qed

definition is_sign :: "string \<Rightarrow> bool" where
  "is_sign sg \<longleftrightarrow> sg = [] \<or> sg = ''-'' \<or> sg = ''+''"

definition apply_sign :: "string \<Rightarrow> int \<Rightarrow> int" where
  "apply_sign sg v = (if sg = ''-'' then - v else v)"

lemma is_digit_not_special: "\<not> is_digit (CHR ''-'')" "\<not> is_digit (CHR ''+'')" "\<not> is_digit (CHR ''.'')"
  by (simp_all add: is_digit_def)

lemma parse_sign_append:
  assumes "is_sign sg" "body \<noteq> []" "hd body \<noteq> CHR ''-''" "hd body \<noteq> CHR ''+''"
  shows "parse_sign (sg @ body) = (sg = ''-'', body)"
  using assms by (cases body) (auto simp: is_sign_def parse_sign_def)

text \<open>A text with a decimal point denotes its digits, cut to the scale; the value must fit.\<close>

lemma ParseFixed_decimal:
  assumes sg: "is_sign sg"
    and ds: "\<forall>c \<in> set ds. is_digit c" and fs: "\<forall>c \<in> set fs. is_digit c"
    and fits: "digits_val 0 ds * 10 ^ k + fraction_val k fs < 2 ^ 63"
  shows "ParseFixed what k (10 ^ k) (sg @ ds @ CHR ''.'' # fs)
    = Inr (apply_sign sg (digits_val 0 ds * 10 ^ k + fraction_val k fs))"
proof -
  let ?u = "digits_val 0 ds * 10 ^ k + fraction_val k fs"
  have nonneg: "0 \<le> digits_val 0 ds" "0 \<le> fraction_val k fs"
    using ds fs by (auto intro: digits_val_mono fraction_val_bounds)
  have "digits_val 0 ds \<le> digits_val 0 ds * 10 ^ k" using nonneg by (simp add: mult_le_cancel_left1)
  then have "digits_val 0 ds < 2 ^ 63" using fits nonneg by linarith
  then have major: "parse_major 0 (ds @ CHR ''.'' # fs) = Inr (digits_val 0 ds, CHR ''.'' # fs)"
    using ds by (intro parse_major_digits) (auto simp: is_digit_not_special)
  have u: "0 \<le> ?u" "0 \<le> digits_val 0 ds * 10 ^ k" using nonneg by auto
  then have i: "in_i64 (digits_val 0 ds * 10 ^ k)" "in_i64 ?u" "in_i64 (- ?u)"
    using fits nonneg(2) unfolding in_i64_def by linarith+
  have hd: "hd (ds @ CHR ''.'' # fs) \<noteq> CHR ''-''" "hd (ds @ CHR ''.'' # fs) \<noteq> CHR ''+''"
    using ds is_digit_not_special by (cases ds; auto)+
  have "parse_sign (sg @ ds @ CHR ''.'' # fs) = (sg = ''-'', ds @ CHR ''.'' # fs)"
    using sg hd by (intro parse_sign_append) auto
  then show ?thesis
    unfolding ParseFixed_def Let_def apply_sign_def
    using major i parse_fraction_dot [OF fs] by simp
qed

section \<open>Round trips\<close>

lemma digits_val_zeros: "digits_val 0 (replicate n (CHR ''0'') @ cs) = digits_val 0 cs"
  by (induction n) (simp_all add: digit_val_def)

lemma is_digit_zero: "is_digit (CHR ''0'')"
  by (simp add: is_digit_def)

lemma fraction_val_padded:
  assumes "length (show_nat n) \<le> k"
  shows "fraction_val k (replicate (k - length (show_nat n)) (CHR ''0'') @ show_nat n) = int n"
  using assms by (simp add: fraction_val_def digits_val_zeros)

lemma length_show_nat_le: "0 < k \<Longrightarrow> n < 10 ^ k \<Longrightarrow> length (show_nat n) \<le> k"
proof (induction n arbitrary: k rule: show_nat.induct)
  case (1 n)
  show ?case
  proof (cases "n < 10")
    case True
    with 1 show ?thesis by (simp add: length_show_nat_lt)
  next
    case False
    then have "k \<noteq> 1" using 1(3) by auto
    then obtain j where k: "k = Suc j" "0 < j" using 1(2) by (cases k) auto
    have "n div 10 < 10 ^ j" using 1(3) k by (simp add: less_mult_imp_div_less mult.commute)
    with 1(1) False k have "length (show_nat (n div 10)) \<le> j" by simp
    with False k show ?thesis by (subst show_nat.simps) simp
  qed
qed

text \<open>The common core: the canonical text of a non-negative value at \<open>k\<close> decimals.\<close>

definition canonical :: "nat \<Rightarrow> nat \<Rightarrow> string" where
  "canonical k v = show_nat (v div 10 ^ k) @ CHR ''.''
     # replicate (k - length (show_nat (v mod 10 ^ k))) (CHR ''0'') @ show_nat (v mod 10 ^ k)"

lemma ParseFixed_canonical:
  assumes "is_sign sg" "0 < k" "v < 2 ^ 63"
  shows "ParseFixed what k (10 ^ k) (sg @ canonical k v) = Inr (apply_sign sg (int v))"
proof -
  let ?f = "show_nat (v mod 10 ^ k)"
  let ?fs = "replicate (k - length ?f) (CHR ''0'') @ ?f"
  have fv: "fraction_val k ?fs = int (v mod 10 ^ k)"
    using assms(2) by (intro fraction_val_padded length_show_nat_le) auto
  have sum: "int (v div 10 ^ k) * 10 ^ k + int (v mod 10 ^ k) = int v"
    using int_div_mod_eq [of v "10 ^ k"] by simp
  have "int v < 2 ^ 63" using assms(3) by simp
  then have "ParseFixed what k (10 ^ k) (sg @ show_nat (v div 10 ^ k) @ CHR ''.'' # ?fs)
    = Inr (apply_sign sg (digits_val 0 (show_nat (v div 10 ^ k)) * 10 ^ k + fraction_val k ?fs))"
    using assms(1) show_nat_digits is_digit_zero
    by (intro ParseFixed_decimal) (auto simp: fv sum)
  then show ?thesis by (simp add: canonical_def fv sum)
qed

lemma Money_ToString_canonical:
  assumes "- (2 ^ 63) < u" "u < 2 ^ 63"
  shows "Money_ToString (TMoney u) = Inr ((if u < 0 then ''-'' else []) @ canonical 2 (nat \<bar>u\<bar>))"
proof -
  have minor: "(if \<bar>u\<bar> mod 100 < 10 then ''0'' else []) @ show_int (\<bar>u\<bar> mod 100)
      = replicate (2 - length (show_nat (nat \<bar>u\<bar> mod 100))) (CHR ''0'') @ show_nat (nat \<bar>u\<bar> mod 100)"
  proof -
    let ?n = "nat \<bar>u\<bar> mod 100"
    have n: "nat (\<bar>u\<bar> mod 100) = ?n" by (simp add: nat_mod_distrib)
    have "length (show_nat ?n) = (if ?n < 10 then 1 else 2)"
      by (subst show_nat.simps) (simp add: length_show_nat_lt)
    moreover have "\<bar>u\<bar> mod 100 < 10 \<longleftrightarrow> ?n < 10" by (simp flip: n add: nat_less_iff)
    ultimately show ?thesis using n by (simp add: show_int_nonneg)
  qed
  have major: "show_int (\<bar>u\<bar> div 100) = show_nat (nat \<bar>u\<bar> div 100)"
    by (simp add: show_int_nonneg nat_div_distrib pos_imp_zdiv_nonneg_iff)
  have "(if u < 0 then i64 (- u) else Inr u) = Inr \<bar>u\<bar>"
    using assms by (auto simp: in_i64_def)
  then show ?thesis
    using minor major by (simp add: Money_ToString_def Money_Scale_def canonical_def Let_def)
qed

lemma Rate_ToString_canonical:
  assumes "- (2 ^ 63) < u" "u < 2 ^ 63"
  shows "Rate_ToString (TRate u) = Inr ((if u < 0 then ''-'' else []) @ canonical 4 (nat \<bar>u\<bar>))"
proof -
  have major: "show_int (\<bar>u\<bar> div 10000) = show_nat (nat \<bar>u\<bar> div 10000)"
    by (simp add: show_int_nonneg nat_div_distrib pos_imp_zdiv_nonneg_iff)
  have minor: "show_int (\<bar>u\<bar> mod 10000) = show_nat (nat \<bar>u\<bar> mod 10000)"
    by (simp add: show_int_nonneg nat_mod_distrib)
  have "(if u < 0 then i64 (- u) else Inr u) = Inr \<bar>u\<bar>"
    using assms by (auto simp: in_i64_def)
  then show ?thesis
    using minor major by (simp add: Rate_ToString_def Rate_Scale_def canonical_def Let_def)
qed

section \<open>What an accepted text looks like\<close>

lemma parse_major_sound:
  "parse_major acc s = Inr (v, r) \<Longrightarrow>
     \<exists>ds. s = ds @ r \<and> (\<forall>c \<in> set ds. is_digit c) \<and> v = digits_val acc ds"
proof (induction s arbitrary: acc)
  case Nil
  then show ?case by simp
next
  case (Cons c s)
  show ?case
  proof (cases "is_digit c")
    case True
    with Cons.prems have "parse_major (acc * 10 + digit_val c) s = Inr (v, r)"
      by (auto simp: result_simps)
    then obtain ds where ds: "s = ds @ r" "\<forall>c \<in> set ds. is_digit c"
      "v = digits_val (acc * 10 + digit_val c) ds"
      using Cons.IH by blast
    with True show ?thesis by (intro exI [of _ "c # ds"]) auto
  next
    case False
    with Cons.prems show ?thesis by (intro exI [of _ "[]"]) auto
  qed
qed

lemma parse_minor_suffix:
  "\<exists>ds. snd (snd (parse_minor k m d s)) = ds \<and> (\<exists>fs. s = fs @ ds \<and> (\<forall>c \<in> set fs. is_digit c))"
proof (induction s arbitrary: m d)
  case Nil
  then show ?case by simp
next
  case (Cons c s)
  show ?case
  proof (cases "is_digit c \<and> d < k")
    case True
    obtain fs where "s = fs @ snd (snd (parse_minor k (m * 10 + digit_val c) (Suc d) s))"
      "\<forall>c \<in> set fs. is_digit c"
      using Cons.IH by blast
    with True show ?thesis by (intro exI conjI refl exI [of _ "c # fs"]) auto
  next
    case False
    then show ?thesis by auto
  qed
qed

lemma skip_digits_suffix: "\<exists>fs. s = fs @ skip_digits s \<and> (\<forall>c \<in> set fs. is_digit c)"
proof (induction s)
  case Nil
  then show ?case by simp
next
  case (Cons c s)
  then obtain fs where "s = fs @ skip_digits s" "\<forall>c \<in> set fs. is_digit c" by blast
  then have "is_digit c \<Longrightarrow> c # s = (c # fs) @ skip_digits (c # s) \<and> (\<forall>x \<in> set (c # fs). is_digit x)"
    by auto
  moreover have "\<not> is_digit c \<Longrightarrow> c # s = [] @ skip_digits (c # s)" by simp
  ultimately show ?case by (metis empty_iff empty_set)
qed

lemma parse_fraction_consumed:
  assumes "parse_fraction k (CHR ''.'' # s) = (minor, [])"
  shows "(\<forall>c \<in> set s. is_digit c) \<and> minor = fraction_val k s"
proof -
  let ?r = "snd (snd (parse_minor k 0 0 s))"
  have skip: "skip_digits ?r = []"
    using assms by (auto simp: parse_fraction_def Let_def split: prod.splits)
  obtain fs where fs: "s = fs @ ?r" "\<forall>c \<in> set fs. is_digit c" using parse_minor_suffix by blast
  obtain gs where gs: "?r = gs @ skip_digits ?r" "\<forall>c \<in> set gs. is_digit c"
    using skip_digits_suffix by blast
  have "s = fs @ gs" using fs gs skip by simp
  then have "\<forall>c \<in> set s. is_digit c" using fs gs by auto
  then show ?thesis using assms parse_fraction_dot by simp
qed

text \<open>The values an accepted text may have: an optional sign, digits, an optional fraction.\<close>

definition fixed_text :: "nat \<Rightarrow> string \<Rightarrow> int \<Rightarrow> bool" where
  "fixed_text k text u \<longleftrightarrow>
     (\<exists>sg ds. is_sign sg \<and> (\<forall>c \<in> set ds. is_digit c) \<and>
        (text = sg @ ds \<and> u = apply_sign sg (digits_val 0 ds * 10 ^ k) \<or>
         (\<exists>fs. text = sg @ ds @ CHR ''.'' # fs \<and> (\<forall>c \<in> set fs. is_digit c) \<and>
               u = apply_sign sg (digits_val 0 ds * 10 ^ k + fraction_val k fs))))"

lemma parse_sign_split:
  assumes "parse_sign text = (neg, rest)"
  shows "\<exists>sg. is_sign sg \<and> text = sg @ rest \<and> (neg \<longleftrightarrow> sg = ''-'')"
  using assms
  by (cases "text") (auto simp: parse_sign_def is_sign_def split: if_splits)

lemma ParseFixed_sound:
  assumes "ParseFixed what k (10 ^ k) text = Inr u"
  shows "fixed_text k text u"
proof -
  obtain neg rest where s: "parse_sign text = (neg, rest)" by fastforce
  then obtain sg where sg: "is_sign sg" "text = sg @ rest" "neg \<longleftrightarrow> sg = ''-''"
    using parse_sign_split by blast
  obtain major rest1 where m: "parse_major 0 rest = Inr (major, rest1)"
    using assms s by (auto simp: ParseFixed_def result_simps split: if_splits)
  then obtain ds where ds: "rest = ds @ rest1" "\<forall>c \<in> set ds. is_digit c" "major = digits_val 0 ds"
    using parse_major_sound by blast
  obtain minor where f: "parse_fraction k rest1 = (minor, [])"
    and u: "u = apply_sign sg (major * 10 ^ k + minor)"
    using assms s m sg(3)
    by (auto simp: ParseFixed_def result_simps apply_sign_def split: if_splits prod.splits)
  show ?thesis
  proof (cases "\<exists>fs. rest1 = CHR ''.'' # fs")
    case True
    then obtain fs where fs: "rest1 = CHR ''.'' # fs" by blast
    with f have "(\<forall>c \<in> set fs. is_digit c) \<and> minor = fraction_val k fs"
      using parse_fraction_consumed by simp
    then show ?thesis unfolding fixed_text_def using sg ds fs u by blast
  next
    case False
    with f have "rest1 = []" "minor = 0"
      by (auto simp: parse_fraction_def split: list.splits if_splits)
    then show ?thesis unfolding fixed_text_def using sg ds u by auto
  qed
qed

section \<open>Properties\<close>

text \<open>C21: every amount except the smallest \<^verbatim>\<open>int64_t\<close> is printed by \<^verbatim>\<open>TMoney::ToString\<close>, and
  \<^verbatim>\<open>TMoney::Parse\<close> of the printed text returns exactly that amount.\<close>

theorem money_roundtrip:
  assumes "- (2 ^ 63) < u" "u < 2 ^ 63"
  shows "bind_r (Money_ToString (TMoney u)) Money_Parse = Inr (TMoney u)"
proof -
  have "nat \<bar>u\<bar> < 2 ^ 63" using assms by (simp add: nat_less_iff)
  then have "ParseFixed ''money'' 2 (10 ^ 2) ((if u < 0 then ''-'' else []) @ canonical 2 (nat \<bar>u\<bar>))
      = Inr u"
    by (subst ParseFixed_canonical) (auto simp: is_sign_def apply_sign_def)
  then show ?thesis
    using Money_ToString_canonical [OF assms] by (simp add: Money_Parse_def Money_Scale_def)
qed

theorem money_roundtrip_witness:
  "bind_r (Money_ToString (TMoney (- 1205))) Money_Parse = Inr (TMoney (- 1205))"
  by (rule money_roundtrip) simp_all

text \<open>C26: the same for \<^verbatim>\<open>TRate\<close>: printing a rate with four decimals and parsing it back is the
  identity on every rate except the smallest \<^verbatim>\<open>int64_t\<close>.\<close>

theorem rate_roundtrip:
  assumes "- (2 ^ 63) < u" "u < 2 ^ 63"
  shows "bind_r (Rate_ToString (TRate u)) Rate_Parse = Inr (TRate u)"
proof -
  have "nat \<bar>u\<bar> < 2 ^ 63" using assms by (simp add: nat_less_iff)
  then have "ParseFixed ''rate'' 4 (10 ^ 4) ((if u < 0 then ''-'' else []) @ canonical 4 (nat \<bar>u\<bar>))
      = Inr u"
    by (subst ParseFixed_canonical) (auto simp: is_sign_def apply_sign_def)
  then show ?thesis
    using Rate_ToString_canonical [OF assms] by (simp add: Rate_Parse_def Rate_Scale_def)
qed

theorem rate_roundtrip_witness:
  "bind_r (Rate_ToString (TRate 1075)) Rate_Parse = Inr (TRate 1075)"
  by (rule rate_roundtrip) simp_all



end
