(* ===== verification/Domain.thy ===== *)
theory Domain
  imports Complex_Main Money
begin

text \<open>
  \<^verbatim>\<open>tpcc/domain/constants.h\<close>, \<^verbatim>\<open>workload_config.h\<close> and \<^verbatim>\<open>pacing_credit.h\<close>: the TPC-C constants,
  the transaction types with their latency limits, the workload configuration and the sleep
  credit that corrects the pacing of a terminal for timer overshoot. Durations are integers of
  milliseconds; mix weights, which the source holds in a \<^verbatim>\<open>double\<close>, are rationals.
\<close>

section \<open>Constants\<close>

definition TERMINALS_PER_WAREHOUSE :: nat where "TERMINALS_PER_WAREHOUSE = 10"
definition DISTRICT_LOW_ID :: int where "DISTRICT_LOW_ID = 1"
definition DISTRICT_HIGH_ID :: int where "DISTRICT_HIGH_ID = 10"
definition DISTRICT_COUNT :: int where "DISTRICT_COUNT = DISTRICT_HIGH_ID - DISTRICT_LOW_ID + 1"
definition C_INVALID_CUSTOMER_ID :: int where "C_INVALID_CUSTOMER_ID = 0"
definition C_ID_C :: int where "C_ID_C = 259"
definition CUSTOMERS_PER_DISTRICT :: int where "CUSTOMERS_PER_DISTRICT = 3000"
definition OL_I_ID_C :: int where "OL_I_ID_C = 7911"
definition ITEM_COUNT :: int where "ITEM_COUNT = 100000"
definition INVALID_ITEM_ID :: int where "INVALID_ITEM_ID = - 12345"
definition MIN_ITEMS :: int where "MIN_ITEMS = 5"
definition MAX_ITEMS :: int where "MAX_ITEMS = 15"
definition NEW_ORDER_REMOTE_WAREHOUSE_PERCENT :: int where "NEW_ORDER_REMOTE_WAREHOUSE_PERCENT = 1"
definition PAYMENT_REMOTE_WAREHOUSE_PERCENT :: int where "PAYMENT_REMOTE_WAREHOUSE_PERCENT = 15"
definition NEW_ORDER_MAX_REMOTE_WAREHOUSES :: int where "NEW_ORDER_MAX_REMOTE_WAREHOUSES = 0"
definition C_LAST_LOAD_C :: int where "C_LAST_LOAD_C = 157"
definition C_LAST_RUN_C :: int where "C_LAST_RUN_C = 223"
definition FIRST_UNPROCESSED_O_ID :: int where "FIRST_UNPROCESSED_O_ID = 2101"

text \<open>The initial amounts are \<^verbatim>\<open>FromMajorMinor\<close> of constants; the compiler evaluates them.\<close>

definition DISTRICT_INITIAL_YTD :: TMoney where "DISTRICT_INITIAL_YTD = TMoney (30000 * Money_Scale + 0)"
definition WAREHOUSE_INITIAL_YTD :: TMoney where "WAREHOUSE_INITIAL_YTD = TMoney (300000 * Money_Scale + 0)"
definition CUSTOMER_INITIAL_CREDIT_LIMIT :: TMoney where
  "CUSTOMER_INITIAL_CREDIT_LIMIT = TMoney (50000 * Money_Scale + 0)"
definition CUSTOMER_INITIAL_BALANCE :: TMoney where
  "CUSTOMER_INITIAL_BALANCE = TMoney (- 10 * Money_Scale + 0)"
definition CUSTOMER_INITIAL_YTD_PAYMENT :: TMoney where
  "CUSTOMER_INITIAL_YTD_PAYMENT = TMoney (10 * Money_Scale + 0)"

lemmas domain_constants =
  TERMINALS_PER_WAREHOUSE_def DISTRICT_LOW_ID_def DISTRICT_HIGH_ID_def DISTRICT_COUNT_def
  C_INVALID_CUSTOMER_ID_def C_ID_C_def CUSTOMERS_PER_DISTRICT_def OL_I_ID_C_def ITEM_COUNT_def
  INVALID_ITEM_ID_def MIN_ITEMS_def MAX_ITEMS_def NEW_ORDER_REMOTE_WAREHOUSE_PERCENT_def
  PAYMENT_REMOTE_WAREHOUSE_PERCENT_def NEW_ORDER_MAX_REMOTE_WAREHOUSES_def
  C_LAST_LOAD_C_def C_LAST_RUN_C_def FIRST_UNPROCESSED_O_ID_def

definition HomeDistrictId :: "nat \<Rightarrow> int" where
  "HomeDistrictId terminalIndexInWarehouse =
     DISTRICT_LOW_ID + int (terminalIndexInWarehouse mod nat DISTRICT_COUNT)"

datatype ETransactionType = NewOrder | Delivery | OrderStatus | Payment | StockLevel

text \<open>The enumerator values, which index the per-type arrays.\<close>

fun tx_index :: "ETransactionType \<Rightarrow> nat" where
  "tx_index NewOrder = 0"
| "tx_index Delivery = 1"
| "tx_index OrderStatus = 2"
| "tx_index Payment = 3"
| "tx_index StockLevel = 4"

definition TRANSACTION_TYPE_COUNT :: nat where "TRANSACTION_TYPE_COUNT = 5"

definition TpccP90LimitMs :: "ETransactionType \<Rightarrow> nat" where
  "TpccP90LimitMs type = (if type = StockLevel then 20000 else 5000)"

lemma tx_index_less: "tx_index t < TRANSACTION_TYPE_COUNT"
  by (cases t) (simp_all add: TRANSACTION_TYPE_COUNT_def)

lemma tx_index_inj: "tx_index s = tx_index t \<Longrightarrow> s = t"
  by (cases s; cases t) simp_all

section \<open>Workload configuration\<close>

record TTxWorkload =
  Weight :: rat
  KeyingTimeMs :: int
  ThinkTimeMs :: int

record TWorkloadConfig =
  TerminalsPerWarehouse :: nat
  HasCustomMix :: bool
  HasCustomKeying :: bool
  HasCustomThink :: bool
  PerTx :: "TTxWorkload list"
  NewOrderRemoteWarehousePercent :: int
  PaymentRemoteWarehousePercent :: int
  NewOrderMaxRemoteWarehouses :: int

definition ValidateRemoteWarehousePercent :: "int \<Rightarrow> string \<Rightarrow> unit result" where
  "ValidateRemoteWarehousePercent value field =
     (if value < 0 \<or> value > 100 then Inl (RuntimeError (field @ '' must be in [0, 100]''))
      else Inr ())"

record THistogramConfig =
  Configured :: bool
  Unit :: string
  Highest :: nat

definition HistogramHdrTill :: "THistogramConfig \<Rightarrow> nat" where
  "HistogramHdrTill c =
     (if \<not> Configured c then 4096
      else if Highest c < 4096 then (if Highest c > 0 then Highest c else 1)
      else 4096)"

definition HistogramMaxValue :: "THistogramConfig \<Rightarrow> nat" where
  "HistogramMaxValue c =
     (if \<not> Configured c then 32768
      else if Highest c > 0 then Highest c else 32768)"

text \<open>In the order of the enumerators.\<close>

definition MakeDefaultWorkloadConfig :: TWorkloadConfig where
  "MakeDefaultWorkloadConfig =
     \<lparr> TerminalsPerWarehouse = TERMINALS_PER_WAREHOUSE,
       HasCustomMix = False, HasCustomKeying = False, HasCustomThink = False,
       PerTx =
         [\<lparr> Weight = 45, KeyingTimeMs = 18 * 1000, ThinkTimeMs = 12 * 1000 \<rparr>,
          \<lparr> Weight = 4, KeyingTimeMs = 2 * 1000, ThinkTimeMs = 5 * 1000 \<rparr>,
          \<lparr> Weight = 4, KeyingTimeMs = 2 * 1000, ThinkTimeMs = 10 * 1000 \<rparr>,
          \<lparr> Weight = 43, KeyingTimeMs = 3 * 1000, ThinkTimeMs = 12 * 1000 \<rparr>,
          \<lparr> Weight = 4, KeyingTimeMs = 2 * 1000, ThinkTimeMs = 5 * 1000 \<rparr>],
       NewOrderRemoteWarehousePercent = NEW_ORDER_REMOTE_WAREHOUSE_PERCENT,
       PaymentRemoteWarehousePercent = PAYMENT_REMOTE_WAREHOUSE_PERCENT,
       NewOrderMaxRemoteWarehouses = NEW_ORDER_MAX_REMOTE_WAREHOUSES \<rparr>"

lemma default_mix_complete:
  "length (PerTx MakeDefaultWorkloadConfig) = TRANSACTION_TYPE_COUNT"
  "sum_list (map Weight (PerTx MakeDefaultWorkloadConfig)) = 100"
  by (simp_all add: MakeDefaultWorkloadConfig_def TRANSACTION_TYPE_COUNT_def)

text \<open>The linear window of the histogram is positive and within its maximum.\<close>

lemma histogram_window:
  "0 < HistogramHdrTill c" "HistogramHdrTill c \<le> HistogramMaxValue c \<or> Highest c = 0"
  by (auto simp: HistogramHdrTill_def HistogramMaxValue_def)

section \<open>Pacing credit\<close>

definition DefaultPacingCreditCap :: int where "DefaultPacingCreditCap = 36000"

text \<open>The new credit and the sleep that is left of the requested one.\<close>

definition ApplyPacingCredit :: "int \<Rightarrow> int \<Rightarrow> int \<times> int" where
  "ApplyPacingCredit credit requested =
     (if requested \<le> 0 then (credit, 0)
      else if credit \<le> 0 then (credit, requested)
      else let use = min credit requested in (credit - use, requested - use))"

text \<open>\<open>elapsed\<close> is \<^verbatim>\<open>duration_cast<milliseconds>(now - sleepStart)\<close>.\<close>

definition AccruePacingOvershoot :: "int \<Rightarrow> int \<Rightarrow> int \<Rightarrow> int \<Rightarrow> int" where
  "AccruePacingOvershoot credit maxCredit elapsed requestedSleep =
     (let requested = (if requestedSleep < 0 then 0 else requestedSleep) in
      if elapsed \<le> requested then credit
      else let c = credit + (elapsed - requested) in if c > maxCredit then maxCredit else c)"

lemma AccruePacingOvershoot_range:
  assumes "0 \<le> credit" "credit \<le> maxCredit"
  shows "0 \<le> AccruePacingOvershoot credit maxCredit elapsed requested"
    "AccruePacingOvershoot credit maxCredit elapsed requested \<le> maxCredit"
  using assms by (auto simp: AccruePacingOvershoot_def Let_def)

lemma ApplyPacingCredit_range:
  assumes "0 \<le> credit" "credit \<le> maxCredit"
  shows "0 \<le> fst (ApplyPacingCredit credit requested)"
    "fst (ApplyPacingCredit credit requested) \<le> maxCredit"
  using assms by (auto simp: ApplyPacingCredit_def Let_def)

text \<open>A terminal's waits: each one is shortened by the credit, then takes \<open>late\<close> milliseconds
  more than asked for. The result is the credit and the total of the waits as they happened.\<close>

fun paced_waits :: "int \<Rightarrow> (int \<times> int) list \<Rightarrow> int \<times> int" where
  "paced_waits credit [] = (credit, 0)"
| "paced_waits credit ((requested, late) # ws) =
     (let (c1, sleep) = ApplyPacingCredit credit requested;
          c2 = AccruePacingOvershoot c1 DefaultPacingCreditCap (sleep + late) sleep;
          (c3, total) = paced_waits c2 ws
      in (c3, sleep + late + total))"

lemma paced_waits_step:
  assumes "0 \<le> credit" "credit + late \<le> DefaultPacingCreditCap" "0 \<le> requested" "0 \<le> late"
    "ApplyPacingCredit credit requested = (c1, sleep)"
  shows "AccruePacingOvershoot c1 DefaultPacingCreditCap (sleep + late) sleep = credit + sleep + late - requested"
    "0 \<le> credit + sleep + late - requested" "credit + sleep + late - requested \<le> credit + late"
  using assms
  by (auto simp: ApplyPacingCredit_def AccruePacingOvershoot_def Let_def min_def split: if_splits)

lemma paced_waits_exact:
  assumes "0 \<le> credit" "\<forall>(r, l) \<in> set ws. 0 \<le> r \<and> 0 \<le> l"
    "credit + sum_list (map snd ws) \<le> DefaultPacingCreditCap"
  shows "snd (paced_waits credit ws) = sum_list (map fst ws) + (fst (paced_waits credit ws) - credit)"
  using assms
proof (induction ws arbitrary: credit)
  case Nil
  then show ?case by simp
next
  case (Cons w ws)
  obtain r l where w: "w = (r, l)" by fastforce
  obtain c1 s where a: "ApplyPacingCredit credit r = (c1, s)" by fastforce
  have rest: "0 \<le> sum_list (map snd ws)" using Cons.prems(2) by (intro sum_list_nonneg) auto
  have pre: "0 \<le> credit" "credit + l \<le> DefaultPacingCreditCap" "0 \<le> r" "0 \<le> l"
    using Cons.prems w rest by auto
  note step = paced_waits_step [OF pre a]
  have IH: "snd (paced_waits (credit + s + l - r) ws)
      = sum_list (map fst ws) + (fst (paced_waits (credit + s + l - r) ws) - (credit + s + l - r))"
    using Cons.prems w step by (intro Cons.IH) auto
  show ?case using IH w a step(1) by (simp add: case_prod_beta Let_def)
qed

section \<open>Properties\<close>

text \<open>C28: pacing loses no time. While the accumulated lateness stays within the credit cap, the
  time a terminal really waits over any sequence of waits is the requested total plus the
  credit that is still outstanding: every late wake-up is given back by later waits.\<close>

theorem pacing_conserves_time:
  assumes "\<forall>(r, l) \<in> set ws. 0 \<le> r \<and> 0 \<le> l"
    and "sum_list (map snd ws) \<le> DefaultPacingCreditCap"
  shows "snd (paced_waits 0 ws) = sum_list (map fst ws) + fst (paced_waits 0 ws)"
  using paced_waits_exact [of 0 ws] assms by simp

theorem pacing_conserves_time_witness:
  "snd (paced_waits 0 [(18000, 250), (12000, 0), (100, 30)])
     = sum_list (map fst [(18000, 250 :: int), (12000, 0), (100, 30)])
       + fst (paced_waits 0 [(18000, 250), (12000, 0), (100, 30)])"
  by (rule pacing_conserves_time) (simp_all add: DefaultPacingCreditCap_def)

end
