(* ===== verification/Rng.thy ===== *)
theory Rng
  imports Xorshift Domain
begin

text \<open>
  \<^verbatim>\<open>tpcc/domain/rng.h\<close> and \<^verbatim>\<open>tpcc/transactions/new_order_supply.h\<close>: the xorshift64* generator,
  the bounded draw without bias, the TPC-C non-uniform distribution and the customer, item and
  last-name samplers built on it. A draw takes the generator and returns the drawn value with
  the generator after it.

  The class \<^verbatim>\<open>TFastRng\<close> keeps its state private and its constructors replace a zero seed; the
  type \<open>TFastRng\<close> is therefore the type of non-zero states. \<^verbatim>\<open>TSeededRng\<close> wraps one
  \<^verbatim>\<open>TFastRng\<close> and is the same type. The rejection loop of \<^verbatim>\<open>BoundedRandom\<close> is a total function:
  its termination proof is the full period of the generator.
\<close>

section \<open>The generator\<close>

typedef TFastRng = "{s :: u64. s \<noteq> 0}" morphisms RngState MkRng
  by (intro exI [of _ 1]) simp

type_synonym TSeededRng = TFastRng

definition TFastRng_seed :: "u64 \<Rightarrow> TFastRng" where
  "TFastRng_seed seed = MkRng (if seed \<noteq> 0 then seed else 0x9E3779B97F4A7C15)"

definition Next :: "TFastRng \<Rightarrow> u64 \<times> TFastRng" where
  "Next rng = (let x = xorshift (RngState rng) in (x * 0x2545F4914F6CDD1D, MkRng x))"

definition Mix :: "TSeededRng \<Rightarrow> u64 \<Rightarrow> u64" where
  "Mix rng salt =
     (let x0 = RngState rng XOR (salt + 0x9E3779B97F4A7C15);
          x1 = (x0 XOR drop_bit 30 x0) * 0xBF58476D1CE4E5B9;
          x2 = (x1 XOR drop_bit 27 x1) * 0x94D049BB133111EB;
          x3 = x2 XOR drop_bit 31 x2
      in if x3 \<noteq> 0 then x3 else 0xA0761D6478BD642F)"

definition Fork :: "TSeededRng \<Rightarrow> u64 \<Rightarrow> TSeededRng" where
  "Fork rng salt = TFastRng_seed (Mix rng salt)"

lemma RngState_nonzero [simp]: "RngState rng \<noteq> 0"
  using RngState [of rng] by simp

lemma RngState_MkRng [simp]: "x \<noteq> 0 \<Longrightarrow> RngState (MkRng x) = x"
  by (simp add: MkRng_inverse)

lemma RngState_seed: "RngState (TFastRng_seed seed) = (if seed \<noteq> 0 then seed else 0x9E3779B97F4A7C15)"
  by (simp add: TFastRng_seed_def)

lemma Next_state: "RngState (snd (Next rng)) = xorshift (RngState rng)"
  by (simp add: Next_def Let_def xorshift_nonzero)

lemma Next_value: "fst (Next rng) = xorshift (RngState rng) * 0x2545F4914F6CDD1D"
  by (simp add: Next_def Let_def)

text \<open>The generator after \<open>n\<close> draws.\<close>

definition rng_after :: "nat \<Rightarrow> TFastRng \<Rightarrow> TFastRng" where
  "rng_after n rng = ((\<lambda>r. snd (Next r)) ^^ n) rng"

lemma rng_after_state: "RngState (rng_after n rng) = (xorshift ^^ n) (RngState rng)"
  by (induction n) (simp_all add: rng_after_def Next_state)

lemma rng_after_Suc: "rng_after (Suc n) rng = rng_after n (snd (Next rng))"
  by (simp add: rng_after_def funpow_Suc_right del: funpow.simps)

lemma rng_after_0 [simp]: "rng_after 0 rng = rng"
  by (simp add: rng_after_def)

text \<open>Every value but zero is drawn sooner or later, since the multiplier is odd.\<close>

lemma Next_reaches:
  assumes "y \<noteq> 0"
  shows "\<exists>n. fst (Next (rng_after n rng)) = y"
proof -
  let ?inv = "0x59071D96D81ECD35 :: u64"
  have inv: "?inv * 0x2545F4914F6CDD1D = 1" by simp
  let ?w = "y * ?inv"
  have w: "?w * 0x2545F4914F6CDD1D = y" using inv by (simp only: mult.assoc) simp
  then have "?w \<noteq> 0" using assms by fastforce
  moreover have "xorshift (RngState rng) \<noteq> 0" by (simp add: xorshift_nonzero)
  ultimately obtain n where "(xorshift ^^ n) (xorshift (RngState rng)) = ?w"
    using xorshift_reaches by blast
  then have "fst (Next (rng_after n rng)) = y"
    using w by (simp add: Next_value rng_after_state funpow_swap1)
  then show ?thesis by blast
qed

section \<open>The bounded draw\<close>

text \<open>The 128-bit product of a draw and the range: its low and its high word, and the rejection
  threshold \<open>t\<close>.\<close>

definition mul_low :: "u64 \<Rightarrow> u64 \<Rightarrow> u64" where
  "mul_low x bound = x * bound"

definition mul_high :: "u64 \<Rightarrow> u64 \<Rightarrow> u64" where
  "mul_high x bound = of_nat ((unat x * unat bound) div 2 ^ 64)"

definition threshold :: "u64 \<Rightarrow> u64" where
  "threshold bound = (0 - bound) mod bound"

definition accepted :: "u64 \<Rightarrow> u64 \<Rightarrow> bool" where
  "accepted bound x \<longleftrightarrow> \<not> mul_low x bound < threshold bound"

lemma threshold_less: "bound \<noteq> 0 \<Longrightarrow> threshold bound < bound"
  unfolding threshold_def by (simp add: word_less_nat_alt unat_mod unat_gt_0)

lemma threshold_le: "threshold bound \<le> bound"
proof (cases "bound = 0")
  case True
  then show ?thesis by (simp add: threshold_def)
next
  case False
  then show ?thesis using threshold_less by fastforce
qed

lemma accepted_one: "accepted bound 1"
  using threshold_le [of bound] by (simp add: accepted_def mul_low_def not_less)

text \<open>The number of draws until an accepted one.\<close>

definition draws :: "u64 \<Rightarrow> TFastRng \<Rightarrow> nat" where
  "draws bound rng = (LEAST n. accepted bound (fst (Next (rng_after n rng))))"

lemma draws_accepted: "accepted bound (fst (Next (rng_after (draws bound rng) rng)))"
proof -
  obtain n where "fst (Next (rng_after n rng)) = 1" using Next_reaches [of 1 rng] by auto
  then have "accepted bound (fst (Next (rng_after n rng)))" by (simp add: accepted_one)
  then show ?thesis unfolding draws_def by (rule LeastI)
qed

lemma draws_minimal: "accepted bound (fst (Next (rng_after n rng))) \<Longrightarrow> draws bound rng \<le> n"
  unfolding draws_def by (rule Least_le)

lemma draws_Suc:
  assumes "\<not> accepted bound (fst (Next rng))"
  shows "draws bound rng = Suc (draws bound (snd (Next rng)))"
proof (rule antisym)
  show "draws bound rng \<le> Suc (draws bound (snd (Next rng)))"
    by (rule draws_minimal) (simp add: rng_after_Suc draws_accepted)
  obtain n where n: "draws bound rng = Suc n"
    using draws_accepted [of bound rng] assms by (cases "draws bound rng") auto
  then have "accepted bound (fst (Next (rng_after n (snd (Next rng)))))"
    using draws_accepted [of bound rng] by (simp add: rng_after_Suc)
  then show "Suc (draws bound (snd (Next rng))) \<le> draws bound rng" using n by (simp add: draws_minimal)
qed

text \<open>The rejection loop \<^verbatim>\<open>while (l < t)\<close>, on the current draw.\<close>

function bounded_loop :: "TFastRng \<Rightarrow> u64 \<Rightarrow> u64 \<Rightarrow> u64 \<times> TFastRng" where
  "bounded_loop rng bound x =
     (if mul_low x bound < threshold bound
      then (case Next rng of (x', rng') \<Rightarrow> bounded_loop rng' bound x')
      else (x, rng))"
  by pat_completeness auto
termination
proof (relation "measure (\<lambda>(rng, bound, x). if accepted bound x then 0 else Suc (draws bound rng))",
    goal_cases)
  case 1
  then show ?case by simp
next
  case (2 rng bound x x' rng')
  then have x: "\<not> accepted bound x" and n: "Next rng = (x', rng')"
    by (simp_all add: accepted_def)
  show ?case
  proof (cases "accepted bound x'")
    case False
    then have "draws bound rng = Suc (draws bound rng')" using draws_Suc [of bound rng] n by simp
    with x False show ?thesis by simp
  qed (use x in simp)
qed

declare bounded_loop.simps [simp del]

definition BoundedRandom :: "TFastRng \<Rightarrow> u64 \<Rightarrow> u64 \<times> TFastRng" where
  "BoundedRandom rng bound =
     (if bound = 0 then (0, rng)
      else case Next rng of (x, rng1) \<Rightarrow>
        (case (if mul_low x bound < bound then bounded_loop rng1 bound x else (x, rng1)) of
           (x', rng') \<Rightarrow> (mul_high x' bound, rng')))"

definition RandomNumber :: "TFastRng \<Rightarrow> u64 \<Rightarrow> u64 \<Rightarrow> u64 \<times> TFastRng" where
  "RandomNumber rng from to =
     (case BoundedRandom rng (to - from + 1) of (r, rng') \<Rightarrow> (from + r, rng'))"

lemma bounded_loop_draws:
  "bounded_loop rng bound x =
     (if accepted bound x then (x, rng) else Next (rng_after (draws bound rng) rng))"
proof (induction rng bound x rule: bounded_loop.induct)
  case (1 rng bound x)
  show ?case
  proof (cases "accepted bound x")
    case True
    then show ?thesis by (simp add: bounded_loop.simps accepted_def)
  next
    case False
    obtain x' rng' where n: "Next rng = (x', rng')" by fastforce
    have rec: "bounded_loop rng bound x = bounded_loop rng' bound x'"
      using False n by (subst bounded_loop.simps) (simp add: accepted_def)
    have IH: "bounded_loop rng' bound x' =
        (if accepted bound x' then (x', rng') else Next (rng_after (draws bound rng') rng'))"
      using 1 [of x' rng'] False n by (simp add: accepted_def)
    show ?thesis
    proof (cases "accepted bound x'")
      case True
      then have "draws bound rng \<le> 0" using n by (intro draws_minimal) simp
      then show ?thesis using True False IH rec n by simp
    next
      case na: False
      then have "draws bound rng = Suc (draws bound rng')" using draws_Suc [of bound rng] n by simp
      then show ?thesis using na False IH rec n by (simp add: rng_after_Suc)
    qed
  qed
qed

lemma BoundedRandom_draws:
  assumes "bound \<noteq> 0"
  shows "BoundedRandom rng bound =
    (mul_high (fst (Next (rng_after (draws bound rng) rng))) bound, rng_after (Suc (draws bound rng)) rng)"
proof -
  obtain x rng1 where n: "Next rng = (x, rng1)" by fastforce
  have snd_after: "snd (Next (rng_after k r)) = rng_after (Suc k) r" for k r
    by (simp add: rng_after_def)
  have acc: "accepted bound x" if "\<not> mul_low x bound < bound"
    using that threshold_less [OF assms] by (auto simp: accepted_def)
  have "(if mul_low x bound < bound then bounded_loop rng1 bound x else (x, rng1))
      = Next (rng_after (draws bound rng) rng)"
  proof (cases "accepted bound x")
    case True
    then have "draws bound rng = 0" using n draws_minimal [of bound 0 rng] by simp
    then show ?thesis using True n by (simp add: bounded_loop_draws)
  next
    case False
    then have "draws bound rng = Suc (draws bound rng1)" using draws_Suc [of bound rng] n by simp
    then show ?thesis using False acc n by (auto simp: bounded_loop_draws rng_after_Suc)
  qed
  then have "BoundedRandom rng bound = (case Next (rng_after (draws bound rng) rng) of
      (x', rng') \<Rightarrow> (mul_high x' bound, rng'))"
    using assms n by (simp add: BoundedRandom_def)
  then show ?thesis by (simp add: case_prod_beta snd_after)
qed

section \<open>Range and distribution of the bounded draw\<close>

lemma unat_mul_high:
  assumes "bound \<noteq> 0"
  shows "unat (mul_high x bound) = (unat x * unat bound) div 2 ^ 64"
    "unat (mul_high x bound) < unat bound"
proof -
  have "unat x * unat bound < unat bound * 2 ^ 64"
    using u64_less [of x] assms by (simp add: unat_gt_0 mult.commute)
  then have less: "(unat x * unat bound) div 2 ^ 64 < unat bound"
    by (rule less_mult_imp_div_less)
  also have "\<dots> < 2 ^ 64" using u64_less [of bound] by simp
  finally show eq: "unat (mul_high x bound) = (unat x * unat bound) div 2 ^ 64"
    by (simp add: mul_high_def unat_of_nat_u64)
  show "unat (mul_high x bound) < unat bound" using less eq by simp
qed

lemma BoundedRandom_less: "bound \<noteq> 0 \<Longrightarrow> fst (BoundedRandom rng bound) < bound"
  using unat_mul_high(2) by (simp add: BoundedRandom_draws word_less_nat_alt)

lemma RandomNumber_bounds:
  assumes "lo \<le> hi"
  shows "lo \<le> fst (RandomNumber rng lo hi)" "fst (RandomNumber rng lo hi) \<le> hi"
proof -
  obtain r rng' where b: "BoundedRandom rng (hi - lo + 1) = (r, rng')" by fastforce
  have "unat r \<le> unat (hi - lo)"
  proof (cases "hi - lo + 1 = 0")
    case True
    then show ?thesis using b by (simp add: BoundedRandom_def)
  next
    case False
    then have "r < hi - lo + 1" using BoundedRandom_less [of "hi - lo + 1" rng] b by simp
    moreover have "unat (hi - lo + 1) = Suc (unat (hi - lo))"
      using False unatSuc [of "hi - lo"] by (simp add: add.commute)
    ultimately show ?thesis by (simp add: word_less_nat_alt)
  qed
  moreover have "unat (hi - lo) = unat hi - unat lo" using assms by (rule unat_sub)
  ultimately have r: "unat lo + unat r \<le> unat hi" using assms by (simp add: word_le_nat_alt)
  then have "unat (lo + r) = unat lo + unat r"
    using u64_less [of hi] by (simp add: unat_plus_if_size word_size)
  then show "lo \<le> fst (RandomNumber rng lo hi)" "fst (RandomNumber rng lo hi) \<le> hi"
    using r b by (simp_all add: RandomNumber_def word_le_nat_alt)
qed

lemma unat_threshold:
  assumes "bound \<noteq> 0" shows "unat (threshold bound) = 2 ^ 64 mod unat bound"
proof -
  have "unat (0 - bound) = 2 ^ 64 - unat bound"
    unfolding unat_sub_if' using assms by (simp add: unat_gt_0)
  then have "unat (threshold bound) = (2 ^ 64 - unat bound) mod unat bound"
    by (simp add: threshold_def unat_mod)
  also have "\<dots> = 2 ^ 64 mod unat bound"
    using u64_less [of bound] by (simp add: mod_if le_mod_geq [symmetric])
  finally show ?thesis .
qed

text \<open>Every interval whose length is \<open>q\<close> times \<open>r\<close> holds exactly \<open>q\<close> multiples of \<open>r\<close>.\<close>

lemma card_multiples:
  fixes a q r :: nat
  assumes "0 < r"
  shows "card {x. a \<le> x * r \<and> x * r < a + q * r} = q"
proof -
  let ?c = "(a + r - 1) div r"
  have ge: "a \<le> x * r \<longleftrightarrow> ?c \<le> x" for x
  proof -
    have "?c \<le> x \<longleftrightarrow> a + r - 1 < Suc x * r"
      using assms by (simp only: less_Suc_eq_le [symmetric] div_less_iff_less_mult)
    then show ?thesis using assms by (simp add: algebra_simps) linarith
  qed
  have lt: "x * r < a + q * r \<longleftrightarrow> x < ?c + q" for x
  proof (cases "q \<le> x")
    case True
    then obtain y where y: "x = q + y" using le_Suc_ex by blast
    have "x * r < a + q * r \<longleftrightarrow> \<not> a \<le> y * r" using y by (auto simp: algebra_simps)
    then show ?thesis using y ge [of y] by auto
  next
    case False
    then have "x * r < q * r" using assms by simp
    with False show ?thesis by linarith
  qed
  have "{x. a \<le> x * r \<and> x * r < a + q * r} = {?c..<?c + q}" using ge lt by auto
  then show ?thesis by simp
qed

lemma div_mod_window:
  fixes p n k t :: nat
  assumes "0 < n"
  shows "t \<le> p mod n \<and> p div n = k \<longleftrightarrow> k * n + t \<le> p \<and> p < k * n + n"
proof (cases "p div n = k")
  case True
  then have "p = k * n + p mod n" by (metis div_mult_mod_eq)
  moreover have "p mod n < n" using assms by simp
  ultimately show ?thesis using True by linarith
next
  case False
  then show ?thesis using div_eq_iff_nat [OF assms, of p k] by linarith
qed

lemma accepted_high_iff:
  assumes "bound \<noteq> 0"
  shows "accepted bound x \<and> mul_high x bound = k \<longleftrightarrow>
    unat k * 2 ^ 64 + 2 ^ 64 mod unat bound \<le> unat x * unat bound \<and>
    unat x * unat bound < unat k * 2 ^ 64 + 2 ^ 64"
proof -
  let ?p = "unat x * unat bound"
  have low: "unat (mul_low x bound) = ?p mod 2 ^ 64"
    by (simp add: mul_low_def unat_mult_lem unat_word_ariths)
  have "accepted bound x \<longleftrightarrow> 2 ^ 64 mod unat bound \<le> ?p mod 2 ^ 64"
    using low assms by (simp add: accepted_def word_less_nat_alt unat_threshold not_less)
  moreover have "mul_high x bound = k \<longleftrightarrow> ?p div 2 ^ 64 = unat k"
    using unat_mul_high(1) [OF assms, of x] by (metis u64_eq_iff)
  ultimately show ?thesis using div_mod_window [of "2 ^ 64" "2 ^ 64 mod unat bound" ?p "unat k"] by simp
qed

lemma card_accepted:
  assumes k: "k < bound"
  shows "card {x. accepted bound x \<and> mul_high x bound = k} = 2 ^ 64 div unat bound"
proof -
  have b: "bound \<noteq> 0" using k by auto
  let ?r = "unat bound" let ?a = "unat k * 2 ^ 64 + 2 ^ 64 mod unat bound"
  let ?S = "{n. ?a \<le> n * ?r \<and> n * ?r < ?a + 2 ^ 64 div ?r * ?r}"
  have sum: "2 ^ 64 mod ?r + 2 ^ 64 div ?r * ?r = 2 ^ 64" by simp
  have less: "n < 2 ^ 64" if "n \<in> ?S" for n
  proof -
    have "n * ?r < (unat k + 1) * 2 ^ 64" using that sum by simp
    also have "\<dots> \<le> ?r * 2 ^ 64" using k by (simp add: word_less_nat_alt)
    finally show ?thesis by (simp add: mult.commute)
  qed
  have "unat ` {x. accepted bound x \<and> mul_high x bound = k} = ?S"
  proof (rule set_eqI, rule iffI)
    fix n assume "n \<in> unat ` {x. accepted bound x \<and> mul_high x bound = k}"
    then show "n \<in> ?S" using accepted_high_iff [OF b] sum by auto
  next
    fix n assume n: "n \<in> ?S"
    have "unat (of_nat n :: u64) = n" using less [OF n] by (simp add: unat_of_nat_u64)
    then show "n \<in> unat ` {x. accepted bound x \<and> mul_high x bound = k}"
      using n accepted_high_iff [OF b, of "of_nat n" k] sum by (intro image_eqI [of _ _ "of_nat n"]) auto
  qed
  moreover have "inj_on unat {x. accepted bound x \<and> mul_high x bound = k}"
    by (simp add: inj_on_def u64_eq_iff)
  ultimately have "card {x. accepted bound x \<and> mul_high x bound = k} = card ?S"
    using card_image [of unat "{x. accepted bound x \<and> mul_high x bound = k}"] by simp
  also have "\<dots> = 2 ^ 64 div ?r" using b by (intro card_multiples) (simp add: unat_gt_0)
  finally show ?thesis .
qed

section \<open>Non-uniform sampling\<close>

text \<open>\<^verbatim>\<open>static_cast<int>\<close> of a \<^verbatim>\<open>size_t\<close>.\<close>

definition to_int32 :: "u64 \<Rightarrow> int" where
  "to_int32 w = signed_take_bit 31 (uint w)"

definition NonUniformRandom :: "TFastRng \<Rightarrow> int \<Rightarrow> int \<Rightarrow> int \<Rightarrow> int \<Rightarrow> int \<times> TFastRng" where
  "NonUniformRandom rng A C mn mx =
     (let (n1, rng1) = RandomNumber rng 0 (of_int A);
          (n2, rng2) = RandomNumber rng1 (of_int mn) (of_int mx)
      in (((to_int32 n1 OR to_int32 n2) + C) mod (mx - mn + 1) + mn, rng2))"

definition GetRandomCustomerID :: "TSeededRng \<Rightarrow> int \<times> TSeededRng" where
  "GetRandomCustomerID rng = NonUniformRandom rng 1023 C_ID_C 1 CUSTOMERS_PER_DISTRICT"

definition GetRandomItemID :: "TSeededRng \<Rightarrow> int \<times> TSeededRng" where
  "GetRandomItemID rng = NonUniformRandom rng 8191 OL_I_ID_C 1 ITEM_COUNT"

definition NameTokens :: "string list" where
  "NameTokens = [''BAR'', ''OUGHT'', ''ABLE'', ''PRI'', ''PRES'', ''ESE'', ''ANTI'', ''CALLY'',
                 ''ATION'', ''EING'']"

text \<open>Reading a token outside the table is undefined behaviour: \<^const>\<open>None\<close>.\<close>

definition name_token :: "int \<Rightarrow> string option" where
  "name_token i = (if 0 \<le> i \<and> i < 10 then Some (NameTokens ! nat i) else None)"

definition GetLastName :: "int \<Rightarrow> string option" where
  "GetLastName num =
     (case (name_token (num div 100), name_token ((num div 10) mod 10), name_token (num mod 10)) of
        (Some a, Some b, Some c) \<Rightarrow> Some (a @ b @ c)
      | _ \<Rightarrow> None)"

definition GetNonUniformRandomLastNameForRun :: "TSeededRng \<Rightarrow> string option \<times> TSeededRng" where
  "GetNonUniformRandomLastNameForRun rng =
     (case NonUniformRandom rng 255 C_LAST_RUN_C 0 999 of (n, rng') \<Rightarrow> (GetLastName n, rng'))"

definition GetNonUniformRandomLastNameForLoad :: "TSeededRng \<Rightarrow> string option \<times> TSeededRng" where
  "GetNonUniformRandomLastNameForLoad rng =
     (case NonUniformRandom rng 255 C_LAST_LOAD_C 0 999 of (n, rng') \<Rightarrow> (GetLastName n, rng'))"

text \<open>A draw between two \<^verbatim>\<open>int\<close> constants, converted back to \<^verbatim>\<open>int\<close>.\<close>

definition RandomInt :: "TFastRng \<Rightarrow> int \<Rightarrow> int \<Rightarrow> int \<times> TFastRng" where
  "RandomInt rng lo hi =
     (case RandomNumber rng (of_int lo) (of_int hi) of (n, rng') \<Rightarrow> (to_int32 n, rng'))"

lemma uint_of_int_u64: "0 \<le> i \<Longrightarrow> i < 2 ^ 64 \<Longrightarrow> uint (of_int i :: u64) = i"
  by (simp add: uint_word_of_int)

lemma to_int32_eq: "uint w < 2 ^ 31 \<Longrightarrow> to_int32 w = uint w"
  unfolding to_int32_def by (rule signed_take_bit_int_eq_self) (use uint_ge_0 [of w] in linarith)+

lemma RandomNumber_int:
  assumes "0 \<le> lo" "lo \<le> hi" "hi < 2 ^ 31" "RandomNumber rng (of_int lo) (of_int hi) = (n, rng')"
  shows "lo \<le> to_int32 n" "to_int32 n \<le> hi"
proof -
  have u: "uint (of_int lo :: u64) = lo" "uint (of_int hi :: u64) = hi"
    using assms by (auto intro: uint_of_int_u64)
  then have "(of_int lo :: u64) \<le> of_int hi" using assms by (simp add: word_le_def)
  from RandomNumber_bounds [OF this, of rng] have "lo \<le> uint n" "uint n \<le> hi"
    using u assms(4) by (simp_all add: word_le_def)
  then show "lo \<le> to_int32 n" "to_int32 n \<le> hi" using assms(3) by (simp_all add: to_int32_eq)
qed

lemma RandomInt_bounds:
  assumes "0 \<le> lo" "lo \<le> hi" "hi < 2 ^ 31"
  shows "lo \<le> fst (RandomInt rng lo hi)" "fst (RandomInt rng lo hi) \<le> hi"
  using RandomNumber_int [OF assms, of rng] by (simp_all add: RandomInt_def split: prod.splits)

lemma or_int_less:
  fixes a b :: int
  assumes "0 \<le> a" "a < 2 ^ n" "0 \<le> b" "b < 2 ^ n" shows "0 \<le> a OR b" "a OR b < 2 ^ n"
  using assms by (simp_all add: OR_upper)

lemma NonUniformRandom_bounds:
  assumes "0 \<le> A" "A < 2 ^ 20" "0 \<le> C" "C < 2 ^ 20" "0 \<le> mn" "mn \<le> mx" "mx < 2 ^ 20"
  shows "mn \<le> fst (NonUniformRandom rng A C mn mx)" "fst (NonUniformRandom rng A C mn mx) \<le> mx"
proof -
  obtain n1 rng1 where r1: "RandomNumber rng 0 (of_int A) = (n1, rng1)" by fastforce
  obtain n2 rng2 where r2: "RandomNumber rng1 (of_int mn) (of_int mx) = (n2, rng2)" by fastforce
  let ?s = "(to_int32 n1 OR to_int32 n2) + C"
  have eq: "fst (NonUniformRandom rng A C mn mx) = ?s mod (mx - mn + 1) + mn"
    using r1 r2 by (simp add: NonUniformRandom_def)
  have "0 \<le> ?s mod (mx - mn + 1)" "?s mod (mx - mn + 1) < mx - mn + 1"
    using assms pos_mod_bound [of "mx - mn + 1" ?s] by simp_all
  then show "mn \<le> fst (NonUniformRandom rng A C mn mx)" "fst (NonUniformRandom rng A C mn mx) \<le> mx"
    using eq by linarith+
qed

text \<open>The sum in \<^const>\<open>NonUniformRandom\<close> stays far from the width of \<^verbatim>\<open>int\<close>.\<close>

lemma NonUniformRandom_no_overflow:
  assumes "0 \<le> A" "A < 2 ^ 20" "0 \<le> C" "C < 2 ^ 20" "0 \<le> mn" "mn \<le> mx" "mx < 2 ^ 20"
    "RandomNumber rng 0 (of_int A) = (n1, rng1)"
    "RandomNumber rng1 (of_int mn) (of_int mx) = (n2, rng2)"
  shows "0 \<le> (to_int32 n1 OR to_int32 n2) + C" "(to_int32 n1 OR to_int32 n2) + C < 2 ^ 21"
proof -
  have n1: "0 \<le> to_int32 n1" "to_int32 n1 \<le> A"
    using RandomNumber_int [of 0 A rng n1 rng1] assms by simp_all
  have n2: "mn \<le> to_int32 n2" "to_int32 n2 \<le> mx"
    using RandomNumber_int [of mn mx rng1 n2 rng2] assms by simp_all
  have "0 \<le> to_int32 n1 OR to_int32 n2" "to_int32 n1 OR to_int32 n2 < 2 ^ 20"
    using or_int_less [of "to_int32 n1" 20 "to_int32 n2"] n1 n2 assms by simp_all
  then show "0 \<le> (to_int32 n1 OR to_int32 n2) + C" "(to_int32 n1 OR to_int32 n2) + C < 2 ^ 21"
    using assms by simp_all
qed

lemma GetRandomCustomerID_bounds:
  "1 \<le> fst (GetRandomCustomerID rng)" "fst (GetRandomCustomerID rng) \<le> CUSTOMERS_PER_DISTRICT"
  using NonUniformRandom_bounds [of 1023 259 1 3000 rng]
  by (simp_all add: GetRandomCustomerID_def domain_constants)

lemma GetRandomItemID_bounds:
  "1 \<le> fst (GetRandomItemID rng)" "fst (GetRandomItemID rng) \<le> ITEM_COUNT"
  using NonUniformRandom_bounds [of 8191 7911 1 100000 rng]
  by (simp_all add: GetRandomItemID_def domain_constants)

section \<open>Last names\<close>

lemma name_token_total: "0 \<le> i \<Longrightarrow> i < 10 \<Longrightarrow> \<exists>s. name_token i = Some s"
  by (simp add: name_token_def)

lemma GetLastName_total:
  assumes "0 \<le> num" "num < 1000" shows "\<exists>s. GetLastName num = Some s"
proof -
  have "0 \<le> num div 100" "num div 100 < 10" using assms by presburger+
  then show ?thesis
    using name_token_total [of "num div 100"] name_token_total [of "num div 10 mod 10"]
      name_token_total [of "num mod 10"]
    by (auto simp: GetLastName_def)
qed

text \<open>No token is a prefix of another one, so a concatenation can be read back.\<close>

lemma tokens_differ:
  "list_all (\<lambda>x. list_all (\<lambda>y. x = y \<or> list_ex (\<lambda>p. fst p \<noteq> snd p) (zip x y)) NameTokens) NameTokens"
  by code_simp

lemma zip_append_eq: "x @ r = y @ s \<Longrightarrow> \<forall>p \<in> set (zip x y). fst p = snd p"
proof (induction x arbitrary: y)
  case (Cons c x)
  then show ?case by (cases y) auto
qed simp

lemma token_append_inj:
  assumes "x \<in> set NameTokens" "y \<in> set NameTokens" "x @ r = y @ s"
  shows "x = y \<and> r = s"
proof -
  have "x = y \<or> (\<exists>p \<in> set (zip x y). fst p \<noteq> snd p)"
    using tokens_differ assms(1,2) unfolding list_all_iff list_ex_iff by blast
  then have "x = y" using zip_append_eq [OF assms(3)] by blast
  with assms(3) show ?thesis by simp
qed

lemma name_token_in: "name_token i = Some s \<Longrightarrow> s \<in> set NameTokens"
  by (auto simp: name_token_def NameTokens_def nth_Cons' split: if_splits)

lemma name_token_inj:
  assumes "name_token i = Some s" "name_token j = Some s" shows "i = j"
proof -
  have "distinct NameTokens" "length NameTokens = 10" by (simp_all add: NameTokens_def)
  then have "nat i = nat j"
    using assms nth_eq_iff_index_eq [of NameTokens "nat i" "nat j"]
    by (auto simp: name_token_def split: if_splits)
  then show ?thesis using assms by (auto simp: name_token_def split: if_splits)
qed

lemma GetLastName_parts:
  assumes "GetLastName num = Some s"
  obtains a b c where "name_token (num div 100) = Some a" "name_token (num div 10 mod 10) = Some b"
    "name_token (num mod 10) = Some c" "s = a @ b @ c"
  using assms by (auto simp: GetLastName_def split: option.splits)

lemma three_digits: "(m :: int) = m div 100 * 100 + m div 10 mod 10 * 10 + m mod 10"
proof -
  have "m div 100 = m div 10 div 10" using zdiv_zmult2_eq [of 10 m 10] by simp
  then show ?thesis
    using div_mult_mod_eq [of "m div 10" 10] div_mult_mod_eq [of m 10] by linarith
qed

lemma GetLastName_inj:
  assumes "GetLastName m = Some s" "GetLastName n = Some s" shows "m = n"
proof -
  obtain a b c where m: "name_token (m div 100) = Some a" "name_token (m div 10 mod 10) = Some b"
    "name_token (m mod 10) = Some c" "s = a @ b @ c"
    using assms(1) by (rule GetLastName_parts)
  obtain a' b' c' where n: "name_token (n div 100) = Some a'" "name_token (n div 10 mod 10) = Some b'"
    "name_token (n mod 10) = Some c'" "s = a' @ b' @ c'"
    using assms(2) by (rule GetLastName_parts)
  have "a = a'" "b @ c = b' @ c'"
    using token_append_inj [of a a' "b @ c" "b' @ c'"] m n name_token_in by auto
  moreover from this have "b = b'" "c = c'"
    using token_append_inj [of b b' c c'] m n name_token_in by auto
  ultimately have "m div 100 = n div 100" "m div 10 mod 10 = n div 10 mod 10" "m mod 10 = n mod 10"
    using m n name_token_inj by auto
  then show ?thesis by (metis three_digits)
qed

section \<open>The supply warehouse of an order line\<close>

text \<open>The \<^verbatim>\<open>do ... while\<close> loop: draw a warehouse until it is not the home warehouse.\<close>

partial_function (option) supply_loop :: "TFastRng \<Rightarrow> int \<Rightarrow> u64 \<Rightarrow> (int \<times> TFastRng) option" where
  "supply_loop rng homeWarehouseId warehouseCount =
     (case RandomNumber rng 1 warehouseCount of (n, rng') \<Rightarrow>
        (if to_int32 n = homeWarehouseId then supply_loop rng' homeWarehouseId warehouseCount
         else Some (to_int32 n, rng')))"

definition ChooseNewOrderSupplyWarehouse ::
  "TFastRng \<Rightarrow> int \<Rightarrow> u64 \<Rightarrow> int \<Rightarrow> int \<Rightarrow> int \<Rightarrow> (int \<times> TFastRng) option" where
  "ChooseNewOrderSupplyWarehouse rng homeWarehouseId warehouseCount remoteWarehousePercent
     maxRemoteWarehouses remoteWarehousesChosen =
     (let capReached = (maxRemoteWarehouses > 0 \<and> remoteWarehousesChosen \<ge> maxRemoteWarehouses) in
      if warehouseCount = 1 \<or> capReached then Some (homeWarehouseId, rng)
      else case RandomInt rng 1 100 of (p, rng') \<Rightarrow>
        if p > remoteWarehousePercent then Some (homeWarehouseId, rng')
        else supply_loop rng' homeWarehouseId warehouseCount)"

lemma RandomNumber_draws:
  assumes "0 < unat wc" "unat wc < 2 ^ 31"
  shows "RandomNumber rng 1 wc =
    (1 + mul_high (fst (Next (rng_after (draws wc rng) rng))) wc, rng_after (Suc (draws wc rng)) rng)"
proof -
  have "wc \<noteq> 0" using assms by auto
  then show ?thesis by (simp add: RandomNumber_def BoundedRandom_draws)
qed

lemma to_int32_Suc_high:
  assumes "0 < unat wc" "unat wc < 2 ^ 31"
  shows "to_int32 (1 + mul_high x wc) = 1 + int (unat (mul_high x wc))"
proof -
  have c: "wc \<noteq> 0" using assms by auto
  have h: "unat (mul_high x wc) < 2 ^ 31" using unat_mul_high(2) [OF c, of x] assms by linarith
  then have "unat (1 + mul_high x wc) = 1 + unat (mul_high x wc)"
    unfolding unat_word_ariths by simp
  then have "uint (1 + mul_high x wc) = 1 + int (unat (mul_high x wc))"
    unfolding uint_nat by linarith
  moreover have "1 + int (unat (mul_high x wc)) < 2147483648"
  proof -
    have "unat wc < 2147483648" using assms(2) by simp
    then show ?thesis using unat_mul_high(2) [OF c, of x] by linarith
  qed
  moreover have "to_int32 w = uint w" if "uint w < 2147483648" for w
    using to_int32_eq [of w] that by simp
  ultimately show ?thesis by metis
qed

text \<open>For two or more warehouses some non-zero draw is accepted and names another warehouse.\<close>

lemma other_warehouse_draw:
  assumes "2 \<le> unat wc" "unat wc < 2 ^ 31"
  shows "\<exists>x. x \<noteq> 0 \<and> accepted wc x \<and> 1 + int (unat (mul_high x wc)) \<noteq> home"
proof -
  define k :: u64 where "k = (if home = 1 then 1 else 0)"
  have k: "k < wc" "1 + int (unat k) \<noteq> home"
    using assms by (auto simp: k_def word_less_nat_alt)
  have "2 ^ 31 * unat wc \<le> 2 ^ 31 * 2 ^ 31" using assms by simp
  then have "2 \<le> 2 ^ 64 div unat wc"
    using assms by (simp add: less_eq_div_iff_mult_less_eq)
  then have "2 \<le> card {x. accepted wc x \<and> mul_high x wc = k}"
    using card_accepted [OF k(1)] by simp
  then have "\<not> {x. accepted wc x \<and> mul_high x wc = k} \<subseteq> {0}"
    using card_mono [of "{0 :: u64}" "{x. accepted wc x \<and> mul_high x wc = k}"] by auto
  then show ?thesis using k(2) by auto
qed


lemma supply_loop_returns:
  assumes wc: "2 \<le> unat wc" "unat wc < 2 ^ 31"
    and target: "accepted wc (fst (Next (rng_after n rng)))"
      "1 + int (unat (mul_high (fst (Next (rng_after n rng))) wc)) \<noteq> home"
  shows "\<exists>w rng'. supply_loop rng home wc = Some (w, rng') \<and> w \<noteq> home \<and> 1 \<le> w \<and> w \<le> int (unat wc)"
  using target
proof (induction n arbitrary: rng rule: less_induct)
  case (less n)
  let ?d = "draws wc rng"
  let ?x = "fst (Next (rng_after ?d rng))"
  have wc': "0 < unat wc" "wc \<noteq> 0" using wc by auto
  have draw: "RandomNumber rng 1 wc = (1 + mul_high ?x wc, rng_after (Suc ?d) rng)"
    by (rule RandomNumber_draws [OF wc'(1) wc(2)])
  have val: "to_int32 (1 + mul_high ?x wc) = 1 + int (unat (mul_high ?x wc))"
    by (rule to_int32_Suc_high [OF wc'(1) wc(2)])
  have le: "?d \<le> n" using less.prems(1) by (rule draws_minimal)
  show ?case
  proof (cases "1 + int (unat (mul_high ?x wc)) = home")
    case False
    have "1 + int (unat (mul_high ?x wc)) \<le> int (unat wc)"
      using unat_mul_high(2) [OF wc'(2), of ?x] by linarith
    with False show ?thesis using draw val by (subst supply_loop.simps) simp
  next
    case True
    with less.prems(2) le have "?d < n" by (cases "?d = n") auto
    then obtain m where m: "n = Suc ?d + m" by (metis less_iff_Suc_add add_Suc)
    have "rng_after m (rng_after (Suc ?d) rng) = rng_after n rng"
      using m by (simp add: rng_after_def funpow_comp add.commute del: funpow.simps)
    then have "\<exists>w rng'. supply_loop (rng_after (Suc ?d) rng) home wc = Some (w, rng')
        \<and> w \<noteq> home \<and> 1 \<le> w \<and> w \<le> int (unat wc)"
      using less.IH [of m "rng_after (Suc ?d) rng"] less.prems m by simp
    then show ?thesis using True draw val by (subst supply_loop.simps) simp
  qed
qed

lemma supply_loop_total:
  assumes "2 \<le> unat wc" "unat wc < 2 ^ 31"
  shows "\<exists>w rng'. supply_loop rng home wc = Some (w, rng') \<and> w \<noteq> home \<and> 1 \<le> w \<and> w \<le> int (unat wc)"
proof -
  obtain x where x: "x \<noteq> 0" "accepted wc x" "1 + int (unat (mul_high x wc)) \<noteq> home"
    using other_warehouse_draw [OF assms] by blast
  obtain n where "fst (Next (rng_after n rng)) = x" using Next_reaches [OF x(1)] by blast
  then show ?thesis using supply_loop_returns [OF assms, of n rng home] x by simp
qed

section \<open>Properties\<close>

text \<open>C13: the xorshift64* generator has the full period its comment claims: from any state, the
  next \<open>2^64 - 1\<close> states are exactly the non-zero 64-bit words, each once, and then the
  generator is back where it started.\<close>

theorem Next_full_period:
  "(\<lambda>n. RngState (rng_after n rng)) ` {..<2 ^ 64 - 1} = UNIV - {0} \<and>
   inj_on (\<lambda>n. RngState (rng_after n rng)) {..<2 ^ 64 - 1} \<and>
   rng_after (2 ^ 64 - 1) rng = rng"
proof -
  have p: "2 ^ 64 - 1 = rng_period" by (simp add: rng_period_def)
  have "RngState (rng_after rng_period rng) = RngState rng"
    unfolding rng_after_state by (rule xorshift_power_period)
  then have "rng_after rng_period rng = rng" by (simp only: RngState_inject)
  then show ?thesis
    unfolding p rng_after_state
    using xorshift_orbit [of "RngState rng"] xorshift_orbit_inj [of "RngState rng"] by simp
qed

text \<open>C11: the bounded draw is unbiased and always returns. \<^verbatim>\<open>BoundedRandom\<close> answers the high word
  of the first accepted draw, whatever the state, and each of the \<open>bound\<close> answers is given by
  the same number of accepted 64-bit draws.\<close>

theorem BoundedRandom_unbiased:
  assumes "bound \<noteq> 0"
  shows "(\<exists>n. accepted bound (fst (Next (rng_after n rng))) \<and>
           (\<forall>m < n. \<not> accepted bound (fst (Next (rng_after m rng)))) \<and>
           BoundedRandom rng bound = (mul_high (fst (Next (rng_after n rng))) bound, rng_after (Suc n) rng)) \<and>
         (\<forall>k < bound. card {x. accepted bound x \<and> mul_high x bound = k} = 2 ^ 64 div unat bound)"
proof (intro conjI exI allI impI)
  show "accepted bound (fst (Next (rng_after (draws bound rng) rng)))" by (rule draws_accepted)
  show "\<not> accepted bound (fst (Next (rng_after m rng)))" if "m < draws bound rng" for m
    using draws_minimal [of bound m rng] that by auto
  show "BoundedRandom rng bound
      = (mul_high (fst (Next (rng_after (draws bound rng) rng))) bound, rng_after (Suc (draws bound rng)) rng)"
    by (rule BoundedRandom_draws [OF assms])
  show "card {x. accepted bound x \<and> mul_high x bound = k} = 2 ^ 64 div unat bound" if "k < bound" for k
    by (rule card_accepted [OF that])
qed

theorem BoundedRandom_unbiased_witness:
  "card {x. accepted 3000 x \<and> mul_high x 3000 = 7} = 2 ^ 64 div 3000"
proof -
  have "(3000 :: u64) \<noteq> 0" by simp
  from BoundedRandom_unbiased [OF this] show ?thesis by simp
qed

text \<open>C23: \<^verbatim>\<open>RandomNumber\<close> stays in its inclusive interval, for every interval of 64-bit words.\<close>

theorem RandomNumber_in_interval:
  assumes "lo \<le> hi"
  shows "lo \<le> fst (RandomNumber rng lo hi) \<and> fst (RandomNumber rng lo hi) \<le> hi"
  using RandomNumber_bounds [OF assms] by simp

theorem RandomNumber_in_interval_witness:
  "5 \<le> fst (RandomNumber (TFastRng_seed 42) 5 15) \<and> fst (RandomNumber (TFastRng_seed 42) 5 15) \<le> 15"
  by (rule RandomNumber_in_interval) simp

text \<open>C24: the TPC-C samplers produce identifiers that exist: customers in \<open>1..3000\<close>, items in
  \<open>1..100000\<close>, and a last name for every draw of the run-time name generator, never a read
  past the token table.\<close>

theorem samplers_in_domain:
  "1 \<le> fst (GetRandomCustomerID rng) \<and> fst (GetRandomCustomerID rng) \<le> 3000 \<and>
   1 \<le> fst (GetRandomItemID rng) \<and> fst (GetRandomItemID rng) \<le> 100000 \<and>
   fst (GetNonUniformRandomLastNameForRun rng) \<noteq> None \<and>
   fst (GetNonUniformRandomLastNameForLoad rng) \<noteq> None"
proof -
  have "0 \<le> fst (NonUniformRandom rng 255 c 0 999) \<and> fst (NonUniformRandom rng 255 c 0 999) < 1000"
    if "0 \<le> c" "c < 256" for c
    using NonUniformRandom_bounds [of 255 c 0 999 rng] that by force
  then have "\<exists>s. GetLastName (fst (NonUniformRandom rng 255 c 0 999)) = Some s"
    if "0 \<le> c" "c < 256" for c
    using that by (intro GetLastName_total) blast+
  from this [of C_LAST_RUN_C] this [of C_LAST_LOAD_C]
  have "fst (GetNonUniformRandomLastNameForRun rng) \<noteq> None"
    "fst (GetNonUniformRandomLastNameForLoad rng) \<noteq> None"
    unfolding GetNonUniformRandomLastNameForRun_def GetNonUniformRandomLastNameForLoad_def case_prod_beta
    by (auto simp: domain_constants)
  then show ?thesis
    using GetRandomCustomerID_bounds [of rng] GetRandomItemID_bounds [of rng]
    by (simp add: domain_constants)
qed

text \<open>C25: two different numbers never give the same last name, so the thousand names of the load
  and the names drawn at run time agree on which customers they mean.\<close>

theorem GetLastName_injective:
  assumes "GetLastName m = Some s" "GetLastName n = Some s"
  shows "m = n"
  using GetLastName_inj [OF assms] .

theorem GetLastName_injective_witness:
  "GetLastName 371 = Some ''PRICALLYOUGHT'' \<and> 300 + 71 = (371 :: int)"
proof -
  have name: "GetLastName 371 = Some ''PRICALLYOUGHT''" "GetLastName (300 + 71) = Some ''PRICALLYOUGHT''"
    by (simp_all add: GetLastName_def name_token_def NameTokens_def)
  from name(1) GetLastName_injective [OF name(2) name(1)] show ?thesis by blast
qed

text \<open>C18: the choice of a supply warehouse always returns for two or more warehouses, in spite
  of its retry loop: the answer is an existing warehouse, and it is the home warehouse only
  when no remote warehouse was to be chosen (cap reached, or the percentage draw said home).\<close>

theorem ChooseNewOrderSupplyWarehouse_returns:
  assumes "2 \<le> unat warehouseCount" "unat warehouseCount < 2 ^ 31"
    "1 \<le> home" "home \<le> int (unat warehouseCount)"
  shows "\<exists>w rng'. ChooseNewOrderSupplyWarehouse rng home warehouseCount pct cap chosen = Some (w, rng') \<and>
    1 \<le> w \<and> w \<le> int (unat warehouseCount) \<and>
    (w = home \<longleftrightarrow> (cap > 0 \<and> chosen \<ge> cap) \<or> fst (RandomInt rng 1 100) > pct)"
proof -
  obtain p rng1 where p: "RandomInt rng 1 100 = (p, rng1)" by fastforce
  have one: "warehouseCount \<noteq> 1" using assms(1) by auto
  show ?thesis
    using supply_loop_total [OF assms(1,2), of rng1 home] assms(3,4) p one
    by (auto simp: ChooseNewOrderSupplyWarehouse_def)
qed

theorem ChooseNewOrderSupplyWarehouse_returns_witness:
  "\<exists>w rng'. ChooseNewOrderSupplyWarehouse (TFastRng_seed 7) 1 2 100 0 0 = Some (w, rng') \<and>
    1 \<le> w \<and> w \<le> 2 \<and> (w = 1 \<longleftrightarrow> fst (RandomInt (TFastRng_seed 7) 1 100) > 100)"
  using ChooseNewOrderSupplyWarehouse_returns [of 2 1 "TFastRng_seed 7" 100 0 0] by simp

end
