(* ===== verification/Transaction_Api.thy ===== *)
theory Transaction_Api
  imports Rng
begin

text \<open>
  \<^verbatim>\<open>tpcc/transactions/ops.h\<close>, \<^verbatim>\<open>session.h\<close>, \<^verbatim>\<open>error_classifier.cpp\<close>, \<^verbatim>\<open>context.h\<close> and
  \<^verbatim>\<open>workflow_util.h\<close>: the semantic operations the workflows send to a database adapter, the rows
  and results that come back, the error classes and the helpers that turn a result into an
  exception or a failed transaction.

  A workflow of the source is a coroutine that awaits the adapter. It is modelled as a tree
  (\<open>wf\<close>): each \<^verbatim>\<open>co_await\<close> is a node that carries the request and branches over the answer,
  each \<^verbatim>\<open>co_return\<close> or \<^verbatim>\<open>throw\<close> is a leaf. \<open>run\<close> executes a tree against the six operations of an
  adapter and records the exchange.
\<close>

section \<open>Rows\<close>

record TCustomerRow =
  cr_CustomerID :: int
  cr_First :: string
  cr_Middle :: string
  cr_Last :: string
  cr_Street1 :: string
  cr_Street2 :: string
  cr_City :: string
  cr_State :: string
  cr_Zip :: string
  cr_Phone :: string
  cr_Since :: string
  cr_Credit :: string
  cr_CreditLimit :: TMoney
  cr_Discount :: TRate
  cr_Balance :: TMoney
  cr_YtdPayment :: TMoney
  cr_PaymentCount :: int
  cr_DeliveryCount :: int
  cr_Data :: string

record TItemRow =
  ir_ItemID :: int
  ir_Price :: TMoney
  ir_Name :: string
  ir_Data :: string

record TStockKey =
  sk_WarehouseID :: int
  sk_ItemID :: int

record TStockRow =
  sr_WarehouseID :: int
  sr_ItemID :: int
  sr_Quantity :: int
  sr_Ytd :: TMoney
  sr_OrderCount :: int
  sr_RemoteCount :: int
  sr_Data :: string
  sr_DistInfo :: string

record TOrderHeader =
  oh_OrderID :: int
  oh_CustomerID :: int
  oh_CarrierID :: "int option"
  oh_EntryDate :: string

record TOrderStatusLine =
  sl_ItemID :: int
  sl_SupplyWarehouseID :: int
  sl_Quantity :: int
  sl_Amount :: TMoney
  sl_DeliveryDate :: string

record TWarehouseDistrictInfo =
  wd_WarehouseName :: string
  wd_WarehouseStreet1 :: string
  wd_WarehouseStreet2 :: string
  wd_WarehouseCity :: string
  wd_WarehouseState :: string
  wd_WarehouseZip :: string
  wd_DistrictName :: string
  wd_DistrictStreet1 :: string
  wd_DistrictStreet2 :: string
  wd_DistrictCity :: string
  wd_DistrictState :: string
  wd_DistrictZip :: string

record TDeliveryOrderInfo =
  di_CustomerID :: int
  di_TotalAmount :: TMoney
  di_LineCount :: int

record TDistrictOrderReservation =
  dr_NextOrderID :: int
  dr_DistrictTax :: TRate

section \<open>Semantic operations\<close>

text \<open>One constructor per structure of the source; the arguments are its members in order.\<close>

datatype TSemanticOp =
    TGetCustomerById int int int
  | TGetCustomersByLastName int int string
  | TGetWarehouseTax int
  | TReserveDistrictOrderId int int
  | TCreateOrder int int int int int int
  | TGetItems "int list"
  | TGetStocksForUpdate int "TStockKey list"
  | TUpdateStock int int int int int TMoney int int
  | TInsertOrderLine int int int int int int int TMoney string
  | TApplyPaymentToLocation int int TMoney
  | TGetCustomerData int int int
  | TUpdateCustomerPayment int int int TMoney TMoney int bool string
  | TInsertPaymentHistory int int int int int TMoney string
  | TGetLatestCustomerOrder int int int
  | TGetOrderStatusLines int int int
  | TGetOldestNewOrder int int
  | TGetDeliveryOrderInfo int int int
  | TCompleteOrderDelivery int int int int int
  | TApplyDeliveryToCustomer int int int TMoney
  | TCountRecentLowStock int int int int

datatype TOperationPayload =
    PNone
  | PCustomer TCustomerRow
  | PCustomers "TCustomerRow list"
  | PMoney TMoney
  | PRate TRate
  | PReservation TDistrictOrderReservation
  | PItems "TItemRow list"
  | PStocks "TStockRow list"
  | PLocation TWarehouseDistrictInfo
  | PString string
  | POrderHeader TOrderHeader
  | PLines "TOrderStatusLine list"
  | PInt int
  | PDeliveryInfo TDeliveryOrderInfo

section \<open>Results and error classes\<close>

datatype EIsolationLevel = ReadCommitted | RepeatableRead | Serializable

datatype ECommitOutcome = Committed | RolledBack | OutcomeUnknown

datatype EErrorClass = RetryableAbort | NotCommitted | AmbiguousCommit | Permanent | Integrity | Cancelled

record TCommitResult =
  cm_Outcome :: ECommitOutcome
  cm_ErrorClass :: EErrorClass
  cm_NativeCode :: string
  cm_Message :: string

record TOperationResult =
  or_Ok :: bool
  or_ExpectedRows :: nat
  or_ActualRows :: nat
  or_ErrorClass :: EErrorClass
  or_NativeCode :: string
  or_Message :: string
  or_Payload :: TOperationPayload

record TBatchResult =
  br_Ok :: bool
  br_ErrorClass :: EErrorClass
  br_NativeCode :: string
  br_Message :: string
  br_Results :: "TOperationResult list"

record TFinalCommitResult =
  fc_Operation :: TOperationResult
  fc_Commit :: TCommitResult

definition ClassifySqlState :: "string \<Rightarrow> EErrorClass" where
  "ClassifySqlState sqlState =
     (if length sqlState < 2 then Permanent
      else if sqlState = ''40001'' \<or> sqlState = ''40P01'' then RetryableAbort
      else if take 2 sqlState = ''40'' then RetryableAbort
      else if take 2 sqlState = ''08'' then NotCommitted
      else if take 2 sqlState = ''23'' then Integrity
      else if sqlState = ''57014'' then Cancelled
      else if take 2 sqlState = ''53'' \<or> take 2 sqlState = ''57'' then Permanent
      else Permanent)"

definition IsRetryable :: "EErrorClass \<Rightarrow> bool" where
  "IsRetryable c \<longleftrightarrow> c = RetryableAbort \<or> c = NotCommitted"

definition MayBlindRetry :: "EErrorClass \<Rightarrow> bool" where
  "MayBlindRetry c \<longleftrightarrow> IsRetryable c"

definition AbortsRun :: "EErrorClass \<Rightarrow> bool" where
  "AbortsRun c \<longleftrightarrow> c = Integrity"

section \<open>Workflow trees\<close>

text \<open>The exceptions a workflow may end with: \<^verbatim>\<open>TClassifiedError\<close>, \<^verbatim>\<open>TUserAbortedException\<close>,
  \<^verbatim>\<open>std::bad_variant_access\<close> from \<^verbatim>\<open>std::get\<close> on another alternative, and undefined behaviour of
  signed arithmetic.\<close>

datatype wexc =
    TClassifiedError EErrorClass string string
  | TUserAbortedException
  | BadVariantAccess
  | Undefined

text \<open>\<open>Failed stop\<close> is \<^verbatim>\<open>co_return false\<close>; \<open>stop\<close> tells whether the run was asked to stop.\<close>

datatype wleaf = Success | Failed bool | Thrown wexc

datatype wf =
    Leaf wleaf
  | AwaitExecute TSemanticOp "TOperationResult \<Rightarrow> wf"
  | AwaitBatch "TSemanticOp list" "TBatchResult \<Rightarrow> wf"
  | AwaitFinal TSemanticOp "TFinalCommitResult \<Rightarrow> wf"
  | AwaitCommit "TCommitResult \<Rightarrow> wf"
  | AwaitRollback "TCommitResult \<Rightarrow> wf"

text \<open>The exchange with the adapter.\<close>

datatype exchange =
    ExExecute TSemanticOp TOperationResult
  | ExBatch "TSemanticOp list" TBatchResult
  | ExFinal TSemanticOp TFinalCommitResult
  | ExCommit TCommitResult
  | ExRollback TCommitResult

text \<open>\<^verbatim>\<open>ITpccTransaction\<close>: the operations of an adapter over its state.\<close>

record 't adapter =
  ad_Execute :: "TSemanticOp \<Rightarrow> 't \<Rightarrow> TOperationResult \<times> 't"
  ad_ExecuteBatch :: "TSemanticOp list \<Rightarrow> 't \<Rightarrow> TBatchResult \<times> 't"
  ad_ExecuteFinalAndCommit :: "TSemanticOp \<Rightarrow> 't \<Rightarrow> TFinalCommitResult \<times> 't"
  ad_Commit :: "'t \<Rightarrow> TCommitResult \<times> 't"
  ad_Rollback :: "'t \<Rightarrow> TCommitResult \<times> 't"

primrec run :: "'t adapter \<Rightarrow> wf \<Rightarrow> 't \<Rightarrow> wleaf \<times> exchange list \<times> 't" where
  "run ad (Leaf l) t = (l, [], t)"
| "run ad (AwaitExecute op k) t =
     (let (r, t1) = ad_Execute ad op t; (l, tr, t2) = run ad (k r) t1 in (l, ExExecute op r # tr, t2))"
| "run ad (AwaitBatch ops k) t =
     (let (r, t1) = ad_ExecuteBatch ad ops t; (l, tr, t2) = run ad (k r) t1 in (l, ExBatch ops r # tr, t2))"
| "run ad (AwaitFinal op k) t =
     (let (r, t1) = ad_ExecuteFinalAndCommit ad op t; (l, tr, t2) = run ad (k r) t1
      in (l, ExFinal op r # tr, t2))"
| "run ad (AwaitCommit k) t =
     (let (r, t1) = ad_Commit ad t; (l, tr, t2) = run ad (k r) t1 in (l, ExCommit r # tr, t2))"
| "run ad (AwaitRollback k) t =
     (let (r, t1) = ad_Rollback ad t; (l, tr, t2) = run ad (k r) t1 in (l, ExRollback r # tr, t2))"

section \<open>Workflow helpers\<close>

definition ThrowIfRetryable :: "TOperationResult \<Rightarrow> wexc option" where
  "ThrowIfRetryable r =
     (if or_Ok r then None
      else if MayBlindRetry (or_ErrorClass r) \<or> or_ErrorClass r = AmbiguousCommit
      then Some (TClassifiedError (or_ErrorClass r) (or_NativeCode r) (or_Message r))
      else None)"

definition ThrowIfCommitFailed :: "TCommitResult \<Rightarrow> wexc option" where
  "ThrowIfCommitFailed r =
     (if cm_Outcome r = Committed then None
      else Some (TClassifiedError (cm_ErrorClass r) (cm_NativeCode r)
             (if cm_Message r = [] then ''commit failed'' else cm_Message r)))"

definition ThrowIfRollbackFailed :: "TCommitResult \<Rightarrow> wexc option" where
  "ThrowIfRollbackFailed r =
     (if cm_Outcome r = RolledBack then None
      else Some (TClassifiedError (cm_ErrorClass r) (cm_NativeCode r)
             (if cm_Message r = [] then ''rollback failed'' else cm_Message r)))"

definition IsExpectedItemNotFound :: "TOperationResult \<Rightarrow> bool" where
  "IsExpectedItemNotFound r \<longleftrightarrow> \<not> or_Ok r \<and> or_ErrorClass r = Integrity"

definition ThrowIfBatchRetryable :: "TBatchResult \<Rightarrow> wexc option" where
  "ThrowIfBatchRetryable batch =
     (if br_Ok batch then None
      else ThrowIfRetryable
        \<lparr> or_Ok = False, or_ExpectedRows = 0, or_ActualRows = 0, or_ErrorClass = br_ErrorClass batch,
          or_NativeCode = br_NativeCode batch, or_Message = br_Message batch, or_Payload = PNone \<rparr>)"

definition ThrowIfFinalCommitFailed :: "TFinalCommitResult \<Rightarrow> wexc option" where
  "ThrowIfFinalCommitFailed r =
     (case ThrowIfRetryable (fc_Operation r) of
        Some e \<Rightarrow> Some e
      | None \<Rightarrow>
          if \<not> or_Ok (fc_Operation r)
          then Some (TClassifiedError (or_ErrorClass (fc_Operation r)) (or_NativeCode (fc_Operation r))
                 (if or_Message (fc_Operation r) = [] then ''final operation failed''
                  else or_Message (fc_Operation r)))
          else ThrowIfCommitFailed (fc_Commit r))"

text \<open>Logging apart, \<^verbatim>\<open>FailPermanent\<close> asks the run to stop on an integrity error and returns false.\<close>

definition FailPermanent :: "EErrorClass \<Rightarrow> wf" where
  "FailPermanent errorClass = Leaf (Failed (AbortsRun errorClass))"

text \<open>The overload without a result reports an integrity error.\<close>

definition FailPermanentMsg :: wf where
  "FailPermanentMsg = FailPermanent Integrity"

text \<open>The pattern \<^verbatim>\<open>ThrowIfRetryable(r); if (!r.Ok) co_return FailPermanent(...)\<close> that follows
  every awaited operation, and its batch and commit forms.\<close>

definition guard_op :: "TOperationResult \<Rightarrow> wf \<Rightarrow> wf" where
  "guard_op r k =
     (case ThrowIfRetryable r of
        Some e \<Rightarrow> Leaf (Thrown e)
      | None \<Rightarrow> if \<not> or_Ok r then FailPermanent (or_ErrorClass r) else k)"

definition guard_batch :: "TBatchResult \<Rightarrow> wf \<Rightarrow> wf" where
  "guard_batch b k =
     (case ThrowIfBatchRetryable b of
        Some e \<Rightarrow> Leaf (Thrown e)
      | None \<Rightarrow> if \<not> br_Ok b then FailPermanent (br_ErrorClass b) else k)"

definition guard_commit :: "TCommitResult \<Rightarrow> wf \<Rightarrow> wf" where
  "guard_commit c k = (case ThrowIfCommitFailed c of Some e \<Rightarrow> Leaf (Thrown e) | None \<Rightarrow> k)"

definition guard_final :: "TFinalCommitResult \<Rightarrow> wf \<Rightarrow> wf" where
  "guard_final f k = guard_op (fc_Operation f) (guard_commit (fc_Commit f) k)"

text \<open>Undefined signed arithmetic ends the workflow.\<close>

definition check_int :: "'a result \<Rightarrow> ('a \<Rightarrow> wf) \<Rightarrow> wf" where
  "check_int m k = (case m of Inl e \<Rightarrow> Leaf (Thrown Undefined) | Inr x \<Rightarrow> k x)"

text \<open>\<^verbatim>\<open>std::get\<close> of the payload.\<close>

definition get_customer :: "TOperationPayload \<Rightarrow> (TCustomerRow \<Rightarrow> wf) \<Rightarrow> wf" where
  "get_customer p k = (case p of PCustomer c \<Rightarrow> k c | _ \<Rightarrow> Leaf (Thrown BadVariantAccess))"

definition get_customers :: "TOperationPayload \<Rightarrow> (TCustomerRow list \<Rightarrow> wf) \<Rightarrow> wf" where
  "get_customers p k = (case p of PCustomers cs \<Rightarrow> k cs | _ \<Rightarrow> Leaf (Thrown BadVariantAccess))"

definition get_reservation :: "TOperationPayload \<Rightarrow> (TDistrictOrderReservation \<Rightarrow> wf) \<Rightarrow> wf" where
  "get_reservation p k = (case p of PReservation d \<Rightarrow> k d | _ \<Rightarrow> Leaf (Thrown BadVariantAccess))"

definition get_items :: "TOperationPayload \<Rightarrow> (TItemRow list \<Rightarrow> wf) \<Rightarrow> wf" where
  "get_items p k = (case p of PItems is \<Rightarrow> k is | _ \<Rightarrow> Leaf (Thrown BadVariantAccess))"

definition get_stocks :: "TOperationPayload \<Rightarrow> (TStockRow list \<Rightarrow> wf) \<Rightarrow> wf" where
  "get_stocks p k = (case p of PStocks ss \<Rightarrow> k ss | _ \<Rightarrow> Leaf (Thrown BadVariantAccess))"

definition get_location :: "TOperationPayload \<Rightarrow> (TWarehouseDistrictInfo \<Rightarrow> wf) \<Rightarrow> wf" where
  "get_location p k = (case p of PLocation l \<Rightarrow> k l | _ \<Rightarrow> Leaf (Thrown BadVariantAccess))"

definition get_string :: "TOperationPayload \<Rightarrow> (string \<Rightarrow> wf) \<Rightarrow> wf" where
  "get_string p k = (case p of PString s \<Rightarrow> k s | _ \<Rightarrow> Leaf (Thrown BadVariantAccess))"

definition get_order_header :: "TOperationPayload \<Rightarrow> (TOrderHeader \<Rightarrow> wf) \<Rightarrow> wf" where
  "get_order_header p k = (case p of POrderHeader h \<Rightarrow> k h | _ \<Rightarrow> Leaf (Thrown BadVariantAccess))"

definition get_int :: "TOperationPayload \<Rightarrow> (int \<Rightarrow> wf) \<Rightarrow> wf" where
  "get_int p k = (case p of PInt i \<Rightarrow> k i | _ \<Rightarrow> Leaf (Thrown BadVariantAccess))"

definition get_delivery_info :: "TOperationPayload \<Rightarrow> (TDeliveryOrderInfo \<Rightarrow> wf) \<Rightarrow> wf" where
  "get_delivery_info p k = (case p of PDeliveryInfo d \<Rightarrow> k d | _ \<Rightarrow> Leaf (Thrown BadVariantAccess))"

section \<open>Context\<close>

text \<open>Inputs are generated once per business transaction and reused by every retry.\<close>

definition FixedTransactionInputs :: "'i option \<Rightarrow> ('r \<Rightarrow> ('i \<times> 'r) option) \<Rightarrow> 'r \<Rightarrow> ('i \<times> 'i option \<times> 'r) option" where
  "FixedTransactionInputs fixed gen rng =
     (case fixed of
        Some i \<Rightarrow> Some (i, fixed, rng)
      | None \<Rightarrow> (case gen rng of None \<Rightarrow> None | Some (i, rng') \<Rightarrow> Some (i, Some i, rng')))"

definition SelectCustomerByLastNameMedian :: "TCustomerRow list \<Rightarrow> TCustomerRow option" where
  "SelectCustomerByLastNameMedian customers =
     (if customers = [] then None
      else let index = length customers div 2;
               index' = (if length customers mod 2 = 0 \<and> index > 0 then index - 1 else index)
           in Some (customers ! index'))"

end
