(* ===== verification/New_Order_Tx.thy ===== *)
theory New_Order_Tx
  imports Transaction_Api
begin

text \<open>
  \<^verbatim>\<open>tpcc/transactions/new_order.cpp\<close>: the inputs of a New-Order transaction, drawn once per
  business transaction, and the workflow \<^verbatim>\<open>GetNewOrderTask\<close> over them. The three input vectors
  have \<^verbatim>\<open>NumItems\<close> elements each (\<open>new_order_inputs_ok\<close>); the loops over them are recursions over
  the list of their lines. The latency that the coroutine reports is not modelled.
\<close>

section \<open>Inputs\<close>

record TTransactionContext =
  cx_TerminalID :: u64
  cx_WarehouseID :: u64
  cx_DistrictID :: u64
  cx_WarehouseCount :: u64
  cx_NewOrderRemoteWarehousePercent :: int
  cx_PaymentRemoteWarehousePercent :: int
  cx_NewOrderMaxRemoteWarehouses :: int

record TNewOrderInputs =
  no_WarehouseID :: int
  no_DistrictID :: int
  no_CustomerID :: int
  no_NumItems :: int
  no_ItemIDs :: "int list"
  no_SupplierWarehouseIDs :: "int list"
  no_OrderQuantities :: "int list"
  no_AllLocal :: int

text \<open>The loop over the lines: \<open>n\<close> lines to go.\<close>

fun new_order_line_inputs ::
  "TTransactionContext \<Rightarrow> nat \<Rightarrow> int \<Rightarrow> TNewOrderInputs \<Rightarrow> TFastRng \<Rightarrow> (TNewOrderInputs \<times> TFastRng) option"
where
  "new_order_line_inputs cx 0 remoteWarehousesChosen generated rng = Some (generated, rng)"
| "new_order_line_inputs cx (Suc n) remoteWarehousesChosen generated rng =
     (let (item, rng1) = GetRandomItemID rng in
      case ChooseNewOrderSupplyWarehouse rng1 (no_WarehouseID generated) (cx_WarehouseCount cx)
             (cx_NewOrderRemoteWarehousePercent cx) (cx_NewOrderMaxRemoteWarehouses cx)
             remoteWarehousesChosen of
        None \<Rightarrow> None
      | Some (supplierID, rng2) \<Rightarrow>
          let remote = (supplierID \<noteq> no_WarehouseID generated);
              (qty, rng3) = RandomInt rng2 1 10;
              generated' = generated
                \<lparr> no_ItemIDs := no_ItemIDs generated @ [item],
                  no_SupplierWarehouseIDs := no_SupplierWarehouseIDs generated @ [supplierID],
                  no_OrderQuantities := no_OrderQuantities generated @ [qty],
                  no_AllLocal := (if remote then 0 else no_AllLocal generated) \<rparr>
          in new_order_line_inputs cx n
               (if remote then remoteWarehousesChosen + 1 else remoteWarehousesChosen) generated' rng3)"

definition new_order_inputs :: "TTransactionContext \<Rightarrow> TFastRng \<Rightarrow> (TNewOrderInputs \<times> TFastRng) option" where
  "new_order_inputs cx rng =
     (let (district, rng1) = RandomInt rng DISTRICT_LOW_ID DISTRICT_HIGH_ID;
          (customer, rng2) = GetRandomCustomerID rng1;
          (numItems, rng3) = RandomInt rng2 MIN_ITEMS MAX_ITEMS;
          generated = \<lparr> no_WarehouseID = to_int32 (cx_WarehouseID cx), no_DistrictID = district,
            no_CustomerID = customer, no_NumItems = numItems, no_ItemIDs = [],
            no_SupplierWarehouseIDs = [], no_OrderQuantities = [], no_AllLocal = 1 \<rparr>
      in case new_order_line_inputs cx (nat numItems) 0 generated rng3 of
           None \<Rightarrow> None
         | Some (g, rng4) \<Rightarrow>
             (case RandomInt rng4 1 100 of (p, rng5) \<Rightarrow>
                Some (if p = 1 then g \<lparr> no_ItemIDs := (no_ItemIDs g)[nat (numItems - 1) := INVALID_ITEM_ID] \<rparr>
                      else g, rng5)))"

section \<open>The workflow\<close>

text \<open>The lines as (supply warehouse, item, quantity).\<close>

definition new_order_lines :: "TNewOrderInputs \<Rightarrow> (int \<times> int \<times> int) list" where
  "new_order_lines i = zip (no_SupplierWarehouseIDs i) (zip (no_ItemIDs i) (no_OrderQuantities i))"

definition valid_item_ids :: "TNewOrderInputs \<Rightarrow> int list" where
  "valid_item_ids i = filter (\<lambda>id. id \<noteq> INVALID_ITEM_ID) (no_ItemIDs i)"

definition item_prices :: "TItemRow list \<Rightarrow> (int \<rightharpoonup> TMoney)" where
  "item_prices items = foldl (\<lambda>m item. m(ir_ItemID item \<mapsto> ir_Price item)) Map.empty items"

fun stock_keys :: "(int \<times> int) list \<Rightarrow> (int \<times> int \<times> int) list \<Rightarrow> TStockKey list" where
  "stock_keys seen [] = []"
| "stock_keys seen ((supWh, iid, qty) # ls) =
     (if iid = INVALID_ITEM_ID then stock_keys seen ls
      else if (supWh, iid) \<in> set seen then stock_keys seen ls
      else \<lparr> sk_WarehouseID = supWh, sk_ItemID = iid \<rparr> # stock_keys ((supWh, iid) # seen) ls)"

definition stock_map :: "TStockRow list \<Rightarrow> (int \<times> int \<rightharpoonup> TStockRow)" where
  "stock_map rows = foldl (\<lambda>m row. m((sr_WarehouseID row, sr_ItemID row) \<mapsto> row)) Map.empty rows"

text \<open>The stock row after one order line.\<close>

definition order_stock :: "int \<Rightarrow> int \<Rightarrow> int \<Rightarrow> TStockRow \<Rightarrow> TStockRow result" where
  "order_stock homeWh supWh qty stock =
     bind_r (i32 (sr_Quantity stock - qty)) (\<lambda>rest.
     bind_r (if rest \<ge> 10 then Inr rest else i32 (sr_Quantity stock + (- qty + 91))) (\<lambda>quantity.
     bind_r (i64 (qty * Money_Scale)) (\<lambda>ordered.
     bind_r (money_add (sr_Ytd stock) (FromCents ordered)) (\<lambda>ytd.
     bind_r (i32 (sr_OrderCount stock + 1)) (\<lambda>oc.
     bind_r (i32 (sr_RemoteCount stock + (if supWh = homeWh then 0 else 1))) (\<lambda>rc.
       Inr (stock \<lparr> sr_Quantity := quantity, sr_Ytd := ytd, sr_OrderCount := oc, sr_RemoteCount := rc \<rparr>)))))))"

text \<open>The loop that builds the stock updates and the order lines; \<open>Inl\<close> is an early return.\<close>

fun new_order_ops ::
  "TNewOrderInputs \<Rightarrow> int \<Rightarrow> (int \<rightharpoonup> TMoney) \<Rightarrow> (int \<times> int \<rightharpoonup> TStockRow) \<Rightarrow> int \<Rightarrow> (int \<times> int \<times> int) list
    \<Rightarrow> wf + (TSemanticOp list \<times> TSemanticOp list \<times> bool)"
where
  "new_order_ops i nextOrderID prices stocks olNum [] = Inr ([], [], False)"
| "new_order_ops i nextOrderID prices stocks olNum ((supWh, iid, qty) # ls) =
     (if iid = INVALID_ITEM_ID
      then map_r (\<lambda>(ss, os, u). (ss, os, True)) (new_order_ops i nextOrderID prices stocks (olNum + 1) ls)
      else case prices iid of
        None \<Rightarrow> Inl FailPermanentMsg
      | Some price \<Rightarrow>
          (case i64 (qty * Cents price) of
             Inl e \<Rightarrow> Inl (Leaf (Thrown Undefined))
           | Inr cents \<Rightarrow>
               (case stocks (supWh, iid) of
                  None \<Rightarrow> Inl FailPermanentMsg
                | Some stock \<Rightarrow>
                    (case order_stock (no_WarehouseID i) supWh qty stock of
                       Inl e \<Rightarrow> Inl (Leaf (Thrown Undefined))
                     | Inr stock' \<Rightarrow>
                         map_r (\<lambda>(ss, os, u).
                           (TUpdateStock supWh iid (sr_Quantity stock') qty
                              (if supWh = no_WarehouseID i then 0 else 1)
                              (sr_Ytd stock') (sr_OrderCount stock') (sr_RemoteCount stock') # ss,
                            TInsertOrderLine (no_WarehouseID i) (no_DistrictID i) nextOrderID olNum iid
                              supWh qty (FromCents cents) (sr_DistInfo stock') # os, u))
                           (new_order_ops i nextOrderID prices (stocks((supWh, iid) \<mapsto> stock')) (olNum + 1) ls)))))"

text \<open>Lines 248 to 274: the rollback profile or the commit.\<close>

definition new_order_finish :: "bool \<Rightarrow> wf" where
  "new_order_finish hasUnusedItem =
     (if hasUnusedItem then
        AwaitExecute (TGetItems [INVALID_ITEM_ID]) (\<lambda>r.
          case ThrowIfRetryable r of
            Some e \<Rightarrow> Leaf (Thrown e)
          | None \<Rightarrow>
              if or_Ok r then FailPermanentMsg
              else if \<not> IsExpectedItemNotFound r
              then Leaf (Thrown (TClassifiedError (or_ErrorClass r) (or_NativeCode r)
                     (if or_Message r = [] then ''NewOrder unused item lookup failed'' else or_Message r)))
              else AwaitRollback (\<lambda>rollback.
                     case ThrowIfRollbackFailed rollback of
                       Some e \<Rightarrow> Leaf (Thrown e)
                     | None \<Rightarrow> Leaf (Thrown TUserAbortedException)))
      else AwaitCommit (\<lambda>commit. guard_commit commit (Leaf Success)))"

definition new_order_apply :: "TSemanticOp list \<Rightarrow> TSemanticOp list \<Rightarrow> bool \<Rightarrow> wf" where
  "new_order_apply stockOps lineOps hasUnusedItem =
     (let finish = new_order_finish hasUnusedItem;
          lines = (if lineOps \<noteq> [] then AwaitBatch lineOps (\<lambda>b. guard_batch b finish) else finish)
      in if stockOps \<noteq> [] then AwaitBatch stockOps (\<lambda>b. guard_batch b lines) else lines)"

definition new_order_post :: "TNewOrderInputs \<Rightarrow> int \<Rightarrow> (int \<rightharpoonup> TMoney) \<Rightarrow> (int \<times> int \<rightharpoonup> TStockRow) \<Rightarrow> wf" where
  "new_order_post i nextOrderID prices stocks =
     (case new_order_ops i nextOrderID prices stocks 1 (new_order_lines i) of
        Inl w \<Rightarrow> w
      | Inr (stockOps, lineOps, hasUnusedItem) \<Rightarrow> new_order_apply stockOps lineOps hasUnusedItem)"

definition new_order_stocks :: "TNewOrderInputs \<Rightarrow> int \<Rightarrow> (int \<rightharpoonup> TMoney) \<Rightarrow> wf" where
  "new_order_stocks i nextOrderID prices =
     (let keys = stock_keys [] (new_order_lines i) in
      if keys \<noteq> [] then
        AwaitExecute (TGetStocksForUpdate (no_DistrictID i) keys) (\<lambda>r. guard_op r
          (get_stocks (or_Payload r) (\<lambda>rows. new_order_post i nextOrderID prices (stock_map rows))))
      else new_order_post i nextOrderID prices Map.empty)"

definition new_order_items :: "TNewOrderInputs \<Rightarrow> int \<Rightarrow> wf" where
  "new_order_items i nextOrderID =
     (if valid_item_ids i \<noteq> [] then
        AwaitExecute (TGetItems (valid_item_ids i)) (\<lambda>r. guard_op r
          (get_items (or_Payload r) (\<lambda>items. new_order_stocks i nextOrderID (item_prices items))))
      else new_order_stocks i nextOrderID Map.empty)"

definition new_order_wf :: "TNewOrderInputs \<Rightarrow> wf" where
  "new_order_wf i =
     AwaitExecute (TGetCustomerById (no_WarehouseID i) (no_DistrictID i) (no_CustomerID i)) (\<lambda>r. guard_op r
    (AwaitExecute (TGetWarehouseTax (no_WarehouseID i)) (\<lambda>r. guard_op r
    (AwaitExecute (TReserveDistrictOrderId (no_WarehouseID i) (no_DistrictID i)) (\<lambda>r. guard_op r
    (get_reservation (or_Payload r) (\<lambda>res.
     AwaitExecute (TCreateOrder (no_WarehouseID i) (no_DistrictID i) (dr_NextOrderID res) (no_CustomerID i)
       (no_NumItems i) (no_AllLocal i)) (\<lambda>r. guard_op r
    (new_order_items i (dr_NextOrderID res))))))))))"

section \<open>Well-formed inputs\<close>

definition new_order_inputs_ok :: "int \<Rightarrow> TNewOrderInputs \<Rightarrow> bool" where
  "new_order_inputs_ok warehouses i \<longleftrightarrow>
     1 \<le> no_DistrictID i \<and> no_DistrictID i \<le> 10 \<and>
     1 \<le> no_CustomerID i \<and> no_CustomerID i \<le> 3000 \<and>
     5 \<le> no_NumItems i \<and> no_NumItems i \<le> 15 \<and>
     length (no_ItemIDs i) = nat (no_NumItems i) \<and>
     length (no_SupplierWarehouseIDs i) = nat (no_NumItems i) \<and>
     length (no_OrderQuantities i) = nat (no_NumItems i) \<and>
     list_all (\<lambda>id. 1 \<le> id \<and> id \<le> 100000) (butlast (no_ItemIDs i)) \<and>
     (1 \<le> last (no_ItemIDs i) \<and> last (no_ItemIDs i) \<le> 100000 \<or> last (no_ItemIDs i) = INVALID_ITEM_ID) \<and>
     list_all (\<lambda>w. 1 \<le> w \<and> w \<le> warehouses) (no_SupplierWarehouseIDs i) \<and>
     list_all (\<lambda>q. 1 \<le> q \<and> q \<le> 10) (no_OrderQuantities i) \<and>
     (no_AllLocal i = 1 \<longleftrightarrow> list_all (\<lambda>w. w = no_WarehouseID i) (no_SupplierWarehouseIDs i))"


text \<open>What the loop over the lines keeps.\<close>

definition lines_ok :: "int \<Rightarrow> TNewOrderInputs \<Rightarrow> bool" where
  "lines_ok warehouses g \<longleftrightarrow>
     length (no_SupplierWarehouseIDs g) = length (no_ItemIDs g) \<and>
     length (no_OrderQuantities g) = length (no_ItemIDs g) \<and>
     list_all (\<lambda>id. 1 \<le> id \<and> id \<le> 100000) (no_ItemIDs g) \<and>
     list_all (\<lambda>w. 1 \<le> w \<and> w \<le> warehouses) (no_SupplierWarehouseIDs g) \<and>
     list_all (\<lambda>q. 1 \<le> q \<and> q \<le> 10) (no_OrderQuantities g) \<and>
     (no_AllLocal g = 1 \<longleftrightarrow> list_all (\<lambda>w. w = no_WarehouseID g) (no_SupplierWarehouseIDs g))"

lemma to_int32_unat:
  assumes "unat w < 2147483648" shows "to_int32 w = int (unat w)"
proof -
  have "uint w < 2147483648" unfolding uint_nat using assms by linarith
  then have "to_int32 w = uint w" using to_int32_eq [of w] by simp
  then show ?thesis by (simp only: uint_nat)
qed

lemma Choose_total:
  assumes "1 \<le> unat wc" "unat wc < 2 ^ 31" "1 \<le> home" "home \<le> int (unat wc)"
  shows "\<exists>w rng'. ChooseNewOrderSupplyWarehouse rng home wc pct cap chosen = Some (w, rng') \<and>
    1 \<le> w \<and> w \<le> int (unat wc)"
proof (cases "wc = 1")
  case True
  then show ?thesis using assms by (simp add: ChooseNewOrderSupplyWarehouse_def)
next
  case False
  then have "unat wc \<noteq> 1" by (metis unat_1 word_unat_eq_iff)
  then have two: "2 \<le> unat wc" using assms(1) by simp
  obtain p rng1 where "RandomInt rng 1 100 = (p, rng1)" by fastforce
  then show ?thesis
    using supply_loop_total [OF two assms(2), of rng1 home] assms(3,4) False
    by (auto simp: ChooseNewOrderSupplyWarehouse_def)
qed

lemma new_order_line_inputs_ok:
  assumes wc: "1 \<le> unat (cx_WarehouseCount cx)" "unat (cx_WarehouseCount cx) < 2 ^ 31"
    and home: "1 \<le> no_WarehouseID g" "no_WarehouseID g \<le> int (unat (cx_WarehouseCount cx))"
    and ok: "lines_ok (int (unat (cx_WarehouseCount cx))) g"
  shows "\<exists>g' rng'. new_order_line_inputs cx n chosen g rng = Some (g', rng') \<and>
    lines_ok (int (unat (cx_WarehouseCount cx))) g' \<and> length (no_ItemIDs g') = length (no_ItemIDs g) + n \<and>
    no_WarehouseID g' = no_WarehouseID g \<and> no_DistrictID g' = no_DistrictID g \<and>
    no_CustomerID g' = no_CustomerID g \<and> no_NumItems g' = no_NumItems g"
  using home ok
proof (induction n arbitrary: chosen g rng)
  case 0
  then show ?case by simp
next
  case (Suc n)
  obtain item rng1 where item: "GetRandomItemID rng = (item, rng1)" by fastforce
  obtain sup rng2 where sup: "ChooseNewOrderSupplyWarehouse rng1 (no_WarehouseID g) (cx_WarehouseCount cx)
      (cx_NewOrderRemoteWarehousePercent cx) (cx_NewOrderMaxRemoteWarehouses cx) chosen = Some (sup, rng2)"
    and sup_ok: "1 \<le> sup" "sup \<le> int (unat (cx_WarehouseCount cx))"
    using Choose_total [OF wc Suc.prems(1,2)] by blast
  obtain qty rng3 where qty: "RandomInt rng2 1 10 = (qty, rng3)" by fastforce
  have item_ok: "1 \<le> item" "item \<le> 100000"
    using GetRandomItemID_bounds [of rng] item by (simp_all add: ITEM_COUNT_def)
  have qty_ok: "1 \<le> qty" "qty \<le> 10" using RandomInt_bounds [of 1 10 rng2] qty by simp_all
  let ?g = "g \<lparr> no_ItemIDs := no_ItemIDs g @ [item],
      no_SupplierWarehouseIDs := no_SupplierWarehouseIDs g @ [sup],
      no_OrderQuantities := no_OrderQuantities g @ [qty],
      no_AllLocal := (if sup \<noteq> no_WarehouseID g then 0 else no_AllLocal g) \<rparr>"
  have "lines_ok (int (unat (cx_WarehouseCount cx))) ?g"
    using Suc.prems(3) sup_ok item_ok qty_ok by (auto simp: lines_ok_def)
  with Suc.IH [of ?g] Suc.prems(1,2) show ?case
    using item sup qty by (simp add: Let_def)
qed

lemma new_order_inputs_valid:
  assumes wc: "1 \<le> unat (cx_WarehouseCount cx)" "unat (cx_WarehouseCount cx) < 2 ^ 31"
    and home: "1 \<le> unat (cx_WarehouseID cx)" "unat (cx_WarehouseID cx) \<le> unat (cx_WarehouseCount cx)"
  shows "\<exists>i rng'. new_order_inputs cx rng = Some (i, rng') \<and>
    new_order_inputs_ok (int (unat (cx_WarehouseCount cx))) i \<and>
    no_WarehouseID i = int (unat (cx_WarehouseID cx))"
proof -
  obtain d rng1 where d: "RandomInt rng 1 10 = (d, rng1)" by fastforce
  obtain c rng2 where c: "GetRandomCustomerID rng1 = (c, rng2)" by fastforce
  obtain n rng3 where n: "RandomInt rng2 5 15 = (n, rng3)" by fastforce
  have w: "to_int32 (cx_WarehouseID cx) = int (unat (cx_WarehouseID cx))"
    using wc(2) home(2) by (intro to_int32_unat) simp
  let ?g = "\<lparr> no_WarehouseID = to_int32 (cx_WarehouseID cx), no_DistrictID = d, no_CustomerID = c,
    no_NumItems = n, no_ItemIDs = [], no_SupplierWarehouseIDs = [], no_OrderQuantities = [], no_AllLocal = 1 \<rparr>"
  have bounds: "1 \<le> d" "d \<le> 10" "1 \<le> c" "c \<le> 3000" "5 \<le> n" "n \<le> 15"
    using RandomInt_bounds [of 1 10 rng] RandomInt_bounds [of 5 15 rng2] GetRandomCustomerID_bounds [of rng1]
      d c n by (simp_all add: CUSTOMERS_PER_DISTRICT_def)
  have "lines_ok (int (unat (cx_WarehouseCount cx))) ?g" by (simp add: lines_ok_def)
  moreover have "1 \<le> no_WarehouseID ?g" "no_WarehouseID ?g \<le> int (unat (cx_WarehouseCount cx))"
    using home by (simp_all only: w TNewOrderInputs.simps)
  ultimately obtain g rng4 where g: "new_order_line_inputs cx (nat n) 0 ?g rng3 = Some (g, rng4)"
    "lines_ok (int (unat (cx_WarehouseCount cx))) g" "length (no_ItemIDs g) = nat n"
    "no_WarehouseID g = to_int32 (cx_WarehouseID cx)" "no_DistrictID g = d" "no_CustomerID g = c" "no_NumItems g = n"
    using new_order_line_inputs_ok [OF wc, of ?g "nat n" 0 rng3] by auto
  obtain p rng5 where p: "RandomInt rng4 1 100 = (p, rng5)" by fastforce
  let ?i = "if p = 1 then g \<lparr> no_ItemIDs := (no_ItemIDs g)[nat (n - 1) := INVALID_ITEM_ID] \<rparr> else g"
  have res: "new_order_inputs cx rng = Some (?i, rng5)"
    using d c n g(1) p by (simp add: new_order_inputs_def domain_constants Let_def)
  have ne: "no_ItemIDs g \<noteq> []" using g(3) bounds(5) by auto
  then have last: "nat (n - 1) = length (no_ItemIDs g) - 1" using g(3) bounds(5) by simp
  have butl: "butlast ((no_ItemIDs g)[nat (n - 1) := INVALID_ITEM_ID]) = butlast (no_ItemIDs g)"
    using ne by (simp add: last butlast_list_update)
  have lst: "last ((no_ItemIDs g)[nat (n - 1) := INVALID_ITEM_ID]) = INVALID_ITEM_ID"
    using ne by (simp add: last last_list_update)
  have items: "list_all (\<lambda>id. 1 \<le> id \<and> id \<le> 100000) (butlast (no_ItemIDs g))"
    "1 \<le> last (no_ItemIDs g) \<and> last (no_ItemIDs g) \<le> 100000"
    using g(2) ne by (auto simp: lines_ok_def list_all_iff dest: in_set_butlastD)
  have "new_order_inputs_ok (int (unat (cx_WarehouseCount cx))) ?i"
    using g bounds butl lst items by (auto simp: new_order_inputs_ok_def lines_ok_def)
  moreover have "no_WarehouseID ?i = int (unat (cx_WarehouseID cx))" using g(4) w by simp
  ultimately show ?thesis using res by blast
qed


section \<open>Stock rule\<close>

lemma order_stock_result:
  assumes "10 \<le> sr_Quantity s" "sr_Quantity s \<le> 100" "1 \<le> qty" "qty \<le> 10"
    "0 \<le> MoneyUnits (sr_Ytd s)" "MoneyUnits (sr_Ytd s) < 2 ^ 62"
    "0 \<le> sr_OrderCount s" "sr_OrderCount s < 2 ^ 30" "0 \<le> sr_RemoteCount s" "sr_RemoteCount s < 2 ^ 30"
  shows "order_stock home supw qty s = Inr (s \<lparr>
    sr_Quantity := (if sr_Quantity s - qty \<ge> 10 then sr_Quantity s - qty else sr_Quantity s - qty + 91),
    sr_Ytd := TMoney (MoneyUnits (sr_Ytd s) + qty * 100),
    sr_OrderCount := sr_OrderCount s + 1,
    sr_RemoteCount := sr_RemoteCount s + (if supw = home then 0 else 1) \<rparr>)"
  using assms
  by (simp add: order_stock_def i32_def i64_def in_i32_def in_i64_def money_add_def FromCents_def Money_Scale_def)

section \<open>Properties\<close>

text \<open>C30: the generated inputs of a New-Order are always produced and well formed: district,
  customer, five to fifteen lines, items that exist except possibly the last one (the unused
  item), existing supply warehouses, quantities from one to ten, and \<^verbatim>\<open>AllLocal\<close> set exactly when
  every line is supplied by the home warehouse.\<close>

theorem new_order_inputs_wellformed:
  assumes "1 \<le> unat (cx_WarehouseCount cx)" "unat (cx_WarehouseCount cx) < 2 ^ 31"
    "1 \<le> unat (cx_WarehouseID cx)" "unat (cx_WarehouseID cx) \<le> unat (cx_WarehouseCount cx)"
  shows "\<exists>i rng'. new_order_inputs cx rng = Some (i, rng') \<and>
    new_order_inputs_ok (int (unat (cx_WarehouseCount cx))) i \<and>
    no_WarehouseID i = int (unat (cx_WarehouseID cx))"
  using new_order_inputs_valid [OF assms] .

theorem new_order_inputs_wellformed_witness:
  "\<exists>i rng'. new_order_inputs \<lparr> cx_TerminalID = 0, cx_WarehouseID = 2, cx_DistrictID = 1, cx_WarehouseCount = 4,
      cx_NewOrderRemoteWarehousePercent = 1, cx_PaymentRemoteWarehousePercent = 15,
      cx_NewOrderMaxRemoteWarehouses = 0 \<rparr> (TFastRng_seed 42) = Some (i, rng') \<and>
    new_order_inputs_ok 4 i \<and> no_WarehouseID i = 2"
  using new_order_inputs_wellformed [of "\<lparr> cx_TerminalID = 0, cx_WarehouseID = 2, cx_DistrictID = 1,
      cx_WarehouseCount = 4, cx_NewOrderRemoteWarehousePercent = 1, cx_PaymentRemoteWarehousePercent = 15,
      cx_NewOrderMaxRemoteWarehouses = 0 \<rparr>" "TFastRng_seed 42"]
  by simp

text \<open>C31: the stock rule of New-Order keeps a stock level that is between 10 and 100 between 10 and
  100 for every ordered quantity from 1 to 10, adds the quantity to the year-to-date total and
  counts the order, without overflow.\<close>

theorem order_stock_keeps_range:
  assumes "10 \<le> sr_Quantity s" "sr_Quantity s \<le> 100" "1 \<le> qty" "qty \<le> 10"
    "0 \<le> MoneyUnits (sr_Ytd s)" "MoneyUnits (sr_Ytd s) < 2 ^ 62"
    "0 \<le> sr_OrderCount s" "sr_OrderCount s < 2 ^ 30" "0 \<le> sr_RemoteCount s" "sr_RemoteCount s < 2 ^ 30"
  shows "\<exists>s'. order_stock home supw qty s = Inr s' \<and> 10 \<le> sr_Quantity s' \<and> sr_Quantity s' \<le> 100 \<and>
    (sr_Quantity s' - (sr_Quantity s - qty)) mod 91 = 0 \<and>
    MoneyUnits (sr_Ytd s') = MoneyUnits (sr_Ytd s) + qty * 100 \<and> sr_OrderCount s' = sr_OrderCount s + 1"
  using order_stock_result [OF assms, of home supw] assms by simp

theorem order_stock_keeps_range_witness:
  "\<exists>s'. order_stock 1 2 7 \<lparr> sr_WarehouseID = 2, sr_ItemID = 5, sr_Quantity = 12, sr_Ytd = TMoney 300,
      sr_OrderCount = 1, sr_RemoteCount = 0, sr_Data = [], sr_DistInfo = [] \<rparr> = Inr s' \<and>
    10 \<le> sr_Quantity s' \<and> sr_Quantity s' \<le> 100 \<and> (sr_Quantity s' - 5) mod 91 = 0 \<and>
    MoneyUnits (sr_Ytd s') = 1000 \<and> sr_OrderCount s' = 2"
  using order_stock_keeps_range [of "\<lparr> sr_WarehouseID = 2, sr_ItemID = 5, sr_Quantity = 12, sr_Ytd = TMoney 300,
      sr_OrderCount = 1, sr_RemoteCount = 0, sr_Data = [], sr_DistInfo = [] \<rparr>" 7 1 2]
  by simp

end
