(* ===== verification/Other_Txs.thy ===== *)
theory Other_Txs
  imports New_Order_Tx
begin

text \<open>
  \<^verbatim>\<open>payment.cpp\<close>, \<^verbatim>\<open>order_status.cpp\<close>, \<^verbatim>\<open>delivery.cpp\<close> and \<^verbatim>\<open>stock_level.cpp\<close> of
  \<^verbatim>\<open>tpcc/transactions\<close>: inputs and workflows of the other four TPC-C transactions, and the choice
  of a workflow by transaction type.
\<close>

section \<open>Payment\<close>

record TPaymentInputs =
  pi_WarehouseID :: int
  pi_DistrictID :: int
  pi_PaymentAmount :: TMoney
  pi_CustomerDistrictID :: int
  pi_CustomerWarehouseID :: int
  pi_LookupByName :: bool
  pi_LastName :: string
  pi_CustomerID :: int

partial_function (option) payment_warehouse_loop :: "TFastRng \<Rightarrow> int \<Rightarrow> u64 \<Rightarrow> (int \<times> TFastRng) option" where
  "payment_warehouse_loop rng homeWarehouseId warehouseCount =
     (case RandomNumber rng 1 warehouseCount of (n, rng') \<Rightarrow>
        (if to_int32 n = homeWarehouseId \<and> warehouseCount > 1
         then payment_warehouse_loop rng' homeWarehouseId warehouseCount
         else Some (to_int32 n, rng')))"

text \<open>The customer of a payment: by name in 60 percent of the cases. A name drawn outside the
  token table would be undefined behaviour, the outer \<^const>\<open>None\<close>.\<close>

definition lookup_inputs :: "TFastRng \<Rightarrow> (bool \<times> string \<times> int \<times> TFastRng) option" where
  "lookup_inputs rng =
     (case RandomInt rng 1 100 of (p, rng1) \<Rightarrow>
        if p \<le> 60
        then (case GetNonUniformRandomLastNameForRun rng1 of
                (Some name, rng2) \<Rightarrow> Some (True, name, 0, rng2)
              | (None, rng2) \<Rightarrow> None)
        else (case GetRandomCustomerID rng1 of (c, rng2) \<Rightarrow> Some (False, [], c, rng2)))"

definition payment_inputs :: "TTransactionContext \<Rightarrow> TFastRng \<Rightarrow> (TPaymentInputs \<times> TFastRng) option" where
  "payment_inputs cx rng =
     (let w = to_int32 (cx_WarehouseID cx);
          (district, rng1) = RandomInt rng DISTRICT_LOW_ID DISTRICT_HIGH_ID;
          (amount, rng2) = RandomInt rng1 100 500000;
          (p, rng3) = RandomInt rng2 1 100;
          customerAt =
            (if p \<le> 100 - cx_PaymentRemoteWarehousePercent cx then Some (district, w, rng3)
             else let (cd, rng4) = RandomInt rng3 DISTRICT_LOW_ID DISTRICT_HIGH_ID in
                  (case payment_warehouse_loop rng4 w (cx_WarehouseCount cx) of
                     None \<Rightarrow> None
                   | Some (cw, rng5) \<Rightarrow> Some (cd, cw, rng5)))
      in case customerAt of
           None \<Rightarrow> None
         | Some (cd, cw, rng6) \<Rightarrow>
             (case lookup_inputs rng6 of
                None \<Rightarrow> None
              | Some (byName, name, c, rng7) \<Rightarrow>
                  Some (\<lparr> pi_WarehouseID = w, pi_DistrictID = district, pi_PaymentAmount = FromCents amount,
                          pi_CustomerDistrictID = cd, pi_CustomerWarehouseID = cw, pi_LookupByName = byName,
                          pi_LastName = name, pi_CustomerID = c \<rparr>, rng7)))"

text \<open>Lines 76 to 98, shared with Order-Status: find the customer, by name or by number.\<close>

definition find_customer :: "bool \<Rightarrow> int \<Rightarrow> int \<Rightarrow> string \<Rightarrow> int \<Rightarrow> (TCustomerRow \<Rightarrow> wf) \<Rightarrow> wf" where
  "find_customer byName w d lastName c k =
     (if byName then
        AwaitExecute (TGetCustomersByLastName w d lastName) (\<lambda>r. guard_op r
          (get_customers (or_Payload r) (\<lambda>rows.
            case SelectCustomerByLastNameMedian rows of
              None \<Rightarrow> FailPermanentMsg
            | Some customer \<Rightarrow> k customer)))
      else
        AwaitExecute (TGetCustomerById w d c) (\<lambda>r. guard_op r (get_customer (or_Payload r) k)))"

definition payment_history_data :: "TWarehouseDistrictInfo \<Rightarrow> string" where
  "payment_history_data loc = take 24 (wd_WarehouseName loc @ ''    '' @ wd_DistrictName loc)"

definition payment_finish :: "TPaymentInputs \<Rightarrow> TWarehouseDistrictInfo \<Rightarrow> TCustomerRow \<Rightarrow> wf" where
  "payment_finish i loc customer =
     AwaitFinal (TInsertPaymentHistory (pi_CustomerWarehouseID i) (pi_CustomerDistrictID i) (cr_CustomerID customer)
        (pi_WarehouseID i) (pi_DistrictID i) (pi_PaymentAmount i) (payment_history_data loc))
       (\<lambda>f. guard_final f (Leaf Success))"

definition bad_credit_data :: "TPaymentInputs \<Rightarrow> int \<Rightarrow> string \<Rightarrow> string \<Rightarrow> string" where
  "bad_credit_data i customerID amountText oldData =
     take 500 (show_int customerID @ '' '' @ show_int (pi_CustomerDistrictID i) @ '' ''
       @ show_int (pi_CustomerWarehouseID i) @ '' '' @ show_int (pi_DistrictID i) @ '' ''
       @ show_int (pi_WarehouseID i) @ '' '' @ amountText @ '' | '' @ oldData)"

definition payment_customer :: "TPaymentInputs \<Rightarrow> TWarehouseDistrictInfo \<Rightarrow> TCustomerRow \<Rightarrow> wf" where
  "payment_customer i loc customer =
     check_int (money_sub (cr_Balance customer) (pi_PaymentAmount i)) (\<lambda>balance.
     check_int (money_add (cr_YtdPayment customer) (pi_PaymentAmount i)) (\<lambda>ytd.
     check_int (i32 (cr_PaymentCount customer + 1)) (\<lambda>payments.
       let update = (\<lambda>updateData newData.
             AwaitExecute (TUpdateCustomerPayment (pi_CustomerWarehouseID i) (pi_CustomerDistrictID i)
               (cr_CustomerID customer) balance ytd payments updateData newData)
               (\<lambda>r. guard_op r (payment_finish i loc customer)))
       in if cr_Credit customer = ''BC'' then
            AwaitExecute (TGetCustomerData (pi_CustomerWarehouseID i) (pi_CustomerDistrictID i) (cr_CustomerID customer))
              (\<lambda>r. guard_op r (get_string (or_Payload r) (\<lambda>oldData.
                check_int (Money_ToString (pi_PaymentAmount i)) (\<lambda>amountText.
                  update True (bad_credit_data i (cr_CustomerID customer) amountText oldData)))))
          else update False [])))"

definition payment_wf :: "TPaymentInputs \<Rightarrow> wf" where
  "payment_wf i =
     AwaitExecute (TApplyPaymentToLocation (pi_WarehouseID i) (pi_DistrictID i) (pi_PaymentAmount i)) (\<lambda>r. guard_op r
       (get_location (or_Payload r) (\<lambda>loc.
          find_customer (pi_LookupByName i) (pi_CustomerWarehouseID i) (pi_CustomerDistrictID i) (pi_LastName i)
            (pi_CustomerID i) (payment_customer i loc))))"

section \<open>Order-Status\<close>

record TOrderStatusInputs =
  os_WarehouseID :: int
  os_DistrictID :: int
  os_LookupByName :: bool
  os_LastName :: string
  os_CustomerID :: int

definition order_status_inputs :: "TTransactionContext \<Rightarrow> TFastRng \<Rightarrow> (TOrderStatusInputs \<times> TFastRng) option" where
  "order_status_inputs cx rng =
     (let (district, rng1) = RandomInt rng DISTRICT_LOW_ID DISTRICT_HIGH_ID in
      case lookup_inputs rng1 of
        None \<Rightarrow> None
      | Some (byName, name, c, rng2) \<Rightarrow>
          Some (\<lparr> os_WarehouseID = to_int32 (cx_WarehouseID cx), os_DistrictID = district,
                  os_LookupByName = byName, os_LastName = name, os_CustomerID = c \<rparr>, rng2))"

definition order_status_wf :: "TOrderStatusInputs \<Rightarrow> wf" where
  "order_status_wf i =
     find_customer (os_LookupByName i) (os_WarehouseID i) (os_DistrictID i) (os_LastName i) (os_CustomerID i)
       (\<lambda>customer.
          AwaitExecute (TGetLatestCustomerOrder (os_WarehouseID i) (os_DistrictID i) (cr_CustomerID customer))
            (\<lambda>r. guard_op r
              (if or_ActualRows r = 0 then AwaitCommit (\<lambda>c. guard_commit c (Leaf Success))
               else get_order_header (or_Payload r) (\<lambda>h.
                 AwaitFinal (TGetOrderStatusLines (os_WarehouseID i) (os_DistrictID i) (oh_OrderID h))
                   (\<lambda>f. guard_final f (Leaf Success))))))"

section \<open>Delivery\<close>

record TDeliveryInputs =
  de_WarehouseID :: int
  de_CarrierID :: int

record TOrderData =
  od_OrderID :: int
  od_CustomerId :: int
  od_TotalAmount :: TMoney
  od_LineCount :: int

definition delivery_inputs :: "TTransactionContext \<Rightarrow> TFastRng \<Rightarrow> (TDeliveryInputs \<times> TFastRng) option" where
  "delivery_inputs cx rng =
     (case RandomInt rng 1 10 of (carrier, rng1) \<Rightarrow>
        Some (\<lparr> de_WarehouseID = to_int32 (cx_WarehouseID cx), de_CarrierID = carrier \<rparr>, rng1))"

text \<open>The first loop over the districts; \<open>orders\<close> holds the filled array elements in order.\<close>

fun delivery_collect ::
  "TDeliveryInputs \<Rightarrow> int list \<Rightarrow> (int \<times> TOrderData) list \<Rightarrow> ((int \<times> TOrderData) list \<Rightarrow> wf) \<Rightarrow> wf"
where
  "delivery_collect i [] orders k = k orders"
| "delivery_collect i (d # ds) orders k =
     AwaitExecute (TGetOldestNewOrder (de_WarehouseID i) d) (\<lambda>r. guard_op r
       (if or_ActualRows r = 0 then delivery_collect i ds orders k
        else get_int (or_Payload r) (\<lambda>orderID.
          AwaitExecute (TGetDeliveryOrderInfo (de_WarehouseID i) d orderID) (\<lambda>r2. guard_op r2
            (get_delivery_info (or_Payload r2) (\<lambda>info.
               if di_LineCount info = 0 then FailPermanentMsg
               else delivery_collect i ds
                 (orders @ [(d, \<lparr> od_OrderID = orderID, od_CustomerId = di_CustomerID info,
                                  od_TotalAmount = di_TotalAmount info, od_LineCount = di_LineCount info \<rparr>)]) k))))))"

definition delivery_complete_ops :: "TDeliveryInputs \<Rightarrow> (int \<times> TOrderData) list \<Rightarrow> TSemanticOp list" where
  "delivery_complete_ops i orders =
     map (\<lambda>(d, od). TCompleteOrderDelivery (de_WarehouseID i) d (od_OrderID od) (de_CarrierID i) (od_LineCount od))
       orders"

definition delivery_apply_ops :: "TDeliveryInputs \<Rightarrow> (int \<times> TOrderData) list \<Rightarrow> TSemanticOp list" where
  "delivery_apply_ops i orders =
     map (\<lambda>(d, od). TApplyDeliveryToCustomer (de_WarehouseID i) d (od_CustomerId od) (od_TotalAmount od)) orders"

definition delivery_finish :: "TSemanticOp list \<Rightarrow> wf" where
  "delivery_finish applyOps =
     (if applyOps = [] then AwaitCommit (\<lambda>c. guard_commit c (Leaf Success))
      else let final = AwaitFinal (last applyOps) (\<lambda>f. guard_final f (Leaf Success))
           in if length applyOps > 1
              then AwaitBatch (butlast applyOps) (\<lambda>b. guard_batch b final)
              else final)"

definition delivery_apply :: "TDeliveryInputs \<Rightarrow> (int \<times> TOrderData) list \<Rightarrow> wf" where
  "delivery_apply i orders =
     (if delivery_complete_ops i orders \<noteq> []
      then AwaitBatch (delivery_complete_ops i orders)
             (\<lambda>b. guard_batch b (delivery_finish (delivery_apply_ops i orders)))
      else delivery_finish (delivery_apply_ops i orders))"

definition delivery_wf :: "TDeliveryInputs \<Rightarrow> wf" where
  "delivery_wf i = delivery_collect i [DISTRICT_LOW_ID..DISTRICT_HIGH_ID] [] (delivery_apply i)"

section \<open>Stock-Level\<close>

record TStockLevelInputs =
  st_WarehouseID :: int
  st_DistrictID :: int
  st_Threshold :: int

definition stock_level_inputs :: "TTransactionContext \<Rightarrow> TFastRng \<Rightarrow> (TStockLevelInputs \<times> TFastRng) option" where
  "stock_level_inputs cx rng =
     (case RandomInt rng 10 20 of (level, rng1) \<Rightarrow>
        Some (\<lparr> st_WarehouseID = to_int32 (cx_WarehouseID cx), st_DistrictID = to_int32 (cx_DistrictID cx),
                st_Threshold = level \<rparr>, rng1))"

definition stock_level_wf :: "TStockLevelInputs \<Rightarrow> wf" where
  "stock_level_wf i =
     AwaitFinal (TCountRecentLowStock (st_WarehouseID i) (st_DistrictID i) (st_Threshold i) 20)
       (\<lambda>f. guard_final f (Leaf Success))"

section \<open>The five workflows\<close>

datatype tx_inputs =
    NewOrderInputs TNewOrderInputs
  | DeliveryInputs TDeliveryInputs
  | OrderStatusInputs TOrderStatusInputs
  | PaymentInputs TPaymentInputs
  | StockLevelInputs TStockLevelInputs

fun workflow :: "tx_inputs \<Rightarrow> wf" where
  "workflow (NewOrderInputs i) = new_order_wf i"
| "workflow (DeliveryInputs i) = delivery_wf i"
| "workflow (OrderStatusInputs i) = order_status_wf i"
| "workflow (PaymentInputs i) = payment_wf i"
| "workflow (StockLevelInputs i) = stock_level_wf i"

end
