(* ===== verification/Workflow_Discipline.thy ===== *)
theory Workflow_Discipline
  imports Other_Txs
begin

text \<open>
  What every workflow promises the adapter and the terminal, whatever the adapter answers: it
  commits at most once and as its last request, never after a request that failed, and it reports
  success exactly when the commit was confirmed. \<open>disciplined\<close> is the tree form of that promise;
  \<open>disciplined_run\<close> carries it over to every execution.
\<close>

section \<open>Discipline of a tree\<close>

primrec no_commit :: "wf \<Rightarrow> bool" where
  "no_commit (Leaf l) \<longleftrightarrow> l \<noteq> Success"
| "no_commit (AwaitExecute op k) \<longleftrightarrow> (\<forall>r. no_commit (k r))"
| "no_commit (AwaitBatch ops k) \<longleftrightarrow> (\<forall>r. no_commit (k r))"
| "no_commit (AwaitFinal op k) \<longleftrightarrow> False"
| "no_commit (AwaitCommit k) \<longleftrightarrow> False"
| "no_commit (AwaitRollback k) \<longleftrightarrow> (\<forall>c. no_commit (k c))"

definition is_leaf :: "wf \<Rightarrow> bool" where
  "is_leaf w \<longleftrightarrow> (\<exists>l. w = Leaf l)"

definition final_confirmed :: "TFinalCommitResult \<Rightarrow> bool" where
  "final_confirmed f \<longleftrightarrow> or_Ok (fc_Operation f) \<and> cm_Outcome (fc_Commit f) = Committed"

primrec disciplined :: "wf \<Rightarrow> bool" where
  "disciplined (Leaf l) \<longleftrightarrow> l \<noteq> Success"
| "disciplined (AwaitExecute op k) \<longleftrightarrow> (\<forall>r. disciplined (k r) \<and> (\<not> or_Ok r \<longrightarrow> no_commit (k r)))"
| "disciplined (AwaitBatch ops k) \<longleftrightarrow> (\<forall>b. disciplined (k b) \<and> (\<not> br_Ok b \<longrightarrow> no_commit (k b)))"
| "disciplined (AwaitFinal op k) \<longleftrightarrow> (\<forall>f. k f = guard_final f (Leaf Success))"
| "disciplined (AwaitCommit k) \<longleftrightarrow> (\<forall>c. k c = guard_commit c (Leaf Success))"
| "disciplined (AwaitRollback k) \<longleftrightarrow> (\<forall>c. is_leaf (k c) \<and> k c \<noteq> Leaf Success)"

lemma wf_branch_induct [case_names Leaf AwaitExecute AwaitBatch AwaitFinal AwaitCommit AwaitRollback]:
  assumes "\<And>l. P (Leaf l)"
    and "\<And>op k. (\<And>r. P (k r)) \<Longrightarrow> P (AwaitExecute op k)"
    and "\<And>ops k. (\<And>b. P (k b)) \<Longrightarrow> P (AwaitBatch ops k)"
    and "\<And>op k. (\<And>f. P (k f)) \<Longrightarrow> P (AwaitFinal op k)"
    and "\<And>k. (\<And>c. P (k c)) \<Longrightarrow> P (AwaitCommit k)"
    and "\<And>k. (\<And>c. P (k c)) \<Longrightarrow> P (AwaitRollback k)"
  shows "P w"
  by (induction w) (simp_all add: assms)

named_theorems discipline \<open>discipline of workflow fragments\<close>

lemma is_leaf_Leaf [simp]: "is_leaf (Leaf l)"
  by (simp add: is_leaf_def)

lemma FailPermanent_discipline [discipline]:
  "disciplined (FailPermanent c)" "no_commit (FailPermanent c)"
  "disciplined FailPermanentMsg" "no_commit FailPermanentMsg"
  "is_leaf (FailPermanent c)" "FailPermanent c \<noteq> Leaf Success"
  by (simp_all add: FailPermanent_def FailPermanentMsg_def)

lemma guard_op_discipline [discipline]:
  "(or_Ok r \<Longrightarrow> disciplined k) \<Longrightarrow> disciplined (guard_op r k)"
  "\<not> or_Ok r \<Longrightarrow> no_commit (guard_op r k)"
  by (simp_all add: guard_op_def discipline split: option.splits)

lemma guard_batch_discipline [discipline]:
  "(br_Ok b \<Longrightarrow> disciplined k) \<Longrightarrow> disciplined (guard_batch b k)"
  "\<not> br_Ok b \<Longrightarrow> no_commit (guard_batch b k)"
  by (simp_all add: guard_batch_def discipline split: option.splits)

lemma guard_commit_leaf [discipline]:
  "is_leaf (guard_commit c (Leaf Success))"
  "guard_commit c (Leaf Success) = Leaf Success \<longleftrightarrow> cm_Outcome c = Committed"
  by (auto simp: guard_commit_def ThrowIfCommitFailed_def)

lemma guard_final_leaf [discipline]:
  "is_leaf (guard_final f (Leaf Success))"
  "guard_final f (Leaf Success) = Leaf Success \<longleftrightarrow> final_confirmed f"
  by (auto simp: guard_final_def guard_op_def final_confirmed_def ThrowIfRetryable_def
      FailPermanent_def discipline split: option.splits)

lemma check_int_discipline [discipline]:
  "(\<And>x. m = Inr x \<Longrightarrow> disciplined (k x)) \<Longrightarrow> disciplined (check_int m k)"
  by (simp add: check_int_def split: sum.splits)

lemma get_discipline [discipline]:
  "(\<And>x. disciplined (k1 x)) \<Longrightarrow> disciplined (get_customer p k1)"
  "(\<And>x. disciplined (k2 x)) \<Longrightarrow> disciplined (get_customers p k2)"
  "(\<And>x. disciplined (k3 x)) \<Longrightarrow> disciplined (get_reservation p k3)"
  "(\<And>x. disciplined (k4 x)) \<Longrightarrow> disciplined (get_items p k4)"
  "(\<And>x. disciplined (k5 x)) \<Longrightarrow> disciplined (get_stocks p k5)"
  "(\<And>x. disciplined (k6 x)) \<Longrightarrow> disciplined (get_location p k6)"
  "(\<And>x. disciplined (k7 x)) \<Longrightarrow> disciplined (get_string p k7)"
  "(\<And>x. disciplined (k8 x)) \<Longrightarrow> disciplined (get_order_header p k8)"
  "(\<And>x. disciplined (k9 x)) \<Longrightarrow> disciplined (get_int p k9)"
  "(\<And>x. disciplined (k10 x)) \<Longrightarrow> disciplined (get_delivery_info p k10)"
  by (simp_all add: get_customer_def get_customers_def get_reservation_def get_items_def get_stocks_def
      get_location_def get_string_def get_order_header_def get_int_def get_delivery_info_def
      split: TOperationPayload.splits)

lemma execute_guarded [discipline]:
  "(\<And>r. or_Ok r \<Longrightarrow> disciplined (k r)) \<Longrightarrow> disciplined (AwaitExecute op (\<lambda>r. guard_op r (k r)))"
  by (simp add: discipline)

lemma batch_guarded [discipline]:
  "(\<And>b. disciplined k) \<Longrightarrow> disciplined (AwaitBatch ops (\<lambda>b. guard_batch b k))"
  by (simp add: discipline)

lemma commit_guarded [discipline]: "disciplined (AwaitCommit (\<lambda>c. guard_commit c (Leaf Success)))"
  by simp

lemma final_guarded [discipline]: "disciplined (AwaitFinal op (\<lambda>f. guard_final f (Leaf Success)))"
  by simp

section \<open>The five workflows\<close>

lemma new_order_finish_disciplined [discipline]: "disciplined (new_order_finish u)"
  by (auto simp: new_order_finish_def discipline ThrowIfRollbackFailed_def split: option.splits)

lemma new_order_apply_disciplined [discipline]: "disciplined (new_order_apply ss ls u)"
  by (simp add: new_order_apply_def Let_def discipline)

lemma new_order_ops_leaf: "new_order_ops i o' prices stocks n ls = Inl w \<Longrightarrow> disciplined w"
proof (induction i o' prices stocks n ls rule: new_order_ops.induct)
  case (1 i o' prices stocks n)
  then show ?case by simp
next
  case (2 i o' prices stocks n supWh iid qty ls)
  then show ?case
    by (auto simp: discipline map_r_def fun_upd_def split: if_splits option.splits sum.splits)
qed

lemma new_order_disciplined: "disciplined (new_order_wf i)"
proof -
  have update: "disciplined (new_order_post i o' prices stocks)" for o' prices stocks
    using new_order_ops_leaf by (auto simp: new_order_post_def discipline split: sum.splits)
  have stocks: "disciplined (new_order_stocks i o' prices)" for o' prices
    by (simp add: new_order_stocks_def Let_def discipline update del: disciplined.simps)
  have items: "disciplined (new_order_items i o')" for o'
    by (simp add: new_order_items_def discipline stocks del: disciplined.simps)
  show ?thesis unfolding new_order_wf_def
    by (simp add: discipline items del: disciplined.simps)
qed

lemma find_customer_disciplined [discipline]:
  "(\<And>c. disciplined (k c)) \<Longrightarrow> disciplined (find_customer b w d n c k)"
  unfolding find_customer_def
  by (simp add: discipline del: disciplined.simps split: option.splits)

lemma payment_disciplined: "disciplined (payment_wf i)"
  unfolding payment_wf_def payment_customer_def payment_finish_def Let_def
  by (simp add: discipline del: disciplined.simps)

lemma order_status_disciplined: "disciplined (order_status_wf i)"
  unfolding order_status_wf_def
  by (simp add: discipline del: disciplined.simps)

lemma delivery_finish_disciplined [discipline]: "disciplined (delivery_finish ops)"
  by (simp add: delivery_finish_def Let_def discipline del: disciplined.simps)

lemma delivery_collect_disciplined:
  "(\<And>orders. disciplined (k orders)) \<Longrightarrow> disciplined (delivery_collect i ds orders k)"
proof (induction i ds orders k rule: delivery_collect.induct)
  case (1 i orders k)
  then show ?case by simp
next
  case (2 i d ds orders k)
  then show ?case by (simp add: discipline del: disciplined.simps)
qed

lemma delivery_disciplined: "disciplined (delivery_wf i)"
  unfolding delivery_wf_def
  by (rule delivery_collect_disciplined)
    (simp add: delivery_apply_def discipline del: disciplined.simps)

lemma stock_level_disciplined: "disciplined (stock_level_wf i)"
  unfolding stock_level_wf_def by (rule final_guarded)

lemma workflow_disciplined: "disciplined (workflow i)"
  by (cases i) (simp_all add: new_order_disciplined payment_disciplined order_status_disciplined
      delivery_disciplined stock_level_disciplined)

section \<open>Discipline of an execution\<close>

text \<open>Whether an exchange succeeded, and whether it was a confirmed commit.\<close>

fun ex_ok :: "exchange \<Rightarrow> bool" where
  "ex_ok (ExExecute op r) = or_Ok r"
| "ex_ok (ExBatch ops b) = br_Ok b"
| "ex_ok (ExFinal op f) = final_confirmed f"
| "ex_ok (ExCommit c) = (cm_Outcome c = Committed)"
| "ex_ok (ExRollback c) = (cm_Outcome c = RolledBack)"

fun ex_commits :: "exchange \<Rightarrow> bool" where
  "ex_commits (ExFinal op f) = True"
| "ex_commits (ExCommit c) = True"
| "ex_commits _ = False"

fun ex_ends :: "exchange \<Rightarrow> bool" where
  "ex_ends (ExRollback c) = True"
| "ex_ends e = ex_commits e"

lemma no_commit_run:
  "no_commit w \<Longrightarrow> run ad w t = (l, tr, t') \<Longrightarrow> l \<noteq> Success \<and> list_all (\<lambda>e. \<not> ex_commits e) tr"
  by (induction w arbitrary: t l tr t' rule: wf_branch_induct)
    (fastforce simp: Let_def split: prod.splits)+

text \<open>The whole exchange of a disciplined workflow.\<close>

fun well_ended :: "wleaf \<Rightarrow> exchange list \<Rightarrow> bool" where
  "well_ended l [] \<longleftrightarrow> l \<noteq> Success"
| "well_ended l (e # es) \<longleftrightarrow>
     (if ex_ends e then es = [] \<and> (l = Success \<longleftrightarrow> ex_commits e \<and> ex_ok e)
      else well_ended l es \<and> (\<not> ex_ok e \<longrightarrow> l \<noteq> Success \<and> list_all (\<lambda>x. \<not> ex_commits x) es))"

lemma disciplined_run: "disciplined w \<Longrightarrow> run ad w t = (l, tr, t') \<Longrightarrow> well_ended l tr"
proof (induction w arbitrary: t l tr t' rule: wf_branch_induct)
  case (Leaf x)
  then show ?case by auto
next
  case (AwaitExecute op k)
  then show ?case
    using no_commit_run by (fastforce simp: Let_def split: prod.splits)
next
  case (AwaitBatch ops k)
  then show ?case
    using no_commit_run by (fastforce simp: Let_def split: prod.splits)
next
  case (AwaitFinal op k)
  obtain f t1 where a: "ad_ExecuteFinalAndCommit ad op t = (f, t1)" by fastforce
  have kf: "k f = guard_final f (Leaf Success)" using AwaitFinal.prems(1) by simp
  obtain x where x: "k f = Leaf x" using guard_final_leaf(1) [of f] unfolding kf is_leaf_def by blast
  have "k f = Leaf Success \<longleftrightarrow> final_confirmed f" unfolding kf by (rule guard_final_leaf)
  then show ?case using AwaitFinal.prems(2) a x by auto
next
  case (AwaitCommit k)
  obtain c t1 where a: "ad_Commit ad t = (c, t1)" by fastforce
  have kc: "k c = guard_commit c (Leaf Success)" using AwaitCommit.prems(1) by simp
  obtain x where x: "k c = Leaf x" using guard_commit_leaf(1) [of c] unfolding kc is_leaf_def by blast
  have "k c = Leaf Success \<longleftrightarrow> cm_Outcome c = Committed" unfolding kc by (rule guard_commit_leaf)
  then show ?case using AwaitCommit.prems(2) a x by auto
next
  case (AwaitRollback k)
  obtain c t1 where a: "ad_Rollback ad t = (c, t1)" by fastforce
  obtain x where x: "k c = Leaf x" using AwaitRollback.prems(1) unfolding disciplined.simps is_leaf_def by blast
  have "k c \<noteq> Leaf Success" using AwaitRollback.prems(1) by simp
  then show ?case using AwaitRollback.prems(2) a x by auto
qed

lemma well_ended_success:
  "well_ended Success tr \<Longrightarrow> \<exists>pre e. tr = pre @ [e] \<and> ex_commits e \<and> ex_ok e \<and> list_all ex_ok pre
     \<and> list_all (\<lambda>x. \<not> ex_ends x) pre"
proof (induction tr)
  case Nil
  then show ?case by simp
next
  case (Cons e es)
  show ?case
  proof (cases "ex_ends e")
    case True
    with Cons.prems show ?thesis by (intro exI [of _ "[]"]) auto
  next
    case False
    with Cons obtain pre x where "es = pre @ [x]" "ex_commits x" "ex_ok x" "list_all ex_ok pre"
      "list_all (\<lambda>x. \<not> ex_ends x) pre" "ex_ok e"
      by auto
    with False show ?thesis by (intro exI [of _ "e # pre"]) auto
  qed
qed

lemma well_ended_committed:
  "well_ended l tr \<Longrightarrow> e \<in> set tr \<Longrightarrow> ex_commits e \<Longrightarrow> ex_ok e \<Longrightarrow> l = Success"
proof (induction l tr rule: well_ended.induct)
  case (1 l)
  then show ?case by simp
next
  case (2 l x es)
  then show ?case by (cases x) (auto simp: list_all_iff split: if_splits)
qed


lemma well_ended_last:
  "well_ended l (pre @ e # post) \<Longrightarrow> ex_ends e \<Longrightarrow> post = []"
  by (induction pre) (auto split: if_splits)

lemma well_ended_failed:
  "well_ended l (pre @ e # post) \<Longrightarrow> \<not> ex_ok e \<Longrightarrow> list_all (\<lambda>x. \<not> ex_commits x) post"
  by (induction pre) (auto split: if_splits)

section \<open>User aborts\<close>

text \<open>Only a confirmed rollback is followed by \<^const>\<open>TUserAbortedException\<close>.\<close>

primrec abort_confirmed :: "wf \<Rightarrow> bool" where
  "abort_confirmed (Leaf l) \<longleftrightarrow> l \<noteq> Thrown TUserAbortedException"
| "abort_confirmed (AwaitExecute op k) \<longleftrightarrow> (\<forall>r. abort_confirmed (k r))"
| "abort_confirmed (AwaitBatch ops k) \<longleftrightarrow> (\<forall>b. abort_confirmed (k b))"
| "abort_confirmed (AwaitFinal op k) \<longleftrightarrow> (\<forall>f. abort_confirmed (k f))"
| "abort_confirmed (AwaitCommit k) \<longleftrightarrow> (\<forall>c. abort_confirmed (k c))"
| "abort_confirmed (AwaitRollback k) \<longleftrightarrow>
     (\<forall>c. is_leaf (k c) \<and> (k c = Leaf (Thrown TUserAbortedException) \<longrightarrow> cm_Outcome c = RolledBack))"

named_theorems aborts \<open>user aborts of workflow fragments\<close>

lemma throw_helpers_no_abort [simp]:
  "ThrowIfRetryable r \<noteq> Some TUserAbortedException" "ThrowIfBatchRetryable b \<noteq> Some TUserAbortedException"
  "ThrowIfCommitFailed c \<noteq> Some TUserAbortedException" "ThrowIfRollbackFailed c \<noteq> Some TUserAbortedException"
  by (simp_all add: ThrowIfRetryable_def ThrowIfBatchRetryable_def ThrowIfCommitFailed_def ThrowIfRollbackFailed_def)

lemma FailPermanent_aborts [aborts]: "abort_confirmed (FailPermanent c)" "abort_confirmed FailPermanentMsg"
  by (simp_all add: FailPermanent_def FailPermanentMsg_def)

lemma guard_aborts [aborts]:
  "abort_confirmed k \<Longrightarrow> abort_confirmed (guard_op r k)"
  "abort_confirmed k \<Longrightarrow> abort_confirmed (guard_batch b k)"
  "abort_confirmed k \<Longrightarrow> abort_confirmed (guard_commit c k)"
  "abort_confirmed k \<Longrightarrow> abort_confirmed (guard_final f k)"
  by (auto simp: guard_op_def guard_batch_def guard_commit_def guard_final_def FailPermanent_aborts
      split: option.splits)

lemma check_int_aborts [aborts]:
  "(\<And>x. abort_confirmed (g x)) \<Longrightarrow> abort_confirmed (check_int m g)"
  by (simp add: check_int_def split: sum.splits)

lemma get_aborts [aborts]:
  "(\<And>x. abort_confirmed (k1 x)) \<Longrightarrow> abort_confirmed (get_customer p k1)"
  "(\<And>x. abort_confirmed (k2 x)) \<Longrightarrow> abort_confirmed (get_customers p k2)"
  "(\<And>x. abort_confirmed (k3 x)) \<Longrightarrow> abort_confirmed (get_reservation p k3)"
  "(\<And>x. abort_confirmed (k4 x)) \<Longrightarrow> abort_confirmed (get_items p k4)"
  "(\<And>x. abort_confirmed (k5 x)) \<Longrightarrow> abort_confirmed (get_stocks p k5)"
  "(\<And>x. abort_confirmed (k6 x)) \<Longrightarrow> abort_confirmed (get_location p k6)"
  "(\<And>x. abort_confirmed (k7 x)) \<Longrightarrow> abort_confirmed (get_string p k7)"
  "(\<And>x. abort_confirmed (k8 x)) \<Longrightarrow> abort_confirmed (get_order_header p k8)"
  "(\<And>x. abort_confirmed (k9 x)) \<Longrightarrow> abort_confirmed (get_int p k9)"
  "(\<And>x. abort_confirmed (k10 x)) \<Longrightarrow> abort_confirmed (get_delivery_info p k10)"
  by (simp_all add: get_customer_def get_customers_def get_reservation_def get_items_def get_stocks_def
      get_location_def get_string_def get_order_header_def get_int_def get_delivery_info_def
      split: TOperationPayload.splits)

lemma new_order_ops_leaf_aborts:
  "new_order_ops i o' prices stocks n ls = Inl w \<Longrightarrow> abort_confirmed w"
proof (induction i o' prices stocks n ls rule: new_order_ops.induct)
  case (1 i o' prices stocks n)
  then show ?case by simp
next
  case (2 i o' prices stocks n supWh iid qty ls)
  then show ?case
    by (auto simp: aborts map_r_def fun_upd_def split: if_splits option.splits sum.splits)
qed

lemma new_order_finish_aborts [aborts]: "abort_confirmed (new_order_finish u)"
  by (auto simp: new_order_finish_def aborts ThrowIfRollbackFailed_def split: option.splits)

lemma new_order_post_aborts [aborts]: "abort_confirmed (new_order_post i o' prices stocks)"
  using new_order_ops_leaf_aborts
  by (auto simp: new_order_post_def new_order_apply_def Let_def aborts split: sum.splits)

lemma new_order_aborts: "abort_confirmed (new_order_wf i)"
  by (simp add: new_order_wf_def new_order_items_def new_order_stocks_def Let_def aborts)

lemma find_customer_aborts [aborts]:
  "(\<And>c. abort_confirmed (k c)) \<Longrightarrow> abort_confirmed (find_customer b w d n c k)"
  by (simp add: find_customer_def aborts split: option.splits)

lemma delivery_collect_aborts:
  "(\<And>orders. abort_confirmed (k orders)) \<Longrightarrow> abort_confirmed (delivery_collect i ds orders k)"
  by (induction i ds orders k rule: delivery_collect.induct) (simp_all add: aborts)

lemma workflow_aborts: "abort_confirmed (workflow i)"
proof (cases i)
  case (DeliveryInputs d)
  have "abort_confirmed (delivery_apply d orders)" for orders
    by (simp add: delivery_apply_def delivery_finish_def Let_def aborts)
  then show ?thesis using DeliveryInputs by (simp add: delivery_wf_def delivery_collect_aborts)
qed (simp_all add: new_order_aborts payment_wf_def payment_customer_def payment_finish_def
    order_status_wf_def stock_level_wf_def Let_def aborts)

lemma abort_confirmed_run:
  "abort_confirmed w \<Longrightarrow> run ad w t = (Thrown TUserAbortedException, tr, t') \<Longrightarrow>
     \<exists>pre c. tr = pre @ [ExRollback c] \<and> cm_Outcome c = RolledBack"
proof (induction w arbitrary: t tr t' rule: wf_branch_induct)
  case (AwaitRollback k)
  obtain c t1 where a: "ad_Rollback ad t = (c, t1)" by fastforce
  obtain x where x: "k c = Leaf x" using AwaitRollback.prems(1) unfolding abort_confirmed.simps is_leaf_def by blast
  with AwaitRollback.prems a have "x = Thrown TUserAbortedException" "tr = [ExRollback c]" by auto
  moreover have "cm_Outcome c = RolledBack" using AwaitRollback.prems(1) x calculation(1) by simp
  ultimately show ?case by simp
next
  case (AwaitExecute op k)
  obtain r t1 where a: "ad_Execute ad op t = (r, t1)" by fastforce
  obtain tr1 where "run ad (k r) t1 = (Thrown TUserAbortedException, tr1, t')" "tr = ExExecute op r # tr1"
    using AwaitExecute.prems(2) a by (auto split: prod.splits)
  with AwaitExecute show ?case by (metis abort_confirmed.simps(2) append_Cons)
next
  case (AwaitBatch ops k)
  obtain r t1 where a: "ad_ExecuteBatch ad ops t = (r, t1)" by fastforce
  obtain tr1 where "run ad (k r) t1 = (Thrown TUserAbortedException, tr1, t')" "tr = ExBatch ops r # tr1"
    using AwaitBatch.prems(2) a by (auto split: prod.splits)
  with AwaitBatch show ?case by (metis abort_confirmed.simps(3) append_Cons)
next
  case (AwaitFinal op k)
  obtain r t1 where a: "ad_ExecuteFinalAndCommit ad op t = (r, t1)" by fastforce
  obtain tr1 where "run ad (k r) t1 = (Thrown TUserAbortedException, tr1, t')" "tr = ExFinal op r # tr1"
    using AwaitFinal.prems(2) a by (auto split: prod.splits)
  with AwaitFinal show ?case by (metis abort_confirmed.simps(4) append_Cons)
next
  case (AwaitCommit k)
  obtain r t1 where a: "ad_Commit ad t = (r, t1)" by fastforce
  obtain tr1 where "run ad (k r) t1 = (Thrown TUserAbortedException, tr1, t')" "tr = ExCommit r # tr1"
    using AwaitCommit.prems(2) a by (auto split: prod.splits)
  with AwaitCommit show ?case by (metis abort_confirmed.simps(5) append_Cons)
qed simp

section \<open>An adapter for examples\<close>

text \<open>It confirms everything except the lookup of the unused item, and counts the requests.\<close>

definition answer :: "TOperationPayload \<Rightarrow> TOperationResult" where
  "answer p = \<lparr> or_Ok = True, or_ExpectedRows = 1, or_ActualRows = 1, or_ErrorClass = Permanent,
     or_NativeCode = [], or_Message = [], or_Payload = p \<rparr>"

definition item_missing :: TOperationResult where
  "item_missing = \<lparr> or_Ok = False, or_ExpectedRows = 1, or_ActualRows = 0, or_ErrorClass = Integrity,
     or_NativeCode = [], or_Message = [], or_Payload = PNone \<rparr>"

definition outcome :: "ECommitOutcome \<Rightarrow> TCommitResult" where
  "outcome o' = \<lparr> cm_Outcome = o', cm_ErrorClass = Permanent, cm_NativeCode = [], cm_Message = [] \<rparr>"

definition confirming :: "nat adapter" where
  "confirming =
     \<lparr> ad_Execute = (\<lambda>op n. (case op of
           TReserveDistrictOrderId w d \<Rightarrow> answer (PReservation \<lparr> dr_NextOrderID = 3001, dr_DistrictTax = TRate 0 \<rparr>)
         | TGetItems ids \<Rightarrow> (if ids = [INVALID_ITEM_ID] then item_missing else answer (PItems []))
         | _ \<Rightarrow> answer PNone, n + 1)),
       ad_ExecuteBatch = (\<lambda>ops n. (\<lparr> br_Ok = True, br_ErrorClass = Permanent, br_NativeCode = [],
         br_Message = [], br_Results = [] \<rparr>, n + 1)),
       ad_ExecuteFinalAndCommit = (\<lambda>op n.
         (\<lparr> fc_Operation = answer (PInt 7), fc_Commit = outcome Committed \<rparr>, n + 1)),
       ad_Commit = (\<lambda>n. (outcome Committed, n + 1)),
       ad_Rollback = (\<lambda>n. (outcome RolledBack, n + 1)) \<rparr>"

definition unused_item_order :: TNewOrderInputs where
  "unused_item_order = \<lparr> no_WarehouseID = 1, no_DistrictID = 2, no_CustomerID = 3, no_NumItems = 1,
     no_ItemIDs = [INVALID_ITEM_ID], no_SupplierWarehouseIDs = [1], no_OrderQuantities = [4], no_AllLocal = 1 \<rparr>"

lemmas example_run =
  confirming_def answer_def item_missing_def outcome_def unused_item_order_def
  guard_final_def guard_op_def guard_commit_def ThrowIfRetryable_def ThrowIfCommitFailed_def
  ThrowIfRollbackFailed_def IsExpectedItemNotFound_def MayBlindRetry_def IsRetryable_def get_reservation_def

section \<open>Properties\<close>

text \<open>C4: commit discipline of the five TPC-C workflows, against any adapter and any answers. A
  workflow reports success exactly when its exchange ends with a confirmed commit that every
  earlier request preceded successfully; a commit or a rollback is always the last request; and
  no commit is ever requested after a request that failed.\<close>

theorem workflow_commit_discipline:
  assumes "run ad (workflow i) t = (l, tr, t')"
  shows "(l = Success \<longleftrightarrow> (\<exists>pre e. tr = pre @ [e] \<and> ex_commits e \<and> ex_ok e \<and> list_all ex_ok pre)) \<and>
    (\<forall>pre e post. tr = pre @ e # post \<longrightarrow> ex_ends e \<longrightarrow> post = []) \<and>
    (\<forall>pre e post. tr = pre @ e # post \<longrightarrow> \<not> ex_ok e \<longrightarrow> list_all (\<lambda>x. \<not> ex_commits x) post)"
proof -
  have we: "well_ended l tr" using disciplined_run [OF workflow_disciplined assms] .
  have "l = Success" if "tr = pre @ [e]" "ex_commits e" "ex_ok e" for pre e
    using well_ended_committed [OF we, of e] that by simp
  then show ?thesis using well_ended_success we well_ended_last well_ended_failed by metis
qed

theorem workflow_commit_discipline_witness:
  "fst (run confirming (workflow (StockLevelInputs \<lparr> st_WarehouseID = 1, st_DistrictID = 2, st_Threshold = 15 \<rparr>)) 0)
     = Success"
  (is "fst (run _ ?w _) = _")
proof -
  obtain l tr t' where r: "run confirming ?w 0 = (l, tr, t')" by (metis surj_pair)
  have "tr = [] @ [ExFinal (TCountRecentLowStock 1 2 15 20)
      \<lparr> fc_Operation = answer (PInt 7), fc_Commit = outcome Committed \<rparr>]"
    using r by (auto simp: stock_level_wf_def confirming_def guard_final_def guard_op_def guard_commit_def
        ThrowIfRetryable_def ThrowIfCommitFailed_def answer_def outcome_def split: prod.splits if_splits option.splits)
  then have "l = Success"
    using workflow_commit_discipline [OF r]
    by (auto simp: final_confirmed_def answer_def outcome_def intro!: exI [of _ "[]"])
  with r show ?thesis by simp
qed

text \<open>C29: an intentional New-Order rollback is only reported as a user abort after the adapter
  confirmed the rollback as the last exchange; no other workflow reports one.\<close>

theorem user_abort_confirmed:
  assumes "run ad (workflow i) t = (Thrown TUserAbortedException, tr, t')"
  shows "\<exists>pre c. tr = pre @ [ExRollback c] \<and> cm_Outcome c = RolledBack"
  using abort_confirmed_run [OF workflow_aborts assms] .


theorem user_abort_confirmed_witness:
  "\<exists>pre c. fst (snd (run confirming (workflow (NewOrderInputs unused_item_order)) 0)) = pre @ [ExRollback c] \<and>
     cm_Outcome c = RolledBack"
proof -
  have "fst (run confirming (workflow (NewOrderInputs unused_item_order)) 0) = Thrown TUserAbortedException"
    by (simp add: example_run new_order_wf_def new_order_items_def valid_item_ids_def new_order_stocks_def
        new_order_lines_def new_order_post_def new_order_apply_def new_order_finish_def)
  then obtain tr t' where "run confirming (workflow (NewOrderInputs unused_item_order)) 0
      = (Thrown TUserAbortedException, tr, t')"
    by (metis prod.collapse)
  from user_abort_confirmed [OF this] this show ?thesis by simp
qed

end
