(* ===== verification/Pg_Session.thy ===== *)
theory Pg_Session
  imports Transaction_Api
begin

text \<open>
  \<^verbatim>\<open>tpcc/dbms/pgsql/pg_error_classifier.cpp\<close> and \<^verbatim>\<open>pg_session.cpp\<close>: the classification of
  libpqxx exceptions and the session that runs statements inside one lazily opened transaction.
  The combinators of \<^verbatim>\<open>runtime/future_util.h\<close> that chain statements are modelled here too.

  The server is not part of the repository. It is a parameter in two ways: a statement is a
  function on a database value of any type, and a script of replies says, request by request,
  whether the server serves it, raises, or loses the connection, in the case of a commit before or
  after having applied it. What the code relies on is that a failed transaction changes nothing
  and that a commit is applied only when the server got it. The commit and abort of the vendored
  \<^verbatim>\<open>contrib/libs/libpqxx\<close> are modelled as written there.
\<close>

section \<open>Exceptions and their classes\<close>

datatype pqxx_exc =
    BrokenConnection string
  | InDoubt string
  | TransactionRollback string string
  | SqlError string string
  | StdException string

fun what_of :: "pqxx_exc \<Rightarrow> string" where
  "what_of (BrokenConnection m) = m"
| "what_of (InDoubt m) = m"
| "what_of (TransactionRollback st m) = m"
| "what_of (SqlError st m) = m"
| "what_of (StdException m) = m"

fun PgSqlStateOf :: "pqxx_exc \<Rightarrow> string" where
  "PgSqlStateOf (TransactionRollback st m) = st"
| "PgSqlStateOf (SqlError st m) = st"
| "PgSqlStateOf e = []"

fun IsBrokenConnectionException :: "pqxx_exc \<Rightarrow> bool" where
  "IsBrokenConnectionException (BrokenConnection m) = True"
| "IsBrokenConnectionException (InDoubt m) = False"
| "IsBrokenConnectionException (TransactionRollback st m) = (length st \<ge> 2 \<and> take 2 st = ''08'')"
| "IsBrokenConnectionException (SqlError st m) = (length st \<ge> 2 \<and> take 2 st = ''08'')"
| "IsBrokenConnectionException (StdException m) = False"

definition tolower :: "char \<Rightarrow> char" where
  "tolower c = (let n = (of_char c :: nat) in if 65 \<le> n \<and> n \<le> 90 then char_of (n + 32) else c)"

definition ContainsInsensitive :: "string \<Rightarrow> string \<Rightarrow> bool" where
  "ContainsInsensitive hay needle \<longleftrightarrow>
     needle \<noteq> [] \<and> length needle \<le> length hay \<and>
     list_ex (\<lambda>i. map tolower (take (length needle) (drop i hay)) = map tolower needle)
       [0..<length hay - length needle + 1]"

definition PgClassify :: "string \<Rightarrow> string \<Rightarrow> EErrorClass" where
  "PgClassify nativeCode message =
     (if nativeCode \<noteq> [] then ClassifySqlState nativeCode
      else if ContainsInsensitive message ''serialization'' \<or> ContainsInsensitive message ''deadlock''
              \<or> ContainsInsensitive message ''could not serialize''
      then RetryableAbort
      else Permanent)"

fun ClassifyException :: "pqxx_exc \<Rightarrow> EErrorClass" where
  "ClassifyException (TransactionRollback st m) = (if st \<noteq> [] then ClassifySqlState st else RetryableAbort)"
| "ClassifyException (BrokenConnection m) = NotCommitted"
| "ClassifyException (SqlError st m) = (if st \<noteq> [] then PgClassify st m else PgClassify [] m)"
| "ClassifyException (InDoubt m) = PgClassify [] m"
| "ClassifyException (StdException m) = PgClassify [] m"

definition ClassifyCommitException :: "pqxx_exc \<Rightarrow> EErrorClass" where
  "ClassifyCommitException e =
     (case e of
        BrokenConnection m \<Rightarrow> AmbiguousCommit
      | _ \<Rightarrow> let state = PgSqlStateOf e in
          if length state \<ge> 2 \<and> take 2 state = ''08'' then AmbiguousCommit else ClassifyException e)"

lemma ClassifySqlState_not_ambiguous [simp]: "ClassifySqlState st \<noteq> AmbiguousCommit"
  by (simp add: ClassifySqlState_def)

lemma ClassifyException_not_ambiguous [simp]: "ClassifyException e \<noteq> AmbiguousCommit"
  by (cases e) (simp_all add: PgClassify_def)

lemma ClassifyCommitException_ambiguous:
  "ClassifyCommitException e = AmbiguousCommit \<longleftrightarrow> IsBrokenConnectionException e"
  by (cases e) (simp_all add: ClassifyCommitException_def Let_def del: ClassifyException.simps)

section \<open>The session\<close>

text \<open>The transaction object: the working copy, or a transaction the server has aborted.\<close>

datatype 'db txn = TxActive 'db | TxFailed

text \<open>What the server does with the next request: serve it, fail to open the transaction, raise
  without effect, or lose the connection before (\<open>Lost False\<close>) or after (\<open>Lost True\<close>) it has taken
  effect. The shutdown flag of the pool may be set between two requests.\<close>

datatype reply =
    Served
  | BeginRaised pqxx_exc
  | Raised pqxx_exc
  | Lost bool
  | ShutdownRequested

record 'db PgSession =
  ss_disk :: 'db
  ss_txn :: "'db txn option"
  ss_open :: bool
  ss_broken :: bool
  ss_shutdown :: bool
  ss_script :: "reply list"

definition next_reply :: "'db PgSession \<Rightarrow> reply \<times> 'db PgSession" where
  "next_reply s =
     (case ss_script s of
        [] \<Rightarrow> (Served, s)
      | r # rs \<Rightarrow> (r, s \<lparr> ss_script := rs, ss_shutdown := ss_shutdown s \<or> r = ShutdownRequested \<rparr>))"

definition MarkException :: "pqxx_exc \<Rightarrow> 'db PgSession \<Rightarrow> 'db PgSession" where
  "MarkException e s = (if IsBrokenConnectionException e then s \<lparr> ss_broken := True \<rparr> else s)"

definition CheckShutdown :: "'db PgSession \<Rightarrow> pqxx_exc option" where
  "CheckShutdown s = (if ss_shutdown s then Some (StdException ''session shutdown'') else None)"

definition InFailedTransaction :: pqxx_exc where
  "InFailedTransaction = SqlError ''25P02'' ''current transaction is aborted''"

definition ConnectionLost :: pqxx_exc where
  "ConnectionLost = BrokenConnection ''Lost connection to the database server.''"

definition raise_in :: "pqxx_exc \<Rightarrow> 'db txn option \<Rightarrow> 'db PgSession \<Rightarrow> (pqxx_exc + 'a) \<times> 'db PgSession" where
  "raise_in e t s = (Inl e, MarkException e (s \<lparr> ss_txn := t \<rparr>))"

text \<open>\<^verbatim>\<open>ExecuteQuery\<close> and \<^verbatim>\<open>ExecuteModify\<close> differ only in what they read from the result.\<close>

definition exec_sql :: "('db \<Rightarrow> pqxx_exc + 'a \<times> 'db) \<Rightarrow> 'db PgSession \<Rightarrow> (pqxx_exc + 'a) \<times> 'db PgSession" where
  "exec_sql stmt s0 =
     (let (r, s) = next_reply s0 in
      case CheckShutdown s of
        Some e \<Rightarrow> raise_in e (ss_txn s) s
      | None \<Rightarrow>
          if \<not> ss_open s then raise_in ConnectionLost (ss_txn s) s
          else
          (case r of
             BeginRaised e \<Rightarrow> raise_in e (if ss_txn s = None then None else Some TxFailed) s
           | Raised e \<Rightarrow> raise_in e (Some TxFailed) s
           | Lost b \<Rightarrow> raise_in ConnectionLost (Some TxFailed) (s \<lparr> ss_open := False \<rparr>)
           | _ \<Rightarrow>
               (case (case ss_txn s of None \<Rightarrow> TxActive (ss_disk s) | Some t \<Rightarrow> t) of
                  TxFailed \<Rightarrow> raise_in InFailedTransaction (Some TxFailed) s
                | TxActive db \<Rightarrow>
                    (case stmt db of
                       Inl e \<Rightarrow> raise_in e (Some TxFailed) s
                     | Inr (a, db') \<Rightarrow> (Inr a, s \<lparr> ss_txn := Some (TxActive db') \<rparr>)))))"

definition ExecuteQuery :: "('db \<Rightarrow> 'a) \<Rightarrow> 'db PgSession \<Rightarrow> (pqxx_exc + 'a) \<times> 'db PgSession" where
  "ExecuteQuery q = exec_sql (\<lambda>db. Inr (q db, db))"

definition ExecuteModify :: "('db \<Rightarrow> pqxx_exc + nat \<times> 'db) \<Rightarrow> 'db PgSession \<Rightarrow> (pqxx_exc + nat) \<times> 'db PgSession" where
  "ExecuteModify m = exec_sql m"

text \<open>\<^verbatim>\<open>transaction_base::commit\<close> and \<^verbatim>\<open>basic_transaction::do_commit\<close> of libpqxx. An exception on a
  connection that is no longer open, or SQLSTATE 40003, becomes \<^verbatim>\<open>in_doubt_error\<close>. The server
  answers a commit of an aborted transaction with a rollback and no error.\<close>

definition InDoubtLost :: pqxx_exc where
  "InDoubtLost = InDoubt
     (''WARNING: Connection lost while committing transaction . There is no way to tell whether ''
      @ ''the transaction succeeded or was aborted except to check manually.'')"

definition InDoubtUnknown :: pqxx_exc where
  "InDoubtUnknown = InDoubt
     (''WARNING: Commit of transaction is unknown. There is no way to tell whether ''
      @ ''the transaction succeeded or was aborted except to check manually.'')"

definition pqxx_commit :: "'db txn \<Rightarrow> 'db PgSession \<Rightarrow> (pqxx_exc + unit) \<times> 'db PgSession" where
  "pqxx_commit t s0 =
     (if \<not> ss_open s0
      then (Inl (BrokenConnection ''Broken connection to backend; cannot complete transaction.''), s0)
      else
        let (r, s) = next_reply s0;
            applied = (case t of TxActive db \<Rightarrow> s \<lparr> ss_disk := db \<rparr> | TxFailed \<Rightarrow> s) in
        case r of
          BeginRaised e \<Rightarrow> (Inl (if PgSqlStateOf e = ''40003'' then InDoubtUnknown else e), s)
        | Raised e \<Rightarrow> (Inl (if PgSqlStateOf e = ''40003'' then InDoubtUnknown else e), s)
        | Lost b \<Rightarrow> (Inl InDoubtLost, (if b then applied else s) \<lparr> ss_open := False \<rparr>)
        | _ \<Rightarrow> (Inr (), applied))"

text \<open>\<^verbatim>\<open>transaction_base::abort\<close> swallows what \<^verbatim>\<open>ROLLBACK\<close> raises.\<close>

definition pqxx_abort :: "'db PgSession \<Rightarrow> 'db PgSession" where
  "pqxx_abort s0 = (let (r, s) = next_reply s0 in case r of Lost b \<Rightarrow> s \<lparr> ss_open := False \<rparr> | _ \<Rightarrow> s)"

definition session_Commit :: "'db PgSession \<Rightarrow> (pqxx_exc + unit) \<times> 'db PgSession" where
  "session_Commit s =
     (case CheckShutdown s of
        Some e \<Rightarrow> raise_in e None s
      | None \<Rightarrow>
          (case ss_txn s of
             None \<Rightarrow> (Inr (), s)
           | Some t \<Rightarrow>
               (case pqxx_commit t s of
                  (Inr u, s') \<Rightarrow> (Inr (), s' \<lparr> ss_txn := None \<rparr>)
                | (Inl e, s') \<Rightarrow> raise_in e None s')))"

definition session_Rollback :: "'db PgSession \<Rightarrow> (pqxx_exc + unit) \<times> 'db PgSession" where
  "session_Rollback s =
     (case ss_txn s of None \<Rightarrow> (Inr (), s) | Some t \<Rightarrow> (Inr (), (pqxx_abort s) \<lparr> ss_txn := None \<rparr>))"

definition IsReusable :: "'db PgSession \<Rightarrow> bool" where
  "IsReusable s \<longleftrightarrow> \<not> ss_broken s \<and> ss_open s"

definition ReleaseConnection :: "'db PgSession \<Rightarrow> bool \<times> 'db PgSession" where
  "ReleaseConnection s =
     (let s' = (case ss_txn s of None \<Rightarrow> s | Some t \<Rightarrow> (pqxx_abort s) \<lparr> ss_txn := None \<rparr>) in (IsReusable s', s'))"

section \<open>Chaining statements\<close>

type_synonym ('db, 'a) io = "'db PgSession \<Rightarrow> (pqxx_exc + 'a) \<times> 'db PgSession"

definition MakeReadyFuture :: "'a \<Rightarrow> ('db, 'a) io" where
  "MakeReadyFuture a s = (Inr a, s)"

definition Then :: "('db, 'a) io \<Rightarrow> ('a \<Rightarrow> ('db, 'b) io) \<Rightarrow> ('db, 'b) io" where
  "Then src fn s = (case src s of (Inl e, s') \<Rightarrow> (Inl e, s') | (Inr v, s') \<Rightarrow> fn v s')"

definition CatchToValue :: "('db, 'a) io \<Rightarrow> (pqxx_exc \<Rightarrow> 'a) \<Rightarrow> 'db PgSession \<Rightarrow> 'a \<times> 'db PgSession" where
  "CatchToValue src handler s = (case src s of (Inl e, s') \<Rightarrow> (handler e, s') | (Inr v, s') \<Rightarrow> (v, s'))"

primrec ThenFold :: "'i list \<Rightarrow> 'acc \<Rightarrow> ('acc \<Rightarrow> 'i \<Rightarrow> ('db, 'acc) io) \<Rightarrow> ('db, 'acc) io" where
  "ThenFold [] acc step = MakeReadyFuture acc"
| "ThenFold (x # xs) acc step = Then (step acc x) (\<lambda>nxt. ThenFold xs nxt step)"

text \<open>Undefined signed arithmetic between two statements stops the chain.\<close>

definition of_result :: "'a result \<Rightarrow> ('db, 'a) io" where
  "of_result r s = (case r of Inl e \<Rightarrow> (Inl (StdException ''undefined behaviour''), s) | Inr a \<Rightarrow> (Inr a, s))"

section \<open>What a chain of statements does\<close>

text \<open>The database a transaction sees: its snapshot or its working copy.\<close>

definition view :: "'db PgSession \<Rightarrow> 'db option" where
  "view s = (case ss_txn s of None \<Rightarrow> Some (ss_disk s) | Some (TxActive db) \<Rightarrow> Some db | Some TxFailed \<Rightarrow> None)"

text \<open>No request takes effect on a connection that is then lost.\<close>

definition no_lost_effect :: "reply list \<Rightarrow> bool" where
  "no_lost_effect rs \<longleftrightarrow> list_all (\<lambda>r. r \<noteq> Lost True) rs"

text \<open>A session on which the server serves everything.\<close>

definition clean :: "'db \<Rightarrow> 'db \<Rightarrow> 'db PgSession" where
  "clean d w = \<lparr> ss_disk = d, ss_txn = Some (TxActive w), ss_open = True, ss_broken = False, ss_shutdown = False, ss_script = [] \<rparr>"

text \<open>A chain never touches the committed database, and when it returns a value it has done on the
  working copy exactly what it does when the server serves every request.\<close>

definition faithful :: "('db, 'a) io \<Rightarrow> bool" where
  "faithful m \<longleftrightarrow>
     (\<forall>s. ss_disk (snd (m s)) = ss_disk s \<and>
          (no_lost_effect (ss_script s) \<longrightarrow> no_lost_effect (ss_script (snd (m s)))) \<and>
          (\<forall>a s' w. m s = (Inr a, s') \<and> view s = Some w \<longrightarrow>
             (\<exists>w'. view s' = Some w' \<and> (\<forall>d. m (clean d w) = (Inr a, clean d w')))))"

named_theorems faithful_intros \<open>chains of statements are faithful\<close>

lemma next_reply_facts:
  "next_reply s = (r, s') \<Longrightarrow> ss_disk s' = ss_disk s \<and> ss_txn s' = ss_txn s \<and> ss_open s' = ss_open s \<and>
     (no_lost_effect (ss_script s) \<longrightarrow> no_lost_effect (ss_script s') \<and> r \<noteq> Lost True) \<and>
     (\<not> ss_shutdown s' \<longrightarrow> r \<noteq> ShutdownRequested)"
  by (auto simp: next_reply_def no_lost_effect_def split: list.splits)

lemma MarkException_simps [simp]:
  "ss_disk (MarkException e s) = ss_disk s" "ss_txn (MarkException e s) = ss_txn s"
  "ss_script (MarkException e s) = ss_script s" "ss_shutdown (MarkException e s) = ss_shutdown s"
  by (simp_all add: MarkException_def)

lemma raise_in_simps [simp]:
  "raise_in e t s = (Inr a, s') \<longleftrightarrow> False"
  "fst (raise_in e t s) = Inl e"
  "ss_disk (snd (raise_in e t s)) = ss_disk s" "ss_script (snd (raise_in e t s)) = ss_script s"
  "ss_txn (snd (raise_in e t s)) = t"
  by (simp_all add: raise_in_def)

lemma exec_sql_clean [simp]:
  "exec_sql stmt (clean d w) =
     (case stmt w of
        Inl e \<Rightarrow> raise_in e (Some TxFailed) (clean d w)
      | Inr (a, w') \<Rightarrow> (Inr a, clean d w'))"
  by (auto simp: exec_sql_def clean_def next_reply_def CheckShutdown_def split: sum.splits)

lemma exec_sql_served:
  assumes "exec_sql stmt s0 = (Inr a, s')" "view s0 = Some w"
  shows "\<exists>w'. stmt w = Inr (a, w') \<and> view s' = Some w'"
proof -
  obtain r s where n: "next_reply s0 = (r, s)" by fastforce
  note f = next_reply_facts [OF n]
  have "CheckShutdown s = None" using assms(1) n by (auto simp: exec_sql_def split: option.splits)
  then have "(case ss_txn s of None \<Rightarrow> TxActive (ss_disk s) | Some t \<Rightarrow> t) = TxActive w"
    using assms n f by (auto simp: exec_sql_def view_def split: reply.splits option.splits txn.splits)
  with assms(1) n \<open>CheckShutdown s = None\<close> show ?thesis
    by (auto simp: exec_sql_def view_def split: if_splits reply.splits sum.splits)
qed

lemma exec_sql_keeps:
  "ss_disk (snd (exec_sql stmt s)) = ss_disk s \<and> (no_lost_effect (ss_script s) \<longrightarrow> no_lost_effect (ss_script (snd (exec_sql stmt s))))"
proof -
  obtain r s1 where n: "next_reply s = (r, s1)" by fastforce
  note f = next_reply_facts [OF n]
  have "ss_disk (snd (exec_sql stmt s)) = ss_disk s1 \<and> ss_script (snd (exec_sql stmt s)) = ss_script s1"
    by (simp add: exec_sql_def n split: option.split reply.split txn.split sum.split)
  with f show ?thesis by simp
qed

lemma faithful_exec_sql: "faithful (exec_sql stmt)"
  unfolding faithful_def
proof (intro allI conjI impI)
  fix s a s' w
  assume "exec_sql stmt s = (Inr a, s') \<and> view s = Some w"
  then obtain w' where "stmt w = Inr (a, w')" "view s' = Some w'"
    using exec_sql_served [of stmt s a s' w] by auto
  then show "\<exists>w'. view s' = Some w' \<and> (\<forall>d. exec_sql stmt (clean d w) = (Inr a, clean d w'))" by simp
qed (simp_all add: exec_sql_keeps)

lemma faithful_execute [faithful_intros]: "faithful (ExecuteQuery q)" "faithful (ExecuteModify m)"
  by (simp_all add: ExecuteQuery_def ExecuteModify_def faithful_exec_sql)

lemma faithful_ready [faithful_intros]: "faithful (MakeReadyFuture a)"
  by (simp add: faithful_def MakeReadyFuture_def)

lemma faithful_of_result [faithful_intros]: "faithful (of_result r)"
  by (simp add: faithful_def of_result_def split: sum.splits)

lemma faithful_disk: "faithful m \<Longrightarrow> m s = (x, s') \<Longrightarrow> ss_disk s' = ss_disk s \<and> (no_lost_effect (ss_script s) \<longrightarrow> no_lost_effect (ss_script s'))"
  unfolding faithful_def by (metis snd_conv)

lemma faithful_view:
  "faithful m \<Longrightarrow> m s = (Inr a, s') \<Longrightarrow> view s = Some w \<Longrightarrow>
     \<exists>w'. view s' = Some w' \<and> (\<forall>d. m (clean d w) = (Inr a, clean d w'))"
  unfolding faithful_def by blast

lemma faithful_Then [faithful_intros]:
  assumes m: "faithful m" and k: "\<And>x. faithful (k x)"
  shows "faithful (Then m k)"
  unfolding faithful_def
proof (intro allI)
  fix s
  obtain x s1 where ms: "m s = (x, s1)" by fastforce
  note d1 = faithful_disk [OF m ms]
  show "ss_disk (snd (Then m k s)) = ss_disk s \<and>
        (no_lost_effect (ss_script s) \<longrightarrow> no_lost_effect (ss_script (snd (Then m k s)))) \<and>
        (\<forall>a s' w. Then m k s = (Inr a, s') \<and> view s = Some w \<longrightarrow>
           (\<exists>w'. view s' = Some w' \<and> (\<forall>d. Then m k (clean d w) = (Inr a, clean d w'))))"
  proof (cases x)
    case (Inl e)
    with ms d1 show ?thesis by (simp add: Then_def)
  next
    case (Inr v)
    obtain y s2 where kv: "k v s1 = (y, s2)" by fastforce
    have eq: "Then m k s = (y, s2)" by (simp add: Then_def ms Inr kv)
    note d2 = faithful_disk [OF k kv]
    {
      fix a w
      assume "y = Inr a" "view s = Some w"
      obtain w1 where w1: "view s1 = Some w1" "\<And>d. m (clean d w) = (Inr v, clean d w1)"
        using faithful_view [OF m] ms Inr \<open>view s = Some w\<close> by blast
      obtain w2 where w2: "view s2 = Some w2" "\<And>d. k v (clean d w1) = (Inr a, clean d w2)"
        using faithful_view [OF k] kv \<open>y = Inr a\<close> w1(1) by blast
      have "\<exists>w'. view s2 = Some w' \<and> (\<forall>d. Then m k (clean d w) = (Inr a, clean d w'))"
        using w1(2) w2 by (auto simp: Then_def)
    }
    with eq d1 d2 show ?thesis by simp
  qed
qed

lemma faithful_ThenFold [faithful_intros]:
  "(\<And>acc x. faithful (step acc x)) \<Longrightarrow> faithful (ThenFold xs acc step)"
  by (induction xs arbitrary: acc) (simp_all add: faithful_intros)

lemma faithful_if [faithful_intros]: "faithful m \<Longrightarrow> faithful n \<Longrightarrow> faithful (if b then m else n)"
  by simp

lemma faithful_case_option [faithful_intros]:
  "faithful m \<Longrightarrow> (\<And>x. faithful (k x)) \<Longrightarrow> faithful (case x of None \<Rightarrow> m | Some y \<Rightarrow> k y)"
  by (simp split: option.splits)

lemma clean_view [simp]: "view (clean d w) = Some w"
  by (simp add: view_def clean_def)

lemma clean_eq [simp]: "clean d w = clean d w' \<longleftrightarrow> w = w'"
  by (simp add: clean_def)

lemma io_clean [simp]:
  "MakeReadyFuture a s = (Inr a, s)"
  "ExecuteQuery q (clean d w) = (Inr (q w), clean d w)"
  "ExecuteModify m (clean d w) =
     (case m w of Inl e \<Rightarrow> raise_in e (Some TxFailed) (clean d w) | Inr (n, w') \<Rightarrow> (Inr n, clean d w'))"
  by (simp_all add: MakeReadyFuture_def ExecuteQuery_def ExecuteModify_def)

section \<open>Commit and rollback\<close>

lemma pqxx_commit_cases:
  assumes "pqxx_commit t s = (x, s')" "ss_txn s = Some t"
  shows "(\<exists>u. x = Inr u \<and> (view s = Some (ss_disk s') \<or> view s = None \<and> ss_disk s' = ss_disk s)) \<or>
     (\<exists>e. x = Inl e \<and> (ss_disk s' = ss_disk s \<or> view s = Some (ss_disk s') \<and> \<not> no_lost_effect (ss_script s)))"
proof -
  obtain r s1 where n: "next_reply s = (r, s1)" by fastforce
  note f = next_reply_facts [OF n]
  show ?thesis
    using assms f n by (cases r; cases t) (auto simp: pqxx_commit_def view_def split: if_splits)
qed

lemma session_Commit_cases:
  assumes "session_Commit s = (x, s')"
  shows "(x = Inr () \<and> (view s = Some (ss_disk s') \<or> view s = None \<and> ss_disk s' = ss_disk s)) \<or>
     (\<exists>e. x = Inl e \<and> (ss_disk s' = ss_disk s \<or> view s = Some (ss_disk s') \<and> \<not> no_lost_effect (ss_script s)))"
proof (cases "CheckShutdown s")
  case (Some e)
  then show ?thesis using assms by (auto simp: session_Commit_def raise_in_def)
next
  case None
  show ?thesis
  proof (cases "ss_txn s")
    case no_txn: None
    then show ?thesis using assms None by (auto simp: session_Commit_def view_def)
  next
    case (Some t)
    obtain y s1 where c: "pqxx_commit t s = (y, s1)" by fastforce
    from pqxx_commit_cases [OF c Some] show ?thesis
      using assms None Some c by (cases y) (auto simp: session_Commit_def raise_in_def)
  qed
qed

lemma pqxx_abort_keeps:
  "ss_disk (pqxx_abort s) = ss_disk s"
  "no_lost_effect (ss_script s) \<Longrightarrow> no_lost_effect (ss_script (pqxx_abort s))"
proof -
  obtain r s1 where n: "next_reply s = (r, s1)" by fastforce
  note f = next_reply_facts [OF n]
  show "ss_disk (pqxx_abort s) = ss_disk s"
    "no_lost_effect (ss_script s) \<Longrightarrow> no_lost_effect (ss_script (pqxx_abort s))"
    using f by (simp_all add: pqxx_abort_def n split: reply.split)
qed

lemma session_Rollback_simp:
  "fst (session_Rollback s) = Inr ()" "ss_disk (snd (session_Rollback s)) = ss_disk s"
  "no_lost_effect (ss_script s) \<Longrightarrow> no_lost_effect (ss_script (snd (session_Rollback s)))"
  by (simp_all add: session_Rollback_def pqxx_abort_keeps split: option.split)

text \<open>A session goes back to the pool without a transaction and without having committed.\<close>

lemma ReleaseConnection_simp:
  "ss_txn (snd (ReleaseConnection s)) = None" "ss_disk (snd (ReleaseConnection s)) = ss_disk s"
  by (simp_all add: ReleaseConnection_def Let_def pqxx_abort_keeps split: option.split)

end
