(* ===== verification/Pg_Store.thy ===== *)
theory Pg_Store
  imports Pg_Session "HOL-Library.List_Lexorder" "HOL-Library.Char_ord"
begin

text \<open>
  The schema of \<^verbatim>\<open>tpcc/dbms/pgsql/init.cpp\<close> and the meaning of the SQL statements the adapter
  sends. A table is the list of its rows; amounts of type \<^verbatim>\<open>decimal(_, 2)\<close> are counted in cents.
  \<^verbatim>\<open>SELECT ... WHERE\<close> is a filter, \<^verbatim>\<open>UPDATE\<close> and \<^verbatim>\<open>DELETE\<close> report the number of rows they touch,
  and an \<^verbatim>\<open>INSERT\<close> that violates the primary key raises.
\<close>

section \<open>Rows\<close>

record warehouse_row =
  w_id :: int
  w_ytd :: int
  w_tax :: int
  w_name :: string
  w_street_1 :: string
  w_street_2 :: string
  w_city :: string
  w_state :: string
  w_zip :: string

record item_row =
  i_id :: int
  i_name :: string
  i_price :: int
  i_data :: string
  i_im_id :: int

record stock_row =
  s_w_id :: int
  s_i_id :: int
  s_quantity :: int
  s_ytd :: int
  s_order_cnt :: int
  s_remote_cnt :: int
  s_data :: string
  s_dist :: "string list"

record district_row =
  d_w_id :: int
  d_id :: int
  d_ytd :: int
  d_tax :: int
  d_next_o_id :: int
  d_name :: string
  d_street_1 :: string
  d_street_2 :: string
  d_city :: string
  d_state :: string
  d_zip :: string

record customer_row =
  c_w_id :: int
  c_d_id :: int
  c_id :: int
  c_discount :: int
  c_credit :: string
  c_last :: string
  c_first :: string
  c_credit_lim :: int
  c_balance :: int
  c_ytd_payment :: int
  c_payment_cnt :: int
  c_delivery_cnt :: int
  c_street_1 :: string
  c_street_2 :: string
  c_city :: string
  c_state :: string
  c_zip :: string
  c_phone :: string
  c_since :: string
  c_middle :: string
  c_data :: string

record history_row =
  h_c_id :: int
  h_c_d_id :: int
  h_c_w_id :: int
  h_d_id :: int
  h_w_id :: int
  h_date :: string
  h_amount :: int
  h_data :: string

record oorder_row =
  o_w_id :: int
  o_d_id :: int
  o_id :: int
  o_c_id :: int
  o_carrier_id :: "int option"
  o_ol_cnt :: int
  o_all_local :: int
  o_entry_d :: string

record new_order_row =
  no_w_id :: int
  no_d_id :: int
  no_o_id :: int

record order_line_row =
  ol_w_id :: int
  ol_d_id :: int
  ol_o_id :: int
  ol_number :: int
  ol_i_id :: int
  ol_delivery_d :: "string option"
  ol_amount :: int
  ol_supply_w_id :: int
  ol_quantity :: int
  ol_dist_info :: string

text \<open>The database; \<open>current_timestamp\<close> and the sort keys of its collation are parameters of the
  server.\<close>

record pg_db =
  warehouse :: "warehouse_row list"
  item :: "item_row list"
  stock :: "stock_row list"
  district :: "district_row list"
  customer :: "customer_row list"
  history :: "history_row list"
  oorder :: "oorder_row list"
  new_order :: "new_order_row list"
  order_line :: "order_line_row list"
  current_timestamp :: string
  collation_key :: "string \<Rightarrow> string"

section \<open>Keys\<close>

definition d_key :: "district_row \<Rightarrow> int \<times> int" where
  "d_key d = (d_w_id d, d_id d)"

definition s_key :: "stock_row \<Rightarrow> int \<times> int" where
  "s_key s = (s_w_id s, s_i_id s)"

definition c_key :: "customer_row \<Rightarrow> int \<times> int \<times> int" where
  "c_key c = (c_w_id c, c_d_id c, c_id c)"

definition o_key :: "oorder_row \<Rightarrow> int \<times> int \<times> int" where
  "o_key x = (o_w_id x, o_d_id x, o_id x)"

definition no_key :: "new_order_row \<Rightarrow> int \<times> int \<times> int" where
  "no_key n = (no_w_id n, no_d_id n, no_o_id n)"

definition ol_order :: "order_line_row \<Rightarrow> int \<times> int \<times> int" where
  "ol_order l = (ol_w_id l, ol_d_id l, ol_o_id l)"

definition ol_key :: "order_line_row \<Rightarrow> (int \<times> int \<times> int) \<times> int" where
  "ol_key l = (ol_order l, ol_number l)"

definition h_customer :: "history_row \<Rightarrow> int \<times> int \<times> int" where
  "h_customer h = (h_c_w_id h, h_c_d_id h, h_c_id h)"

definition o_customer :: "oorder_row \<Rightarrow> int \<times> int \<times> int" where
  "o_customer x = (o_w_id x, o_d_id x, o_c_id x)"

text \<open>The primary keys of the schema.\<close>

definition primary_keys :: "pg_db \<Rightarrow> bool" where
  "primary_keys db \<longleftrightarrow>
     distinct (map w_id (warehouse db)) \<and> distinct (map i_id (item db)) \<and> distinct (map s_key (stock db)) \<and>
     distinct (map d_key (district db)) \<and> distinct (map c_key (customer db)) \<and>
     distinct (map o_key (oorder db)) \<and> distinct (map no_key (new_order db)) \<and>
     distinct (map ol_key (order_line db))"

section \<open>Statements\<close>

definition UniqueViolation :: pqxx_exc where
  "UniqueViolation = SqlError ''23505'' ''duplicate key value violates unique constraint''"

definition update_where :: "('r \<Rightarrow> bool) \<Rightarrow> ('r \<Rightarrow> 'r) \<Rightarrow> 'r list \<Rightarrow> 'r list" where
  "update_where P f t = map (\<lambda>r. if P r then f r else r) t"

definition affected :: "('r \<Rightarrow> bool) \<Rightarrow> 'r list \<Rightarrow> nat" where
  "affected P t = length (filter P t)"

definition insert_row :: "('r \<Rightarrow> 'k) \<Rightarrow> 'r \<Rightarrow> 'r list \<Rightarrow> 'r list option" where
  "insert_row key r t = (if key r \<in> set (map key t) then None else Some (t @ [r]))"

definition update_district :: "(int \<times> int) \<Rightarrow> (district_row \<Rightarrow> district_row) \<Rightarrow> pg_db \<Rightarrow> pqxx_exc + nat \<times> pg_db" where
  "update_district k f db =
     Inr (affected (\<lambda>d. d_key d = k) (district db), db \<lparr> district := update_where (\<lambda>d. d_key d = k) f (district db) \<rparr>)"

definition update_warehouse :: "int \<Rightarrow> (warehouse_row \<Rightarrow> warehouse_row) \<Rightarrow> pg_db \<Rightarrow> pqxx_exc + nat \<times> pg_db" where
  "update_warehouse w f db =
     Inr (affected (\<lambda>r. w_id r = w) (warehouse db), db \<lparr> warehouse := update_where (\<lambda>r. w_id r = w) f (warehouse db) \<rparr>)"

definition update_customer :: "(int \<times> int \<times> int) \<Rightarrow> (customer_row \<Rightarrow> customer_row) \<Rightarrow> pg_db \<Rightarrow> pqxx_exc + nat \<times> pg_db" where
  "update_customer k f db =
     Inr (affected (\<lambda>c. c_key c = k) (customer db), db \<lparr> customer := update_where (\<lambda>c. c_key c = k) f (customer db) \<rparr>)"

definition update_stock :: "(int \<times> int) \<Rightarrow> (stock_row \<Rightarrow> stock_row) \<Rightarrow> pg_db \<Rightarrow> pqxx_exc + nat \<times> pg_db" where
  "update_stock k f db =
     Inr (affected (\<lambda>s. s_key s = k) (stock db), db \<lparr> stock := update_where (\<lambda>s. s_key s = k) f (stock db) \<rparr>)"

definition update_oorder :: "(int \<times> int \<times> int) \<Rightarrow> (oorder_row \<Rightarrow> oorder_row) \<Rightarrow> pg_db \<Rightarrow> pqxx_exc + nat \<times> pg_db" where
  "update_oorder k f db =
     Inr (affected (\<lambda>x. o_key x = k) (oorder db), db \<lparr> oorder := update_where (\<lambda>x. o_key x = k) f (oorder db) \<rparr>)"

definition update_order_lines :: "(int \<times> int \<times> int) \<Rightarrow> (order_line_row \<Rightarrow> order_line_row) \<Rightarrow> pg_db \<Rightarrow> pqxx_exc + nat \<times> pg_db" where
  "update_order_lines k f db =
     Inr (affected (\<lambda>l. ol_order l = k) (order_line db),
          db \<lparr> order_line := update_where (\<lambda>l. ol_order l = k) f (order_line db) \<rparr>)"

definition delete_new_order :: "(int \<times> int \<times> int) \<Rightarrow> pg_db \<Rightarrow> pqxx_exc + nat \<times> pg_db" where
  "delete_new_order k db =
     Inr (affected (\<lambda>n. no_key n = k) (new_order db), db \<lparr> new_order := filter (\<lambda>n. no_key n \<noteq> k) (new_order db) \<rparr>)"

definition insert_oorder :: "oorder_row \<Rightarrow> pg_db \<Rightarrow> pqxx_exc + nat \<times> pg_db" where
  "insert_oorder r db =
     (case insert_row o_key r (oorder db) of None \<Rightarrow> Inl UniqueViolation | Some t \<Rightarrow> Inr (1, db \<lparr> oorder := t \<rparr>))"

definition insert_new_order :: "new_order_row \<Rightarrow> pg_db \<Rightarrow> pqxx_exc + nat \<times> pg_db" where
  "insert_new_order r db =
     (case insert_row no_key r (new_order db) of None \<Rightarrow> Inl UniqueViolation | Some t \<Rightarrow> Inr (1, db \<lparr> new_order := t \<rparr>))"

definition insert_order_line :: "order_line_row \<Rightarrow> pg_db \<Rightarrow> pqxx_exc + nat \<times> pg_db" where
  "insert_order_line r db =
     (case insert_row ol_key r (order_line db) of None \<Rightarrow> Inl UniqueViolation | Some t \<Rightarrow> Inr (1, db \<lparr> order_line := t \<rparr>))"

text \<open>The history table has a generated key.\<close>

definition insert_history :: "history_row \<Rightarrow> pg_db \<Rightarrow> pqxx_exc + nat \<times> pg_db" where
  "insert_history r db = Inr (1, db \<lparr> history := history db @ [r] \<rparr>)"

text \<open>\<^verbatim>\<open>ORDER BY ... ASC LIMIT 1\<close> and \<^verbatim>\<open>DESC LIMIT 1\<close>.\<close>

definition first_by :: "('r \<Rightarrow> int) \<Rightarrow> 'r list \<Rightarrow> 'r option" where
  "first_by f t = (case t of [] \<Rightarrow> None | r # rs \<Rightarrow> Some (foldl (\<lambda>m x. if f x < f m then x else m) r rs))"

definition last_by :: "('r \<Rightarrow> int) \<Rightarrow> 'r list \<Rightarrow> 'r option" where
  "last_by f t = (case t of [] \<Rightarrow> None | r # rs \<Rightarrow> Some (foldl (\<lambda>m x. if f m < f x then x else m) r rs))"

section \<open>Table lemmas\<close>

named_theorems table_simps \<open>reasoning about table updates\<close>

lemma update_where_Nil [simp]: "update_where P f [] = []"
  by (simp add: update_where_def)

lemma update_where_Cons [simp]: "update_where P f (r # t) = (if P r then f r else r) # update_where P f t"
  by (simp add: update_where_def)

lemma affected_simps [simp]:
  "affected P [] = 0" "affected P (r # t) = (if P r then Suc (affected P t) else affected P t)"
  by (simp_all add: affected_def)

lemma affected_0: "affected P t = 0 \<longleftrightarrow> (\<forall>r \<in> set t. \<not> P r)"
  by (simp add: affected_def filter_empty_conv)

lemma update_where_id: "affected P t = 0 \<Longrightarrow> update_where P f t = t"
  by (induction t) (auto split: if_splits)

lemma map_update_where [table_simps]:
  "(\<And>r. P r \<Longrightarrow> g (f r) = g r) \<Longrightarrow> map g (update_where P f t) = map g t"
  by (induction t) simp_all

lemma filter_update_where [table_simps]:
  "(\<And>r. P r \<Longrightarrow> Q (f r) = Q r) \<Longrightarrow> filter Q (update_where P f t) = update_where P f (filter Q t)"
  by (induction t) simp_all

lemma set_update_where: "set (update_where P f t) = {if P r then f r else r | r. r \<in> set t}"
  by (auto simp: update_where_def)

text \<open>Adding an amount to the single row a key selects adds it to the sum over every selection that
  contains the row.\<close>

lemma sum_update_where:
  fixes g :: "'r \<Rightarrow> int"
  assumes "\<And>r. P r \<Longrightarrow> g (f r) = g r + a"
  shows "sum_list (map g (update_where P f t)) = sum_list (map g t) + a * int (affected P t)"
  using assms by (induction t) (auto simp: algebra_simps)

lemma affected_filter: "(\<And>r. P r \<Longrightarrow> Q r) \<Longrightarrow> affected P (filter Q t) = affected P t"
  by (induction t) auto

lemma affected_filter_none: "(\<And>r. P r \<Longrightarrow> \<not> Q r) \<Longrightarrow> affected P (filter Q t) = 0"
  by (induction t) auto

lemma affected_key: "distinct (map key t) \<Longrightarrow> affected (\<lambda>r. key r = k) t = (if k \<in> key ` set t then 1 else 0)"
  by (induction t) (auto simp: affected_0)

lemma insert_row_Some:
  "insert_row key r t = Some t' \<longleftrightarrow> key r \<notin> key ` set t \<and> t' = t @ [r]"
  by (auto simp: insert_row_def)

lemma foldl_min:
  fixes f :: "'r \<Rightarrow> int"
  shows "(let m = foldl (\<lambda>m x. if f x < f m then x else m) r rs
          in m \<in> insert r (set rs) \<and> (\<forall>x \<in> insert r (set rs). f m \<le> f x))"
proof (induction rs arbitrary: r)
  case Nil
  then show ?case by simp
next
  case (Cons y ys)
  show ?case using Cons.IH [of "if f y < f r then y else r"] by (auto simp: Let_def split: if_splits)
qed

lemma first_by_Some:
  assumes "first_by f t = Some m"
  shows "m \<in> set t \<and> (\<forall>x \<in> set t. f m \<le> f x)"
  using assms foldl_min [of f "hd t" "tl t"] by (cases t) (auto simp: first_by_def Let_def)

lemma first_by_None: "first_by f t = None \<longleftrightarrow> t = []"
  by (cases t) (simp_all add: first_by_def)

end
