(* ===== verification/Pg_Checks.thy ===== *)
theory Pg_Checks
  imports Pg_Store
begin

text \<open>
  \<^verbatim>\<open>tpcc/dbms/pgsql/check.cpp\<close> with the catalog and report of \<^verbatim>\<open>tpcc/checks\<close>: the cardinality checks,
  the consistency conditions of TPC-C 3.3.2 as the queries state them, the stricter checks after an
  import, and the jobs that run them warehouse by warehouse. A check passes when its query returns
  no row; an aggregate over no rows is NULL (\<^const>\<open>None\<close>), and reading NULL as a number raises, which
  fails the check. Details of failure messages are left out.
\<close>

section \<open>Aggregates\<close>

definition max_of :: "int list \<Rightarrow> int option" where
  "max_of xs = (if xs = [] then None else Some (Max (set xs)))"

definition min_of :: "int list \<Rightarrow> int option" where
  "min_of xs = (if xs = [] then None else Some (Min (set xs)))"

definition in_range :: "int \<Rightarrow> int \<Rightarrow> int \<Rightarrow> bool" where
  "in_range startWh endWh w \<longleftrightarrow> startWh \<le> w \<and> w \<le> endWh"

definition CheckNoRows :: "'r list \<Rightarrow> bool" where
  "CheckNoRows rows \<longleftrightarrow> rows = []"

section \<open>Cardinality\<close>

definition BaseCheckWarehouseTable :: "int \<Rightarrow> pg_db \<Rightarrow> bool" where
  "BaseCheckWarehouseTable expectedWhNumber db \<longleftrightarrow>
     int (length (warehouse db)) = expectedWhNumber \<and>
     min_of (map w_id (warehouse db)) = Some 1 \<and> max_of (map w_id (warehouse db)) = Some expectedWhNumber"

definition BaseCheckDistrictTable :: "int \<Rightarrow> pg_db \<Rightarrow> bool" where
  "BaseCheckDistrictTable expectedWhNumber db \<longleftrightarrow>
     int (length (district db)) = expectedWhNumber * DISTRICT_COUNT \<and>
     min_of (map d_w_id (district db)) = Some 1 \<and> max_of (map d_w_id (district db)) = Some expectedWhNumber \<and>
     min_of (map d_id (district db)) = Some DISTRICT_LOW_ID \<and> max_of (map d_id (district db)) = Some DISTRICT_HIGH_ID"

definition BaseCheckCustomerTable :: "int \<Rightarrow> int \<Rightarrow> pg_db \<Rightarrow> bool" where
  "BaseCheckCustomerTable startWh endWh db \<longleftrightarrow>
     (let rows = filter (\<lambda>c. in_range startWh endWh (c_w_id c)) (customer db) in
      int (length rows) = (endWh - startWh + 1) * CUSTOMERS_PER_DISTRICT * DISTRICT_COUNT \<and>
      min_of (map c_w_id rows) = Some startWh \<and> max_of (map c_w_id rows) = Some endWh \<and>
      min_of (map c_d_id rows) = Some DISTRICT_LOW_ID \<and> max_of (map c_d_id rows) = Some DISTRICT_HIGH_ID \<and>
      min_of (map c_id rows) = Some 1 \<and> max_of (map c_id rows) = Some CUSTOMERS_PER_DISTRICT)"

definition BaseCheckItemTable :: "pg_db \<Rightarrow> bool" where
  "BaseCheckItemTable db \<longleftrightarrow>
     int (length (item db)) = ITEM_COUNT \<and>
     min_of (map i_id (item db)) = Some 1 \<and> max_of (map i_id (item db)) = Some ITEM_COUNT"

definition BaseCheckStockTable :: "int \<Rightarrow> int \<Rightarrow> pg_db \<Rightarrow> bool" where
  "BaseCheckStockTable startWh endWh db \<longleftrightarrow>
     (let rows = filter (\<lambda>s. in_range startWh endWh (s_w_id s)) (stock db) in
      int (length rows) = (endWh - startWh + 1) * ITEM_COUNT \<and>
      int (length (remdups (map s_w_id rows))) = endWh - startWh + 1 \<and>
      min_of (map s_w_id rows) = Some startWh \<and> max_of (map s_w_id rows) = Some endWh \<and>
      min_of (map s_i_id rows) = Some 1 \<and> max_of (map s_i_id rows) = Some ITEM_COUNT)"

definition BaseCheckOorderTable :: "int \<Rightarrow> int \<Rightarrow> pg_db \<Rightarrow> bool" where
  "BaseCheckOorderTable startWh endWh db \<longleftrightarrow>
     (let rows = filter (\<lambda>x. in_range startWh endWh (o_w_id x)) (oorder db) in
      int (length rows) = (endWh - startWh + 1) * CUSTOMERS_PER_DISTRICT * DISTRICT_COUNT \<and>
      min_of (map o_w_id rows) = Some startWh \<and> max_of (map o_w_id rows) = Some endWh \<and>
      min_of (map o_d_id rows) = Some DISTRICT_LOW_ID \<and> max_of (map o_d_id rows) = Some DISTRICT_HIGH_ID \<and>
      min_of (map o_id rows) = Some 1 \<and> max_of (map o_id rows) = Some CUSTOMERS_PER_DISTRICT)"

definition BaseCheckNewOrderTable :: "int \<Rightarrow> int \<Rightarrow> pg_db \<Rightarrow> bool" where
  "BaseCheckNewOrderTable startWh endWh db \<longleftrightarrow>
     (let rows = filter (\<lambda>n. in_range startWh endWh (no_w_id n)) (new_order db) in
      int (length rows) =
        (endWh - startWh + 1) * (CUSTOMERS_PER_DISTRICT - FIRST_UNPROCESSED_O_ID + 1) * DISTRICT_COUNT \<and>
      min_of (map no_w_id rows) = Some startWh \<and> max_of (map no_w_id rows) = Some endWh \<and>
      min_of (map no_d_id rows) = Some DISTRICT_LOW_ID \<and> max_of (map no_d_id rows) = Some DISTRICT_HIGH_ID \<and>
      (case min_of (map no_o_id rows) of None \<Rightarrow> False | Some m \<Rightarrow> m \<ge> FIRST_UNPROCESSED_O_ID) \<and>
      max_of (map no_o_id rows) = Some CUSTOMERS_PER_DISTRICT)"

definition BaseCheckOrderLineTable :: "int \<Rightarrow> int \<Rightarrow> pg_db \<Rightarrow> bool" where
  "BaseCheckOrderLineTable startWh endWh db \<longleftrightarrow>
     (let rows = filter (\<lambda>l. in_range startWh endWh (ol_w_id l)) (order_line db);
          groups = remdups (map (\<lambda>l. (ol_w_id l, ol_d_id l)) rows);
          counts = map (\<lambda>k. int (length (remdups (map ol_o_id (filter (\<lambda>l. (ol_w_id l, ol_d_id l) = k) rows))))) groups in
      int (length groups) = (endWh - startWh + 1) * DISTRICT_COUNT \<and>
      min_of counts = Some CUSTOMERS_PER_DISTRICT \<and> max_of counts = Some CUSTOMERS_PER_DISTRICT)"

definition BaseCheckHistoryTable :: "int \<Rightarrow> int \<Rightarrow> pg_db \<Rightarrow> bool" where
  "BaseCheckHistoryTable startWh endWh db \<longleftrightarrow>
     (let rows = filter (\<lambda>h. in_range startWh endWh (h_c_w_id h)) (history db) in
      int (length rows) = (endWh - startWh + 1) * CUSTOMERS_PER_DISTRICT * DISTRICT_COUNT \<and>
      min_of (map h_c_w_id rows) = Some startWh \<and> max_of (map h_c_w_id rows) = Some endWh)"

section \<open>Consistency\<close>

definition ConsistencyCheck3321 :: "pg_db \<Rightarrow> bool" where
  "ConsistencyCheck3321 db =
     CheckNoRows (filter (\<lambda>w. w_ytd w \<noteq> sum_list (map d_ytd (filter (\<lambda>d. d_w_id d = w_id w) (district db)))) (warehouse db))"

definition district_orders :: "pg_db \<Rightarrow> int \<times> int \<Rightarrow> int list" where
  "district_orders db k = map o_id (filter (\<lambda>x. (o_w_id x, o_d_id x) = k) (oorder db))"

definition district_new_orders :: "pg_db \<Rightarrow> int \<times> int \<Rightarrow> int list" where
  "district_new_orders db k = map no_o_id (filter (\<lambda>n. (no_w_id n, no_d_id n) = k) (new_order db))"

definition ConsistencyCheck3322 :: "int \<Rightarrow> int \<Rightarrow> pg_db \<Rightarrow> bool" where
  "ConsistencyCheck3322 startWh endWh db =
     CheckNoRows (filter (\<lambda>d. in_range startWh endWh (d_w_id d) \<and>
       (let max_o_id = max_of (district_orders db (d_key d)); max_no_o_id = max_of (district_new_orders db (d_key d)) in
        max_o_id = None \<or> Some (d_next_o_id d - 1) \<noteq> max_o_id \<or> (max_no_o_id \<noteq> None \<and> max_no_o_id \<noteq> max_o_id)))
       (district db))"

definition ConsistencyCheck3323 :: "int \<Rightarrow> int \<Rightarrow> pg_db \<Rightarrow> bool" where
  "ConsistencyCheck3323 startWh endWh db =
     CheckNoRows (filter (\<lambda>k.
         (let ids = district_new_orders db k in
          int (length ids) - (the (max_of ids) - the (min_of ids) + 1) \<noteq> 0))
       (remdups (map (\<lambda>n. (no_w_id n, no_d_id n)) (filter (\<lambda>n. in_range startWh endWh (no_w_id n)) (new_order db)))))"

text \<open>A group without rows does not exist: its aggregate is NULL in the outer join.\<close>

definition group_sum :: "int list \<Rightarrow> int option" where
  "group_sum xs = (if xs = [] then None else Some (sum_list xs))"

definition ConsistencyCheck3324 :: "int \<Rightarrow> int \<Rightarrow> pg_db \<Rightarrow> bool" where
  "ConsistencyCheck3324 startWh endWh db =
     (let os = filter (\<lambda>x. in_range startWh endWh (o_w_id x)) (oorder db);
          ls = filter (\<lambda>l. in_range startWh endWh (ol_w_id l)) (order_line db) in
      CheckNoRows (filter (\<lambda>k.
          group_sum (map o_ol_cnt (filter (\<lambda>x. (o_w_id x, o_d_id x) = k) os))
          \<noteq> group_sum (map (\<lambda>l. 1) (filter (\<lambda>l. (ol_w_id l, ol_d_id l) = k) ls)))
        (remdups (map (\<lambda>x. (o_w_id x, o_d_id x)) os @ map (\<lambda>l. (ol_w_id l, ol_d_id l)) ls))))"

definition ConsistencyCheck3325 :: "int \<Rightarrow> int \<Rightarrow> pg_db \<Rightarrow> bool" where
  "ConsistencyCheck3325 startWh endWh db =
     CheckNoRows
       (map no_key (filter (\<lambda>n. in_range startWh endWh (no_w_id n) \<and>
          (let matches = filter (\<lambda>x. o_key x = no_key n) (oorder db) in
           matches = [] \<or> list_ex (\<lambda>x. o_carrier_id x \<noteq> None) matches)) (new_order db)) @
        map o_key (filter (\<lambda>x. in_range startWh endWh (o_w_id x) \<and> o_carrier_id x = None \<and>
          o_key x \<notin> set (map no_key (new_order db))) (oorder db)))"

definition ConsistencyCheck3326 :: "int \<Rightarrow> int \<Rightarrow> pg_db \<Rightarrow> bool" where
  "ConsistencyCheck3326 startWh endWh db =
     (let ls = filter (\<lambda>l. in_range startWh endWh (ol_w_id l)) (order_line db) in
      CheckNoRows
        (map o_key (filter (\<lambda>x. in_range startWh endWh (o_w_id x) \<and>
           o_ol_cnt x \<noteq> int (length (filter (\<lambda>l. ol_order l = o_key x) ls))) (oorder db)) @
         filter (\<lambda>k. k \<notin> set (map o_key (oorder db))) (remdups (map ol_order ls))))"

definition ConsistencyCheck3327 :: "int \<Rightarrow> int \<Rightarrow> pg_db \<Rightarrow> bool" where
  "ConsistencyCheck3327 startWh endWh db =
     (let ls = filter (\<lambda>l. in_range startWh endWh (ol_w_id l)) (order_line db) in
      CheckNoRows (concat (map (\<lambda>k.
        (let group = filter (\<lambda>l. ol_order l = k) ls;
             some_null = list_ex (\<lambda>l. ol_delivery_d l = None) group;
             some_delivered = list_ex (\<lambda>l. ol_delivery_d l \<noteq> None) group in
         filter (\<lambda>x. o_key x = k \<and>
           (some_null \<and> some_delivered \<or> o_carrier_id x = None \<and> some_delivered \<or> o_carrier_id x \<noteq> None \<and> some_null))
           (oorder db)))
        (remdups (map ol_order ls)))))"

definition ConsistencyCheck3328 :: "int \<Rightarrow> int \<Rightarrow> pg_db \<Rightarrow> bool" where
  "ConsistencyCheck3328 startWh endWh db =
     CheckNoRows (filter (\<lambda>w. in_range startWh endWh (w_id w) \<and>
       w_ytd w \<noteq> sum_list (map h_amount (filter (\<lambda>h. h_w_id h = w_id w) (history db)))) (warehouse db))"

definition ConsistencyCheck3329 :: "int \<Rightarrow> int \<Rightarrow> pg_db \<Rightarrow> bool" where
  "ConsistencyCheck3329 startWh endWh db =
     CheckNoRows (filter (\<lambda>d. in_range startWh endWh (d_w_id d) \<and>
       d_ytd d \<noteq> sum_list (map h_amount (filter (\<lambda>h. (h_w_id h, h_d_id h) = d_key d) (history db)))) (district db))"

text \<open>The amounts delivered to a customer: \<^verbatim>\<open>oorder JOIN order_line\<close> with a delivery date.\<close>

definition delivered_sum :: "pg_db \<Rightarrow> int \<times> int \<times> int \<Rightarrow> int" where
  "delivered_sum db c =
     sum_list (map (\<lambda>x. sum_list (map ol_amount (filter (\<lambda>l. ol_order l = o_key x \<and> ol_delivery_d l \<noteq> None) (order_line db))))
       (filter (\<lambda>x. o_customer x = c) (oorder db)))"

definition history_sum :: "pg_db \<Rightarrow> int \<times> int \<times> int \<Rightarrow> int" where
  "history_sum db c = sum_list (map h_amount (filter (\<lambda>h. h_customer h = c) (history db)))"

definition ConsistencyCheck33210 :: "int \<Rightarrow> int \<Rightarrow> pg_db \<Rightarrow> bool" where
  "ConsistencyCheck33210 startWh endWh db =
     CheckNoRows (filter (\<lambda>c. in_range startWh endWh (c_w_id c) \<and>
       c_balance c \<noteq> delivered_sum db (c_key c) - history_sum db (c_key c)) (customer db))"

definition ConsistencyCheck33211 :: "int \<Rightarrow> int \<Rightarrow> pg_db \<Rightarrow> bool" where
  "ConsistencyCheck33211 startWh endWh db =
     (let os = filter (\<lambda>x. in_range startWh endWh (o_w_id x)) (oorder db);
          ns = filter (\<lambda>n. in_range startWh endWh (no_w_id n)) (new_order db) in
      CheckNoRows (filter (\<lambda>k.
          int (length (filter (\<lambda>x. (o_w_id x, o_d_id x) = k) os)) - int (length (filter (\<lambda>n. (no_w_id n, no_d_id n) = k) ns))
          \<noteq> FIRST_UNPROCESSED_O_ID - 1)
        (remdups (map (\<lambda>x. (o_w_id x, o_d_id x)) os @ map (\<lambda>n. (no_w_id n, no_d_id n)) ns))))"

definition ConsistencyCheck33212 :: "int \<Rightarrow> int \<Rightarrow> pg_db \<Rightarrow> bool" where
  "ConsistencyCheck33212 startWh endWh db =
     CheckNoRows (filter (\<lambda>c. in_range startWh endWh (c_w_id c) \<and>
       c_balance c + c_ytd_payment c \<noteq> delivered_sum db (c_key c)) (customer db))"

section \<open>After an import\<close>

definition PostImportCheckNextOrderId :: "pg_db \<Rightarrow> bool" where
  "PostImportCheckNextOrderId db =
     CheckNoRows (filter (\<lambda>d. d_next_o_id d \<noteq> CUSTOMERS_PER_DISTRICT + 1) (district db))"

definition PostImportCheckWarehouseYtd :: "pg_db \<Rightarrow> bool" where
  "PostImportCheckWarehouseYtd db =
     CheckNoRows (filter (\<lambda>w. w_ytd w \<noteq> MoneyUnits WAREHOUSE_INITIAL_YTD) (warehouse db))"

definition PostImportCheckDistrictYtd :: "pg_db \<Rightarrow> bool" where
  "PostImportCheckDistrictYtd db =
     CheckNoRows (filter (\<lambda>d. d_ytd d \<noteq> MoneyUnits DISTRICT_INITIAL_YTD) (district db))"

definition PostImportCheckNoCarriers :: "int \<Rightarrow> int \<Rightarrow> pg_db \<Rightarrow> bool" where
  "PostImportCheckNoCarriers startWh endWh db =
     CheckNoRows (filter (\<lambda>x. in_range startWh endWh (o_w_id x) \<and> o_id x \<ge> FIRST_UNPROCESSED_O_ID \<and> o_carrier_id x \<noteq> None)
       (oorder db))"

definition PostImportCheckCarrierRange :: "int \<Rightarrow> int \<Rightarrow> pg_db \<Rightarrow> bool" where
  "PostImportCheckCarrierRange startWh endWh db =
     CheckNoRows (filter (\<lambda>x. in_range startWh endWh (o_w_id x) \<and> o_id x < FIRST_UNPROCESSED_O_ID \<and>
       (case o_carrier_id x of None \<Rightarrow> True | Some c \<Rightarrow> c < 1 \<or> c > 10)) (oorder db))"

definition PostImportCheckNoDeliveryDates :: "int \<Rightarrow> int \<Rightarrow> pg_db \<Rightarrow> bool" where
  "PostImportCheckNoDeliveryDates startWh endWh db =
     CheckNoRows (filter (\<lambda>l. in_range startWh endWh (ol_w_id l) \<and> ol_o_id l \<ge> FIRST_UNPROCESSED_O_ID \<and>
       ol_delivery_d l \<noteq> None) (order_line db))"

definition PostImportCheckDeliveryEqualsEntry :: "int \<Rightarrow> int \<Rightarrow> pg_db \<Rightarrow> bool" where
  "PostImportCheckDeliveryEqualsEntry startWh endWh db =
     CheckNoRows (concat (map (\<lambda>l.
       filter (\<lambda>x. o_key x = ol_order l \<and> in_range startWh endWh (ol_w_id l) \<and> ol_o_id l < FIRST_UNPROCESSED_O_ID \<and>
         (ol_delivery_d l = None \<or> ol_delivery_d l \<noteq> Some (o_entry_d x))) (oorder db)) (order_line db)))"

definition PostImportCheckDeliveredAmountZero :: "int \<Rightarrow> int \<Rightarrow> pg_db \<Rightarrow> bool" where
  "PostImportCheckDeliveredAmountZero startWh endWh db =
     CheckNoRows (filter (\<lambda>l. in_range startWh endWh (ol_w_id l) \<and> ol_o_id l < FIRST_UNPROCESSED_O_ID \<and> ol_amount l \<noteq> 0)
       (order_line db))"

section \<open>Catalog and report\<close>

datatype ECheckPhase = AfterImport | AfterTest | Both

datatype ECheckStatus = CheckPassed | CheckFailed | CheckSkipped | CheckError

definition CheckCatalog :: "(string \<times> string \<times> ECheckPhase) list" where
  "CheckCatalog =
     [(''cardinality.warehouse'', ''Warehouse cardinality'', Both),
      (''cardinality.district'', ''District cardinality'', Both),
      (''cardinality.customer'', ''Customer cardinality'', Both),
      (''cardinality.item'', ''Item cardinality'', Both),
      (''cardinality.stock'', ''Stock cardinality'', Both),
      (''cardinality.oorder'', ''Order cardinality (post-import)'', AfterImport),
      (''cardinality.new_order'', ''New-order cardinality (post-import)'', AfterImport),
      (''cardinality.order_line'', ''Order-line cardinality (post-import)'', AfterImport),
      (''cardinality.history'', ''History cardinality (post-import)'', AfterImport),
      (''consistency.3.3.2.1'', ''W_YTD equals sum(D_YTD)'', Both),
      (''consistency.3.3.2.2'', ''D_NEXT_O_ID vs max order ids'', Both),
      (''consistency.3.3.2.3'', ''New-order id range contiguous'', Both),
      (''consistency.3.3.2.4'', ''sum(O_OL_CNT) equals order-line count'', Both),
      (''consistency.3.3.2.5'', ''New-order '' @ [CHR 0xE2, CHR 0x86, CHR 0x94] @ '' undelivered order pairing'', Both),
      (''consistency.3.3.2.6'', ''Order line count matches O_OL_CNT'', Both),
      (''consistency.3.3.2.7'', ''Carrier vs delivery-date consistency'', Both),
      (''consistency.3.3.2.8'', ''W_YTD equals sum(H_AMOUNT)'', Both),
      (''consistency.3.3.2.9'', ''D_YTD equals sum(H_AMOUNT)'', Both),
      (''consistency.3.3.2.10'', ''C_BALANCE vs delivered amounts and history'', Both),
      (''consistency.3.3.2.11'', ''Orders vs new-orders delta (post-import)'', AfterImport),
      (''consistency.3.3.2.12'', ''C_BALANCE + C_YTD_PAYMENT vs delivered amounts'', Both),
      (''post_import.d_next_o_id'', ''D_NEXT_O_ID initial value'', AfterImport),
      (''post_import.w_ytd'', ''W_YTD initial value'', AfterImport),
      (''post_import.d_ytd'', ''D_YTD initial value'', AfterImport),
      (''post_import.o_carrier_id'', ''Unprocessed orders have NULL carrier'', AfterImport),
      (''post_import.o_carrier_id_range'', ''Delivered orders have carrier in [1..10]'', AfterImport),
      (''post_import.ol_delivery_d'', ''Unprocessed lines have NULL delivery date'', AfterImport),
      (''post_import.ol_delivery_eq_entry'', ''Delivered lines have OL_DELIVERY_D = O_ENTRY_D'', AfterImport),
      (''post_import.ol_amount_delivered'', ''Delivered lines have OL_AMOUNT = 0.00'', AfterImport)]"

definition FindCheckCatalogEntry :: "string \<Rightarrow> (string \<times> string \<times> ECheckPhase) option" where
  "FindCheckCatalogEntry i = List.find (\<lambda>e. fst e = i) CheckCatalog"

definition CheckAppliesToPhase :: "ECheckPhase \<Rightarrow> ECheckPhase \<Rightarrow> bool" where
  "CheckAppliesToPhase entryPhase requested \<longleftrightarrow> entryPhase = Both \<or> entryPhase = requested"

definition CountCatalogChecks :: "ECheckPhase \<Rightarrow> nat" where
  "CountCatalogChecks requested = length (filter (\<lambda>e. CheckAppliesToPhase (snd (snd e)) requested) CheckCatalog)"

record TCheckResult =
  ck_Id :: string
  ck_Title :: string
  ck_Status :: ECheckStatus

record TCheckReport =
  rp_Results :: "TCheckResult list"
  rp_FailedCount :: nat
  rp_PassedCount :: nat
  rp_SkippedCount :: nat
  rp_ErrorCount :: nat

definition ReportOk :: "TCheckReport \<Rightarrow> bool" where
  "ReportOk r \<longleftrightarrow> rp_FailedCount r = 0 \<and> rp_ErrorCount r = 0"

definition RecordResult :: "TCheckResult \<Rightarrow> TCheckReport \<Rightarrow> TCheckReport" where
  "RecordResult result report =
     (let r = (case ck_Status result of
           CheckPassed \<Rightarrow> report \<lparr> rp_PassedCount := rp_PassedCount report + 1 \<rparr>
         | CheckFailed \<Rightarrow> report \<lparr> rp_FailedCount := rp_FailedCount report + 1 \<rparr>
         | CheckSkipped \<Rightarrow> report \<lparr> rp_SkippedCount := rp_SkippedCount report + 1 \<rparr>
         | CheckError \<Rightarrow> report \<lparr> rp_ErrorCount := rp_ErrorCount report + 1 \<rparr>)
      in r \<lparr> rp_Results := rp_Results r @ [result] \<rparr>)"

definition RecordCheckResult :: "string \<Rightarrow> ECheckStatus \<Rightarrow> TCheckReport \<Rightarrow> TCheckReport" where
  "RecordCheckResult i status report =
     RecordResult \<lparr> ck_Id = i,
       ck_Title = (case FindCheckCatalogEntry i of Some e \<Rightarrow> fst (snd e) | None \<Rightarrow> i), ck_Status = status \<rparr> report"

section \<open>Jobs\<close>

type_synonym check_job = "string \<times> (pg_db \<Rightarrow> bool) list"

definition AddSingleJob :: "string \<Rightarrow> (pg_db \<Rightarrow> bool) \<Rightarrow> check_job list \<Rightarrow> check_job list" where
  "AddSingleJob i task jobs = jobs @ [(i, [task])]"

text \<open>The loop of \<^verbatim>\<open>AddRangedJob\<close>; the range size is positive.\<close>

function range_chunks :: "int \<Rightarrow> int \<Rightarrow> int \<Rightarrow> (int \<times> int) list" where
  "range_chunks startWh warehouseCount rangeSize =
     (if startWh \<le> warehouseCount \<and> 1 \<le> rangeSize
      then (startWh, min (startWh + rangeSize - 1) warehouseCount)
             # range_chunks (startWh + rangeSize) warehouseCount rangeSize
      else [])"
  by auto

termination
  by (relation "measure (\<lambda>(s, w, r). nat (w + 1 - s))") auto

declare range_chunks.simps [simp del]

definition kWarehouseCheckRange :: int where
  "kWarehouseCheckRange = 1"

definition AddRangedJob :: "string \<Rightarrow> int \<Rightarrow> int \<Rightarrow> (int \<Rightarrow> int \<Rightarrow> pg_db \<Rightarrow> bool) \<Rightarrow> check_job list \<Rightarrow> check_job list" where
  "AddRangedJob i warehouseCount rangeSize rangeFn jobs =
     jobs @ [(i, map (\<lambda>(s, e). rangeFn s e) (range_chunks 1 warehouseCount rangeSize))]"

definition BuildCardinalityJobs :: "int \<Rightarrow> bool \<Rightarrow> check_job list" where
  "BuildCardinalityJobs wh afterImport =
     (let jobs = AddRangedJob ''cardinality.stock'' wh kWarehouseCheckRange BaseCheckStockTable
           (AddSingleJob ''cardinality.item'' BaseCheckItemTable
           (AddRangedJob ''cardinality.customer'' wh kWarehouseCheckRange BaseCheckCustomerTable
           (AddSingleJob ''cardinality.district'' (BaseCheckDistrictTable wh)
           (AddSingleJob ''cardinality.warehouse'' (BaseCheckWarehouseTable wh) [])))) in
      if afterImport then
        AddRangedJob ''cardinality.history'' wh kWarehouseCheckRange BaseCheckHistoryTable
        (AddRangedJob ''cardinality.order_line'' wh kWarehouseCheckRange BaseCheckOrderLineTable
        (AddRangedJob ''cardinality.new_order'' wh kWarehouseCheckRange BaseCheckNewOrderTable
        (AddRangedJob ''cardinality.oorder'' wh kWarehouseCheckRange BaseCheckOorderTable jobs)))
      else jobs)"

definition BuildConsistencyJobs :: "int \<Rightarrow> bool \<Rightarrow> check_job list" where
  "BuildConsistencyJobs wh afterImport =
     (let jobs =
        AddRangedJob ''consistency.3.3.2.12'' wh kWarehouseCheckRange ConsistencyCheck33212
        (AddRangedJob ''consistency.3.3.2.10'' wh kWarehouseCheckRange ConsistencyCheck33210
        (AddRangedJob ''consistency.3.3.2.9'' wh kWarehouseCheckRange ConsistencyCheck3329
        (AddRangedJob ''consistency.3.3.2.8'' wh kWarehouseCheckRange ConsistencyCheck3328
        (AddRangedJob ''consistency.3.3.2.7'' wh kWarehouseCheckRange ConsistencyCheck3327
        (AddRangedJob ''consistency.3.3.2.6'' wh kWarehouseCheckRange ConsistencyCheck3326
        (AddRangedJob ''consistency.3.3.2.5'' wh kWarehouseCheckRange ConsistencyCheck3325
        (AddRangedJob ''consistency.3.3.2.4'' wh kWarehouseCheckRange ConsistencyCheck3324
        (AddRangedJob ''consistency.3.3.2.3'' wh kWarehouseCheckRange ConsistencyCheck3323
        (AddRangedJob ''consistency.3.3.2.2'' wh kWarehouseCheckRange ConsistencyCheck3322
        (AddSingleJob ''consistency.3.3.2.1'' ConsistencyCheck3321 [])))))))))) in
      if afterImport then
        AddRangedJob ''post_import.ol_amount_delivered'' wh kWarehouseCheckRange PostImportCheckDeliveredAmountZero
        (AddRangedJob ''post_import.ol_delivery_eq_entry'' wh kWarehouseCheckRange PostImportCheckDeliveryEqualsEntry
        (AddRangedJob ''post_import.ol_delivery_d'' wh kWarehouseCheckRange PostImportCheckNoDeliveryDates
        (AddRangedJob ''post_import.o_carrier_id_range'' wh kWarehouseCheckRange PostImportCheckCarrierRange
        (AddRangedJob ''post_import.o_carrier_id'' wh kWarehouseCheckRange PostImportCheckNoCarriers
        (AddSingleJob ''post_import.d_ytd'' PostImportCheckDistrictYtd
        (AddSingleJob ''post_import.w_ytd'' PostImportCheckWarehouseYtd
        (AddSingleJob ''post_import.d_next_o_id'' PostImportCheckNextOrderId
        (AddRangedJob ''consistency.3.3.2.11'' wh kWarehouseCheckRange ConsistencyCheck33211 jobs))))))))
      else jobs)"

text \<open>Whatever the number of workers, a job fails exactly when one of its tasks does: the first
  failure sets the flag, and only tasks after a failure are skipped.\<close>

fun RunCheckJobs :: "check_job list \<Rightarrow> pg_db \<Rightarrow> TCheckReport \<Rightarrow> TCheckReport" where
  "RunCheckJobs [] db report = report"
| "RunCheckJobs ((i, tasks) # jobs) db report =
     RunCheckJobs jobs db
       (RecordCheckResult i (if list_all (\<lambda>task. task db) tasks then CheckPassed else CheckFailed) report)"

definition is_cardinality :: "string \<Rightarrow> bool" where
  "is_cardinality i \<longleftrightarrow> take 12 i = ''cardinality.''"

fun record_skipped :: "ECheckPhase \<Rightarrow> (string \<times> string \<times> ECheckPhase) list \<Rightarrow> TCheckReport \<Rightarrow> TCheckReport" where
  "record_skipped phase [] report = report"
| "record_skipped phase ((i, title, p) # es) report =
     record_skipped phase es
       (if is_cardinality i \<or> \<not> CheckAppliesToPhase p phase then report
        else RecordCheckResult i CheckSkipped report)"

definition RunPgChecks :: "int \<Rightarrow> ECheckPhase \<Rightarrow> pg_db \<Rightarrow> TCheckReport" where
  "RunPgChecks warehouseCount phase db =
     (let report = \<lparr> rp_Results = [], rp_FailedCount = 0, rp_PassedCount = 0, rp_SkippedCount = 0, rp_ErrorCount = 0 \<rparr>;
          afterImport = (phase = AfterImport) in
      if warehouseCount \<le> 0 then RecordCheckResult ''cardinality.warehouse'' CheckError report
      else
        let report1 = RunCheckJobs (BuildCardinalityJobs warehouseCount afterImport) db report;
            baseFailed = list_ex (\<lambda>r. is_cardinality (ck_Id r) \<and> (ck_Status r = CheckFailed \<or> ck_Status r = CheckError))
              (rp_Results report1) in
        if baseFailed then record_skipped phase CheckCatalog report1
        else RunCheckJobs (BuildConsistencyJobs warehouseCount afterImport) db report1)"

section \<open>The report says what the checks say\<close>

definition job_passes :: "pg_db \<Rightarrow> check_job \<Rightarrow> bool" where
  "job_passes db job \<longleftrightarrow> list_all (\<lambda>task. task db) (snd job)"

lemma RecordCheckResult_counts [simp]:
  "rp_FailedCount (RecordCheckResult i st r) = rp_FailedCount r + (if st = CheckFailed then 1 else 0)"
  "rp_ErrorCount (RecordCheckResult i st r) = rp_ErrorCount r + (if st = CheckError then 1 else 0)"
  "rp_PassedCount (RecordCheckResult i st r) = rp_PassedCount r + (if st = CheckPassed then 1 else 0)"
  by (cases st; simp add: RecordCheckResult_def RecordResult_def Let_def)+

lemma RecordCheckResult_results [simp]:
  "map (\<lambda>x. (ck_Id x, ck_Status x)) (rp_Results (RecordCheckResult i st r)) =
     map (\<lambda>x. (ck_Id x, ck_Status x)) (rp_Results r) @ [(i, st)]"
  by (cases st) (simp_all add: RecordCheckResult_def RecordResult_def Let_def)

lemma RunCheckJobs_results:
  "map (\<lambda>x. (ck_Id x, ck_Status x)) (rp_Results (RunCheckJobs jobs db report)) =
     map (\<lambda>x. (ck_Id x, ck_Status x)) (rp_Results report) @
     map (\<lambda>job. (fst job, if job_passes db job then CheckPassed else CheckFailed)) jobs"
  by (induction jobs db report rule: RunCheckJobs.induct) (simp_all add: job_passes_def)

lemma RunCheckJobs_counts:
  "rp_FailedCount (RunCheckJobs jobs db report) = rp_FailedCount report + length (filter (\<lambda>j. \<not> job_passes db j) jobs)"
  "rp_ErrorCount (RunCheckJobs jobs db report) = rp_ErrorCount report"
  by (induction jobs db report rule: RunCheckJobs.induct) (simp_all add: job_passes_def)

lemma record_skipped_counts:
  "rp_FailedCount (record_skipped p es r) = rp_FailedCount r" "rp_ErrorCount (record_skipped p es r) = rp_ErrorCount r"
  by (induction p es r rule: record_skipped.induct) simp_all

lemma cardinality_ids: "job \<in> set (BuildCardinalityJobs wh imp) \<Longrightarrow> is_cardinality (fst job)"
  by (auto simp: BuildCardinalityJobs_def AddSingleJob_def AddRangedJob_def is_cardinality_def Let_def split: if_splits)

lemma ReportOk_iff:
  assumes "0 < wh"
  shows "ReportOk (RunPgChecks wh phase db) \<longleftrightarrow>
    list_all (job_passes db) (BuildCardinalityJobs wh (phase = AfterImport)) \<and>
    list_all (job_passes db) (BuildConsistencyJobs wh (phase = AfterImport))"
proof -
  let ?r0 = "\<lparr> rp_Results = [], rp_FailedCount = 0, rp_PassedCount = 0, rp_SkippedCount = 0, rp_ErrorCount = 0 \<rparr>"
  let ?card = "BuildCardinalityJobs wh (phase = AfterImport)"
  let ?r1 = "RunCheckJobs ?card db ?r0"
  have r1: "map (\<lambda>x. (ck_Id x, ck_Status x)) (rp_Results ?r1) =
      map (\<lambda>job. (fst job, if job_passes db job then CheckPassed else CheckFailed)) ?card"
    by (simp add: RunCheckJobs_results)
  have "list_ex (\<lambda>r. is_cardinality (ck_Id r) \<and> (ck_Status r = CheckFailed \<or> ck_Status r = CheckError)) (rp_Results ?r1)
      \<longleftrightarrow> list_ex (\<lambda>(i, st). is_cardinality i \<and> (st = CheckFailed \<or> st = CheckError))
        (map (\<lambda>x. (ck_Id x, ck_Status x)) (rp_Results ?r1))"
    by (induction "rp_Results ?r1") (auto simp: list_ex_iff)
  also have "\<dots> \<longleftrightarrow> \<not> list_all (job_passes db) ?card"
    unfolding r1 using cardinality_ids by (fastforce simp: list_ex_iff list_all_iff split: if_splits)
  finally have base: "list_ex (\<lambda>r. is_cardinality (ck_Id r) \<and> (ck_Status r = CheckFailed \<or> ck_Status r = CheckError)) (rp_Results ?r1)
      \<longleftrightarrow> \<not> list_all (job_passes db) ?card" .
  have none: "length (filter (\<lambda>j. \<not> job_passes db j) jobs) = 0 \<longleftrightarrow> list_all (job_passes db) jobs" for jobs
    by (auto simp: filter_empty_conv list_all_iff)
  show ?thesis
    using assms base none
    by (auto simp: RunPgChecks_def Let_def ReportOk_def RunCheckJobs_counts record_skipped_counts)
qed

end
