(* ===== verification/Tx_Contract.thy ===== *)
theory Tx_Contract
  imports Workflow_Discipline
begin

text \<open>
  What a workflow may rely on from an adapter (\<^verbatim>\<open>ITpccTransaction\<close>): operations work on a private
  copy of the database, a successful one has its documented effect there, only a commit changes the
  committed database, and a commit that reports failure has changed nothing unless it reports the
  result as ambiguous; \<open>open_result\<close> says whether the adapter ever does. The locale \<open>tx_contract\<close> states these laws; the workflows are shown atomic
  for every adapter that keeps them.
\<close>

section \<open>Effect of an exchange\<close>

text \<open>\<open>sem op db\<close> is the result and the new database of an operation the database serves.\<close>

fun sem_ops ::
  "(TSemanticOp \<Rightarrow> 'db \<Rightarrow> (TOperationResult \<times> 'db) option) \<Rightarrow> TSemanticOp list \<Rightarrow> 'db \<Rightarrow> (TOperationResult list \<times> 'db) option"
where
  "sem_ops sem [] db = Some ([], db)"
| "sem_ops sem (op # ops) db =
     (case sem op db of
        None \<Rightarrow> None
      | Some (r, db1) \<Rightarrow>
          if or_Ok r then map_option (\<lambda>(rs, db2). (r # rs, db2)) (sem_ops sem ops db1) else None)"

fun sem_trace ::
  "(TSemanticOp \<Rightarrow> 'db \<Rightarrow> (TOperationResult \<times> 'db) option) \<Rightarrow> exchange list \<Rightarrow> 'db \<Rightarrow> 'db option"
where
  "sem_trace sem [] db = Some db"
| "sem_trace sem (ExExecute op r # es) db =
     (case sem op db of Some (r', db') \<Rightarrow> if r' = r then sem_trace sem es db' else None | None \<Rightarrow> None)"
| "sem_trace sem (ExBatch ops b # es) db =
     (case sem_ops sem ops db of
        Some (rs, db') \<Rightarrow> if rs = br_Results b then sem_trace sem es db' else None | None \<Rightarrow> None)"
| "sem_trace sem (ExFinal op f # es) db =
     (case sem op db of Some (r', db') \<Rightarrow> if r' = fc_Operation f then sem_trace sem es db' else None | None \<Rightarrow> None)"
| "sem_trace sem (ExCommit c # es) db = sem_trace sem es db"
| "sem_trace sem (ExRollback c # es) db = sem_trace sem es db"

definition ambiguous :: "wleaf \<Rightarrow> bool" where
  "ambiguous l \<longleftrightarrow> (\<exists>code msg. l = Thrown (TClassifiedError AmbiguousCommit code msg))"

section \<open>Committed executions\<close>

text \<open>\<open>committed sem w db db'\<close>: the workflow \<open>w\<close>, started on \<open>db\<close> with every request served, runs to a
  confirmed commit of \<open>db'\<close>.\<close>

inductive committed ::
  "(TSemanticOp \<Rightarrow> 'db \<Rightarrow> (TOperationResult \<times> 'db) option) \<Rightarrow> wf \<Rightarrow> 'db \<Rightarrow> 'db \<Rightarrow> bool"
  for sem
where
  Leaf: "committed sem (Leaf Success) db db"
| Execute: "sem op db = Some (r, db1) \<Longrightarrow> or_Ok r \<Longrightarrow> committed sem (k r) db1 db' \<Longrightarrow>
    committed sem (AwaitExecute op k) db db'"
| Batch: "sem_ops sem ops db = Some (br_Results b, db1) \<Longrightarrow> br_Ok b \<Longrightarrow> committed sem (k b) db1 db' \<Longrightarrow>
    committed sem (AwaitBatch ops k) db db'"
| Final: "sem op db = Some (fc_Operation f, db1) \<Longrightarrow> final_confirmed f \<Longrightarrow> committed sem (k f) db1 db' \<Longrightarrow>
    committed sem (AwaitFinal op k) db db'"
| Commit: "cm_Outcome c = Committed \<Longrightarrow> committed sem (k c) db db' \<Longrightarrow> committed sem (AwaitCommit k) db db'"

inductive_simps committed_simps [simp]:
  "committed sem (Leaf l) db db'"
  "committed sem (AwaitExecute op k) db db'"
  "committed sem (AwaitBatch ops k) db db'"
  "committed sem (AwaitFinal op k) db db'"
  "committed sem (AwaitCommit k) db db'"
  "committed sem (AwaitRollback k) db db'"

lemma committed_guards [simp]:
  "committed sem (FailPermanent ec) db db' \<longleftrightarrow> False"
  "committed sem FailPermanentMsg db db' \<longleftrightarrow> False"
  "or_Ok r \<Longrightarrow> guard_op r w = w"
  "br_Ok b \<Longrightarrow> guard_batch b w = w"
  "cm_Outcome c = Committed \<Longrightarrow> guard_commit c w = w"
  "final_confirmed f \<Longrightarrow> guard_final f w = w"
  "committed sem (check_int m g) db db' \<longleftrightarrow> (\<exists>x. m = Inr x \<and> committed sem (g x) db db')"
  by (auto simp: FailPermanent_def FailPermanentMsg_def guard_op_def guard_batch_def guard_commit_def
      guard_final_def final_confirmed_def ThrowIfRetryable_def ThrowIfBatchRetryable_def
      ThrowIfCommitFailed_def check_int_def split: sum.splits)

lemma committed_get [simp]:
  "committed sem (get_customer p k1) db db' \<longleftrightarrow> (\<exists>x. p = PCustomer x \<and> committed sem (k1 x) db db')"
  "committed sem (get_customers p k2) db db' \<longleftrightarrow> (\<exists>x. p = PCustomers x \<and> committed sem (k2 x) db db')"
  "committed sem (get_reservation p k3) db db' \<longleftrightarrow> (\<exists>x. p = PReservation x \<and> committed sem (k3 x) db db')"
  "committed sem (get_items p k4) db db' \<longleftrightarrow> (\<exists>x. p = PItems x \<and> committed sem (k4 x) db db')"
  "committed sem (get_stocks p k5) db db' \<longleftrightarrow> (\<exists>x. p = PStocks x \<and> committed sem (k5 x) db db')"
  "committed sem (get_location p k6) db db' \<longleftrightarrow> (\<exists>x. p = PLocation x \<and> committed sem (k6 x) db db')"
  "committed sem (get_string p k7) db db' \<longleftrightarrow> (\<exists>x. p = PString x \<and> committed sem (k7 x) db db')"
  "committed sem (get_order_header p k8) db db' \<longleftrightarrow> (\<exists>x. p = POrderHeader x \<and> committed sem (k8 x) db db')"
  "committed sem (get_int p k9) db db' \<longleftrightarrow> (\<exists>x. p = PInt x \<and> committed sem (k9 x) db db')"
  "committed sem (get_delivery_info p k10) db db' \<longleftrightarrow> (\<exists>x. p = PDeliveryInfo x \<and> committed sem (k10 x) db db')"
  by (simp_all add: get_customer_def get_customers_def get_reservation_def get_items_def get_stocks_def
      get_location_def get_string_def get_order_header_def get_int_def get_delivery_info_def
      split: TOperationPayload.splits)

text \<open>A run that reports success and whose exchange took effect is a committed execution.\<close>

lemma sem_trace_committed:
  "disciplined w \<Longrightarrow> run ad w t = (Success, tr, t') \<Longrightarrow> sem_trace sem tr db = Some db' \<Longrightarrow> committed sem w db db'"
proof (induction w arbitrary: t tr db rule: wf_branch_induct)
  case (Leaf l)
  then show ?case by auto
next
  case (AwaitExecute op k)
  obtain r t1 where a: "ad_Execute ad op t = (r, t1)" by fastforce
  obtain tr1 where r1: "run ad (k r) t1 = (Success, tr1, t')" and tr: "tr = ExExecute op r # tr1"
    using AwaitExecute.prems(2) a by (auto split: prod.splits)
  have ok: "or_Ok r" using AwaitExecute.prems(1) no_commit_run [OF _ r1] by auto
  obtain db1 where "sem op db = Some (r, db1)" "sem_trace sem tr1 db1 = Some db'"
    using AwaitExecute.prems(3) tr by (auto split: option.splits if_splits)
  with AwaitExecute.IH [OF _ r1] AwaitExecute.prems(1) ok show ?case by auto
next
  case (AwaitBatch ops k)
  obtain r t1 where a: "ad_ExecuteBatch ad ops t = (r, t1)" by fastforce
  obtain tr1 where r1: "run ad (k r) t1 = (Success, tr1, t')" and tr: "tr = ExBatch ops r # tr1"
    using AwaitBatch.prems(2) a by (auto split: prod.splits)
  have ok: "br_Ok r" using AwaitBatch.prems(1) no_commit_run [OF _ r1] by auto
  obtain db1 where "sem_ops sem ops db = Some (br_Results r, db1)" "sem_trace sem tr1 db1 = Some db'"
    using AwaitBatch.prems(3) tr by (auto split: option.splits if_splits)
  with AwaitBatch.IH [OF _ r1] AwaitBatch.prems(1) ok show ?case by auto
next
  case (AwaitFinal op k)
  obtain f t1 where a: "ad_ExecuteFinalAndCommit ad op t = (f, t1)" by fastforce
  have kf: "k f = guard_final f (Leaf Success)" using AwaitFinal.prems(1) by simp
  obtain x where x: "guard_final f (Leaf Success) = Leaf x" using guard_final_leaf(1) [of f] unfolding is_leaf_def by blast
  with AwaitFinal.prems(2) a kf have "x = Success" "tr = [ExFinal op f]" by auto
  with x guard_final_leaf(2) [of f] have fc: "final_confirmed f" by simp
  have "sem op db = Some (fc_Operation f, db')"
    using AwaitFinal.prems(3) \<open>tr = [ExFinal op f]\<close> by (auto split: option.splits if_splits)
  then show ?case by (rule committed.Final [OF _ fc]) (simp add: kf fc)
next
  case (AwaitCommit k)
  obtain c t1 where a: "ad_Commit ad t = (c, t1)" by fastforce
  have kc: "k c = guard_commit c (Leaf Success)" using AwaitCommit.prems(1) by simp
  obtain x where x: "guard_commit c (Leaf Success) = Leaf x" using guard_commit_leaf(1) [of c] unfolding is_leaf_def by blast
  with AwaitCommit.prems(2) a kc have "x = Success" "tr = [ExCommit c]" by auto
  with x guard_commit_leaf(2) [of c] have cc: "cm_Outcome c = Committed" by simp
  show ?case using AwaitCommit.prems(3) \<open>tr = [ExCommit c]\<close>
    by (intro committed.Commit [OF cc]) (simp add: kc cc)
next
  case (AwaitRollback k)
  obtain c t1 where a: "ad_Rollback ad t = (c, t1)" by fastforce
  obtain x where "k c = Leaf x" "x \<noteq> Success"
    using AwaitRollback.prems(1) unfolding disciplined.simps is_leaf_def by metis
  with AwaitRollback.prems(2) a show ?case by simp
qed

section \<open>The contract\<close>

locale tx_contract =
  fixes ad :: "'t adapter"
    and disk :: "'t \<Rightarrow> 'db"
    and work :: "'t \<Rightarrow> 'db option"
    and sem :: "TSemanticOp \<Rightarrow> 'db \<Rightarrow> (TOperationResult \<times> 'db) option"
    and okay :: "'t \<Rightarrow> bool"
    and open_result :: bool
  assumes exec_keeps: "okay t \<Longrightarrow> ad_Execute ad op t = (r, t') \<Longrightarrow> disk t' = disk t \<and> okay t'"
    and exec_sem: "okay t \<Longrightarrow> ad_Execute ad op t = (r, t') \<Longrightarrow> or_Ok r \<Longrightarrow> work t = Some w \<Longrightarrow>
      \<exists>w'. work t' = Some w' \<and> sem op w = Some (r, w')"
    and batch_keeps: "okay t \<Longrightarrow> ad_ExecuteBatch ad ops t = (b, t') \<Longrightarrow> disk t' = disk t \<and> okay t'"
    and batch_sem: "okay t \<Longrightarrow> ad_ExecuteBatch ad ops t = (b, t') \<Longrightarrow> br_Ok b \<Longrightarrow> work t = Some w \<Longrightarrow>
      \<exists>w'. work t' = Some w' \<and> sem_ops sem ops w = Some (br_Results b, w')"
    and commit_sem: "okay t \<Longrightarrow> ad_Commit ad t = (c, t') \<Longrightarrow> work t = Some w \<Longrightarrow>
      (if cm_Outcome c = Committed then disk t' = w
       else disk t' = disk t \<or> (open_result \<and> disk t' = w \<and> cm_ErrorClass c = AmbiguousCommit))"
    and final_sem: "okay t \<Longrightarrow> ad_ExecuteFinalAndCommit ad op t = (f, t') \<Longrightarrow> work t = Some w \<Longrightarrow>
      (if final_confirmed f then sem op w = Some (fc_Operation f, disk t')
       else disk t' = disk t \<or> (open_result \<and> or_Ok (fc_Operation f) \<and> sem op w = Some (fc_Operation f, disk t')
         \<and> cm_ErrorClass (fc_Commit f) = AmbiguousCommit))"
    and rollback_keeps: "okay t \<Longrightarrow> ad_Rollback ad t = (c, t') \<Longrightarrow> disk t' = disk t \<and> okay t'"
begin

definition atomic_from :: "'t \<Rightarrow> 'db \<Rightarrow> wleaf \<times> exchange list \<times> 't \<Rightarrow> bool" where
  "atomic_from t w x \<longleftrightarrow>
     (case x of (l, tr, t') \<Rightarrow>
        if l = Success then sem_trace sem tr w = Some (disk t')
        else disk t' = disk t \<or> (open_result \<and> ambiguous l \<and> sem_trace sem tr w = Some (disk t')))"

lemma no_commit_keeps:
  "no_commit w \<Longrightarrow> okay t \<Longrightarrow> run ad w t = (l, tr, t') \<Longrightarrow> disk t' = disk t"
proof (induction w arbitrary: t l tr t' rule: wf_branch_induct)
  case (AwaitExecute op k)
  obtain r t1 where a: "ad_Execute ad op t = (r, t1)" by fastforce
  obtain tr1 where "run ad (k r) t1 = (l, tr1, t')" using AwaitExecute.prems(3) a by (auto split: prod.splits)
  with AwaitExecute.IH [of r t1] AwaitExecute.prems exec_keeps [OF _ a] show ?case by simp
next
  case (AwaitBatch ops k)
  obtain b t1 where a: "ad_ExecuteBatch ad ops t = (b, t1)" by fastforce
  obtain tr1 where "run ad (k b) t1 = (l, tr1, t')" using AwaitBatch.prems(3) a by (auto split: prod.splits)
  with AwaitBatch.IH [of b t1] AwaitBatch.prems batch_keeps [OF _ a] show ?case by simp
next
  case (AwaitRollback k)
  obtain c t1 where a: "ad_Rollback ad t = (c, t1)" by fastforce
  obtain tr1 where "run ad (k c) t1 = (l, tr1, t')" using AwaitRollback.prems(3) a by (auto split: prod.splits)
  with AwaitRollback.IH [of c t1] AwaitRollback.prems rollback_keeps [OF _ a] show ?case by simp
qed simp_all

lemma commit_leaf_atomic:
  assumes "okay t" "ad_Commit ad t = (c, t1)" "work t = Some w" "guard_commit c (Leaf Success) = Leaf l"
  shows "atomic_from t w (l, [ExCommit c], t1)"
  using commit_sem [OF assms(1-3)] assms(4)
  by (auto simp: atomic_from_def guard_commit_def ThrowIfCommitFailed_def ambiguous_def split: if_splits)

lemma final_leaf_atomic:
  assumes "okay t" "ad_ExecuteFinalAndCommit ad op t = (f, t1)" "work t = Some w"
    "guard_final f (Leaf Success) = Leaf l"
  shows "atomic_from t w (l, [ExFinal op f], t1)"
proof -
  have "l = Success \<longleftrightarrow> final_confirmed f" using guard_final_leaf(2) [of f] assms(4) by simp
  moreover have "or_Ok (fc_Operation f) \<Longrightarrow> \<not> final_confirmed f \<Longrightarrow> cm_ErrorClass (fc_Commit f) = AmbiguousCommit \<Longrightarrow> ambiguous l"
    using assms(4) by (auto simp: guard_final_def guard_op_def ThrowIfRetryable_def guard_commit_def
        ThrowIfCommitFailed_def final_confirmed_def ambiguous_def)
  ultimately show ?thesis using final_sem [OF assms(1-3)] by (auto simp: atomic_from_def)
qed

theorem disciplined_atomic:
  "disciplined w \<Longrightarrow> okay t \<Longrightarrow> work t = Some db \<Longrightarrow> run ad w t = (l, tr, t') \<Longrightarrow> atomic_from t db (l, tr, t')"
proof (induction w arbitrary: t db l tr t' rule: wf_branch_induct)
  case (Leaf x)
  then show ?case by (auto simp: atomic_from_def)
next
  case (AwaitExecute op k)
  obtain r t1 where a: "ad_Execute ad op t = (r, t1)" by fastforce
  obtain tr1 where r1: "run ad (k r) t1 = (l, tr1, t')" and tr: "tr = ExExecute op r # tr1"
    using AwaitExecute.prems(4) a by (auto split: prod.splits)
  have t1: "disk t1 = disk t" "okay t1" using exec_keeps [OF AwaitExecute.prems(2) a] by simp_all
  show ?case
  proof (cases "or_Ok r")
    case True
    then obtain w' where w': "work t1 = Some w'" "sem op db = Some (r, w')"
      using exec_sem [OF AwaitExecute.prems(2) a] AwaitExecute.prems(3) by blast
    have "atomic_from t1 w' (l, tr1, t')"
      using AwaitExecute.IH [OF _ t1(2) w'(1) r1] AwaitExecute.prems(1) by simp
    then show ?thesis using t1 w'(2) tr by (simp add: atomic_from_def split: if_splits)
  next
    case False
    then have nc: "no_commit (k r)" using AwaitExecute.prems(1) by simp
    then show ?thesis using no_commit_keeps [OF nc t1(2) r1] no_commit_run [OF nc r1] t1 by (simp add: atomic_from_def)
  qed
next
  case (AwaitBatch ops k)
  obtain r t1 where a: "ad_ExecuteBatch ad ops t = (r, t1)" by fastforce
  obtain tr1 where r1: "run ad (k r) t1 = (l, tr1, t')" and tr: "tr = ExBatch ops r # tr1"
    using AwaitBatch.prems(4) a by (auto split: prod.splits)
  have t1: "disk t1 = disk t" "okay t1" using batch_keeps [OF AwaitBatch.prems(2) a] by simp_all
  show ?case
  proof (cases "br_Ok r")
    case True
    then obtain w' where w': "work t1 = Some w'" "sem_ops sem ops db = Some (br_Results r, w')"
      using batch_sem [OF AwaitBatch.prems(2) a] AwaitBatch.prems(3) by blast
    have "atomic_from t1 w' (l, tr1, t')"
      using AwaitBatch.IH [OF _ t1(2) w'(1) r1] AwaitBatch.prems(1) by simp
    then show ?thesis using t1 w'(2) tr by (simp add: atomic_from_def split: if_splits)
  next
    case False
    then have nc: "no_commit (k r)" using AwaitBatch.prems(1) by simp
    then show ?thesis using no_commit_keeps [OF nc t1(2) r1] no_commit_run [OF nc r1] t1 by (simp add: atomic_from_def)
  qed
next
  case (AwaitFinal op k)
  obtain f t1 where a: "ad_ExecuteFinalAndCommit ad op t = (f, t1)" by fastforce
  have kf: "k f = guard_final f (Leaf Success)" using AwaitFinal.prems(1) by simp
  obtain x where x: "guard_final f (Leaf Success) = Leaf x" using guard_final_leaf(1) [of f] unfolding is_leaf_def by blast
  show ?case using final_leaf_atomic [OF AwaitFinal.prems(2) a AwaitFinal.prems(3) x] AwaitFinal.prems(4) a kf x by simp
next
  case (AwaitCommit k)
  obtain c t1 where a: "ad_Commit ad t = (c, t1)" by fastforce
  have kc: "k c = guard_commit c (Leaf Success)" using AwaitCommit.prems(1) by simp
  obtain x where x: "guard_commit c (Leaf Success) = Leaf x" using guard_commit_leaf(1) [of c] unfolding is_leaf_def by blast
  show ?case using commit_leaf_atomic [OF AwaitCommit.prems(2) a AwaitCommit.prems(3) x] AwaitCommit.prems(4) a kc x by simp
next
  case (AwaitRollback k)
  obtain c t1 where a: "ad_Rollback ad t = (c, t1)" by fastforce
  obtain x where x: "k c = Leaf x" "x \<noteq> Success"
    using AwaitRollback.prems(1) unfolding disciplined.simps is_leaf_def by metis
  show ?case using rollback_keeps [OF AwaitRollback.prems(2) a] AwaitRollback.prems(4) a x by (simp add: atomic_from_def)
qed

end

end
