(* ===== verification/Pg_Adapter.thy ===== *)
theory Pg_Adapter
  imports Pg_Store Tx_Contract
begin

text \<open>
  \<^verbatim>\<open>tpcc/dbms/pgsql/tpcc_session.cpp\<close>: the adapter that runs the semantic operations as SQL on a
  PostgreSQL session, one definition per branch of \<^verbatim>\<open>TPgTpccTransaction::Execute\<close>, and the batch,
  commit and rollback operations over the terminal flag. Amounts travel as decimal text in both
  directions; printing and parsing them back is the identity, so columns and arguments are
  compared as cents. The one column whose text is not of the type it is read at,
  \<^verbatim>\<open>ol_quantity\<close>, is modelled with its text.
\<close>

section \<open>Results\<close>

definition FailOp :: "EErrorClass \<Rightarrow> string \<Rightarrow> string \<Rightarrow> TOperationResult" where
  "FailOp cls message code =
     \<lparr> or_Ok = False, or_ExpectedRows = 0, or_ActualRows = 0, or_ErrorClass = cls,
       or_NativeCode = code, or_Message = message, or_Payload = PNone \<rparr>"

definition OkOp :: "nat \<Rightarrow> nat \<Rightarrow> TOperationPayload \<Rightarrow> TOperationResult" where
  "OkOp expected actual payload =
     \<lparr> or_Ok = True, or_ExpectedRows = expected, or_ActualRows = actual, or_ErrorClass = Permanent,
       or_NativeCode = [], or_Message = [], or_Payload = payload \<rparr>"

definition CheckAffected :: "nat \<Rightarrow> nat \<Rightarrow> string \<Rightarrow> TOperationResult" where
  "CheckAffected actual expected what =
     (if actual \<noteq> expected
      then FailOp Integrity (what @ '': affected '' @ show_nat actual @ '' rows, expected '' @ show_nat expected) []
      else OkOp expected actual PNone)"

lemma OkOp_simps [simp]:
  "or_Ok (OkOp e a p)" "or_Payload (OkOp e a p) = p" "or_ActualRows (OkOp e a p) = a" "\<not> or_Ok (FailOp c m n)"
  by (simp_all add: OkOp_def FailOp_def)

lemma FailOp_class [simp]: "or_ErrorClass (FailOp c m n) = c"
  by (simp add: FailOp_def)

lemma CheckAffected_Ok [simp]: "or_Ok (CheckAffected a e w) \<longleftrightarrow> a = e"
  by (simp add: CheckAffected_def)

type_synonym pg_io = "(pg_db, TOperationResult) io"

definition MapAffected :: "(pg_db, nat) io \<Rightarrow> nat \<Rightarrow> string \<Rightarrow> pg_io" where
  "MapAffected future expected what =
     Then future (\<lambda>actual.
       MakeReadyFuture (if \<not> or_Ok (CheckAffected actual expected what) then CheckAffected actual expected what
                        else OkOp expected actual PNone))"

section \<open>Reading rows\<close>

definition ReadCustomer :: "customer_row \<Rightarrow> TCustomerRow" where
  "ReadCustomer c =
     \<lparr> cr_CustomerID = c_id c, cr_First = c_first c, cr_Middle = c_middle c, cr_Last = c_last c,
       cr_Street1 = c_street_1 c, cr_Street2 = c_street_2 c, cr_City = c_city c, cr_State = c_state c,
       cr_Zip = c_zip c, cr_Phone = c_phone c, cr_Since = c_since c, cr_Credit = c_credit c,
       cr_CreditLimit = TMoney (c_credit_lim c), cr_Discount = TRate (c_discount c),
       cr_Balance = TMoney (c_balance c), cr_YtdPayment = TMoney (c_ytd_payment c),
       cr_PaymentCount = c_payment_cnt c, cr_DeliveryCount = c_delivery_cnt c, cr_Data = [] \<rparr>"

definition ReadStock :: "stock_row \<Rightarrow> TStockKey \<Rightarrow> int \<Rightarrow> TStockRow" where
  "ReadStock s key districtId =
     \<lparr> sr_WarehouseID = sk_WarehouseID key, sr_ItemID = sk_ItemID key, sr_Quantity = s_quantity s,
       sr_Ytd = TMoney (s_ytd s * 100), sr_OrderCount = s_order_cnt s, sr_RemoteCount = s_remote_cnt s,
       sr_Data = s_data s,
       sr_DistInfo = (if 1 \<le> districtId \<and> districtId \<le> 10 then s_dist s ! nat (districtId - 1) else []) \<rparr>"

definition ReadItem :: "item_row \<Rightarrow> TItemRow" where
  "ReadItem i = \<lparr> ir_ItemID = i_id i, ir_Price = TMoney (i_price i), ir_Name = i_name i, ir_Data = i_data i \<rparr>"

text \<open>\<^verbatim>\<open>as<int32_t>\<close> of libpqxx: the whole text must be an integer. A \<^verbatim>\<open>decimal(6, 2)\<close> column is sent
  with two decimals.\<close>

fun all_digits :: "string \<Rightarrow> bool" where
  "all_digits cs \<longleftrightarrow> cs \<noteq> [] \<and> list_all is_digit cs"

definition pqxx_int :: "string \<Rightarrow> int option" where
  "pqxx_int s0 =
     (let s = dropWhile (\<lambda>c. c = CHR '' '' \<or> c = CHR 0x09) s0;
          negative = (s \<noteq> [] \<and> hd s = CHR ''-'');
          ds = (if negative then tl s else s);
          v = (if negative then - digits_val 0 ds else digits_val 0 ds) in
      if all_digits ds \<and> in_i32 v then Some v else None)"

definition decimal2_text :: "int \<Rightarrow> string" where
  "decimal2_text q = show_int q @ ''.00''"

definition GetInt32_decimal2 :: "int \<Rightarrow> (pg_db, int) io" where
  "GetInt32_decimal2 q s =
     (case pqxx_int (decimal2_text q) of
        Some v \<Rightarrow> (Inr v, s)
      | None \<Rightarrow> (Inl (StdException (''Could not convert '' @ decimal2_text q @ '' to int: Could not parse full string.'')), s))"

section \<open>The operations\<close>

definition pg_GetWarehouseTax :: "int \<Rightarrow> pg_io" where
  "pg_GetWarehouseTax w =
     Then (ExecuteQuery (\<lambda>db. filter (\<lambda>r. w_id r = w) (warehouse db))) (\<lambda>rows.
       MakeReadyFuture (case rows of
           [] \<Rightarrow> FailOp Integrity ''warehouse not found'' []
         | r # _ \<Rightarrow> OkOp 1 1 (PRate (TRate (w_tax r)))))"

definition pg_ReserveDistrictOrderId :: "int \<Rightarrow> int \<Rightarrow> pg_io" where
  "pg_ReserveDistrictOrderId w d =
     Then (ExecuteQuery (\<lambda>db. filter (\<lambda>r. d_key r = (w, d)) (district db))) (\<lambda>rows.
       case rows of
         [] \<Rightarrow> MakeReadyFuture (FailOp Integrity ''district not found'' [])
       | r # _ \<Rightarrow>
           (let nextId = d_next_o_id r; tax = TRate (d_tax r) in
            Then (of_result (i32 (nextId + 1))) (\<lambda>next1.
            Then (ExecuteModify (update_district (w, d) (\<lambda>x. x \<lparr> d_next_o_id := next1 \<rparr>))) (\<lambda>aff.
              MakeReadyFuture
                (let check = CheckAffected aff 1 ''district next order update'' in
                 if \<not> or_Ok check then check
                 else OkOp 1 1 (PReservation \<lparr> dr_NextOrderID = nextId, dr_DistrictTax = tax \<rparr>))))))"

definition pg_GetCustomerById :: "int \<Rightarrow> int \<Rightarrow> int \<Rightarrow> pg_io" where
  "pg_GetCustomerById w d c =
     Then (ExecuteQuery (\<lambda>db. filter (\<lambda>r. c_key r = (w, d, c)) (customer db))) (\<lambda>rows.
       MakeReadyFuture (case rows of
           [] \<Rightarrow> FailOp Integrity ''customer not found'' []
         | r # _ \<Rightarrow> OkOp 1 1 (PCustomer (ReadCustomer r))))"

text \<open>One query per element; the first one without a row is the failure of the whole operation.\<close>

definition get_rows :: "('k \<Rightarrow> pg_db \<Rightarrow> 'r list) \<Rightarrow> ('k \<Rightarrow> 'r \<Rightarrow> 'a) \<Rightarrow> string \<Rightarrow> 'k list
    \<Rightarrow> (pg_db, 'a list \<times> TOperationResult option) io" where
  "get_rows select read missing keys =
     ThenFold keys ([], None) (\<lambda>(found, failure) k.
       case failure of
         Some f \<Rightarrow> MakeReadyFuture (found, Some f)
       | None \<Rightarrow>
           Then (ExecuteQuery (select k)) (\<lambda>rows.
             MakeReadyFuture (case rows of
                 [] \<Rightarrow> (found, Some (FailOp Integrity missing []))
               | r # _ \<Rightarrow> (found @ [read k r], None))))"

definition pg_GetItems :: "int list \<Rightarrow> pg_io" where
  "pg_GetItems ids =
     Then (get_rows (\<lambda>id db. filter (\<lambda>r. i_id r = id) (item db)) (\<lambda>id. ReadItem) ''item not found'' ids) (\<lambda>(items, failure).
       MakeReadyFuture (case failure of
           Some f \<Rightarrow> f
         | None \<Rightarrow> OkOp (length ids) (length items) (PItems items)))"

definition pg_CreateOrder :: "int \<Rightarrow> int \<Rightarrow> int \<Rightarrow> int \<Rightarrow> int \<Rightarrow> int \<Rightarrow> pg_io" where
  "pg_CreateOrder w d oid c lineCount allLocal =
     Then (ExecuteModify (\<lambda>db. insert_oorder
         \<lparr> o_w_id = w, o_d_id = d, o_id = oid, o_c_id = c, o_carrier_id = None, o_ol_cnt = lineCount,
           o_all_local = allLocal, o_entry_d = current_timestamp db \<rparr> db)) (\<lambda>orderAffected.
       if \<not> or_Ok (CheckAffected orderAffected 1 ''oorder insert'')
       then MakeReadyFuture (CheckAffected orderAffected 1 ''oorder insert'')
       else Then (ExecuteModify (insert_new_order \<lparr> no_w_id = w, no_d_id = d, no_o_id = oid \<rparr>)) (\<lambda>newOrderAffected.
         MakeReadyFuture
           (let check = CheckAffected newOrderAffected 1 ''new_order insert'' in
            if \<not> or_Ok check then check else OkOp 2 2 PNone)))"

definition pg_UpdateStock :: "int \<Rightarrow> int \<Rightarrow> int \<Rightarrow> int \<Rightarrow> int \<Rightarrow> pg_io" where
  "pg_UpdateStock w i newQuantity orderedQuantity remoteIncrement =
     MapAffected (ExecuteModify (update_stock (w, i) (\<lambda>s. s
         \<lparr> s_quantity := newQuantity, s_ytd := s_ytd s + orderedQuantity, s_order_cnt := s_order_cnt s + 1,
           s_remote_cnt := s_remote_cnt s + remoteIncrement \<rparr>)))
       1 ''stock update''"

definition pg_InsertOrderLine :: "int \<Rightarrow> int \<Rightarrow> int \<Rightarrow> int \<Rightarrow> int \<Rightarrow> int \<Rightarrow> int \<Rightarrow> TMoney \<Rightarrow> string \<Rightarrow> pg_io" where
  "pg_InsertOrderLine w d oid number i supplyW quantity amount distInfo =
     MapAffected (ExecuteModify (insert_order_line
         \<lparr> ol_w_id = w, ol_d_id = d, ol_o_id = oid, ol_number = number, ol_i_id = i, ol_delivery_d = None,
           ol_amount = MoneyUnits amount, ol_supply_w_id = supplyW, ol_quantity = quantity, ol_dist_info = distInfo \<rparr>))
       1 ''order_line insert''"

definition low_stock_count :: "int \<Rightarrow> int \<Rightarrow> int \<Rightarrow> int \<Rightarrow> int \<Rightarrow> pg_db \<Rightarrow> nat" where
  "low_stock_count w d nextOid lowOid limit db =
     length (remdups (concat (map (\<lambda>l.
       map s_i_id (filter (\<lambda>s. s_key s = (w, ol_i_id l) \<and> s_quantity s < limit) (stock db)))
       (filter (\<lambda>l. ol_w_id l = w \<and> ol_d_id l = d \<and> ol_o_id l < nextOid \<and> ol_o_id l \<ge> lowOid) (order_line db)))))"

definition pg_CountRecentLowStock :: "int \<Rightarrow> int \<Rightarrow> int \<Rightarrow> int \<Rightarrow> pg_io" where
  "pg_CountRecentLowStock w d limit recent =
     Then (ExecuteQuery (\<lambda>db. filter (\<lambda>r. d_key r = (w, d)) (district db))) (\<lambda>rows.
       case rows of
         [] \<Rightarrow> MakeReadyFuture (FailOp Integrity ''district not found'' [])
       | r # _ \<Rightarrow>
           Then (of_result (i32 (d_next_o_id r - recent))) (\<lambda>lowOid.
           Then (ExecuteQuery (low_stock_count w d (d_next_o_id r) lowOid limit)) (\<lambda>n.
             MakeReadyFuture (OkOp 1 1 (PInt (int n))))))"

definition pg_GetOldestNewOrder :: "int \<Rightarrow> int \<Rightarrow> pg_io" where
  "pg_GetOldestNewOrder w d =
     Then (ExecuteQuery (\<lambda>db. first_by no_o_id (filter (\<lambda>n. no_w_id n = w \<and> no_d_id n = d) (new_order db)))) (\<lambda>row.
       MakeReadyFuture (case row of
           None \<Rightarrow> OkOp 0 0 (PInt 0)
         | Some n \<Rightarrow> OkOp 1 1 (PInt (no_o_id n))))"

definition location_info :: "warehouse_row list \<Rightarrow> district_row list \<Rightarrow> TWarehouseDistrictInfo" where
  "location_info ws ds =
     (let w = (\<lambda>f. case ws of [] \<Rightarrow> [] | r # _ \<Rightarrow> f r); d = (\<lambda>f. case ds of [] \<Rightarrow> [] | r # _ \<Rightarrow> f r) in
      \<lparr> wd_WarehouseName = w w_name, wd_WarehouseStreet1 = w w_street_1, wd_WarehouseStreet2 = w w_street_2,
        wd_WarehouseCity = w w_city, wd_WarehouseState = w w_state, wd_WarehouseZip = w w_zip,
        wd_DistrictName = d d_name, wd_DistrictStreet1 = d d_street_1, wd_DistrictStreet2 = d d_street_2,
        wd_DistrictCity = d d_city, wd_DistrictState = d d_state, wd_DistrictZip = d d_zip \<rparr>)"

definition pg_ApplyPaymentToLocation :: "int \<Rightarrow> int \<Rightarrow> TMoney \<Rightarrow> pg_io" where
  "pg_ApplyPaymentToLocation w d amount =
     Then (ExecuteModify (update_warehouse w (\<lambda>r. r \<lparr> w_ytd := w_ytd r + MoneyUnits amount \<rparr>))) (\<lambda>whAffected.
       if \<not> or_Ok (CheckAffected whAffected 1 ''warehouse payment update'')
       then MakeReadyFuture (CheckAffected whAffected 1 ''warehouse payment update'')
       else Then (ExecuteModify (update_district (w, d) (\<lambda>r. r \<lparr> d_ytd := d_ytd r + MoneyUnits amount \<rparr>))) (\<lambda>distAffected.
         if \<not> or_Ok (CheckAffected distAffected 1 ''district payment update'')
         then MakeReadyFuture (CheckAffected distAffected 1 ''district payment update'')
         else
           Then (ExecuteQuery (\<lambda>db. filter (\<lambda>r. w_id r = w) (warehouse db))) (\<lambda>wh.
           Then (ExecuteQuery (\<lambda>db. filter (\<lambda>r. d_key r = (w, d)) (district db))) (\<lambda>dist.
             MakeReadyFuture (OkOp 2 2 (PLocation (location_info wh dist)))))))"

definition pg_InsertPaymentHistory :: "int \<Rightarrow> int \<Rightarrow> int \<Rightarrow> int \<Rightarrow> int \<Rightarrow> TMoney \<Rightarrow> string \<Rightarrow> pg_io" where
  "pg_InsertPaymentHistory cw cd c w d amount data =
     MapAffected (ExecuteModify (\<lambda>db. insert_history
         \<lparr> h_c_id = c, h_c_d_id = cd, h_c_w_id = cw, h_d_id = d, h_w_id = w, h_date = current_timestamp db,
           h_amount = MoneyUnits amount, h_data = data \<rparr> db))
       1 ''history insert''"

definition pg_GetCustomersByLastName :: "int \<Rightarrow> int \<Rightarrow> string \<Rightarrow> pg_io" where
  "pg_GetCustomersByLastName w d lastName =
     Then (ExecuteQuery (\<lambda>db. sort_key (\<lambda>r. collation_key db (c_first r))
         (filter (\<lambda>r. c_w_id r = w \<and> c_d_id r = d \<and> c_last r = lastName) (customer db)))) (\<lambda>rows.
       MakeReadyFuture (OkOp (length rows) (length rows) (PCustomers (map ReadCustomer rows))))"

definition pg_GetStocksForUpdate :: "int \<Rightarrow> TStockKey list \<Rightarrow> pg_io" where
  "pg_GetStocksForUpdate districtId keys =
     Then (get_rows (\<lambda>key db. filter (\<lambda>r. s_key r = (sk_WarehouseID key, sk_ItemID key)) (stock db))
             (\<lambda>key r. ReadStock r key districtId) ''stock not found'' keys) (\<lambda>(rows, failure).
       MakeReadyFuture (case failure of
           Some f \<Rightarrow> f
         | None \<Rightarrow> OkOp (length keys) (length rows) (PStocks rows)))"

definition pg_GetCustomerData :: "int \<Rightarrow> int \<Rightarrow> int \<Rightarrow> pg_io" where
  "pg_GetCustomerData w d c =
     Then (ExecuteQuery (\<lambda>db. filter (\<lambda>r. c_key r = (w, d, c)) (customer db))) (\<lambda>rows.
       MakeReadyFuture (case rows of
           [] \<Rightarrow> FailOp Integrity ''customer not found'' []
         | r # _ \<Rightarrow> OkOp 1 1 (PString (c_data r))))"

definition pg_UpdateCustomerPayment ::
    "int \<Rightarrow> int \<Rightarrow> int \<Rightarrow> TMoney \<Rightarrow> TMoney \<Rightarrow> int \<Rightarrow> bool \<Rightarrow> string \<Rightarrow> pg_io" where
  "pg_UpdateCustomerPayment w d c newBalance newYtdPayment newPaymentCount updateData newData =
     (if updateData then
        MapAffected (ExecuteModify (update_customer (w, d, c) (\<lambda>r. r
            \<lparr> c_balance := MoneyUnits newBalance, c_ytd_payment := MoneyUnits newYtdPayment,
              c_payment_cnt := newPaymentCount, c_data := newData \<rparr>)))
          1 ''customer payment update''
      else
        MapAffected (ExecuteModify (update_customer (w, d, c) (\<lambda>r. r
            \<lparr> c_balance := MoneyUnits newBalance, c_ytd_payment := MoneyUnits newYtdPayment,
              c_payment_cnt := newPaymentCount \<rparr>)))
          1 ''customer payment update'')"

definition pg_GetLatestCustomerOrder :: "int \<Rightarrow> int \<Rightarrow> int \<Rightarrow> pg_io" where
  "pg_GetLatestCustomerOrder w d c =
     Then (ExecuteQuery (\<lambda>db. last_by o_id (filter (\<lambda>x. o_customer x = (w, d, c)) (oorder db)))) (\<lambda>row.
       MakeReadyFuture (case row of
           None \<Rightarrow> OkOp 0 0 PNone
         | Some x \<Rightarrow> OkOp 1 1 (POrderHeader
             \<lparr> oh_OrderID = o_id x, oh_CustomerID = o_c_id x, oh_CarrierID = o_carrier_id x,
               oh_EntryDate = o_entry_d x \<rparr>)))"

definition pg_GetOrderStatusLines :: "int \<Rightarrow> int \<Rightarrow> int \<Rightarrow> pg_io" where
  "pg_GetOrderStatusLines w d oid =
     Then (ExecuteQuery (\<lambda>db. filter (\<lambda>l. ol_order l = (w, d, oid)) (order_line db))) (\<lambda>rows.
     Then (ThenFold rows [] (\<lambda>ls l.
         Then (GetInt32_decimal2 (ol_quantity l)) (\<lambda>quantity.
           MakeReadyFuture (ls @ [\<lparr> sl_ItemID = ol_i_id l, sl_SupplyWarehouseID = ol_supply_w_id l,
             sl_Quantity = quantity, sl_Amount = TMoney (ol_amount l),
             sl_DeliveryDate = (case ol_delivery_d l of None \<Rightarrow> [] | Some t \<Rightarrow> t) \<rparr>])))) (\<lambda>ls.
       MakeReadyFuture (OkOp (length ls) (length ls) (PLines ls))))"

fun total_cents :: "int \<Rightarrow> order_line_row list \<Rightarrow> int result" where
  "total_cents acc [] = Inr acc"
| "total_cents acc (l # ls) = bind_r (i64 (acc + ol_amount l)) (\<lambda>t. total_cents t ls)"

definition pg_GetDeliveryOrderInfo :: "int \<Rightarrow> int \<Rightarrow> int \<Rightarrow> pg_io" where
  "pg_GetDeliveryOrderInfo w d oid =
     Then (ExecuteQuery (\<lambda>db. filter (\<lambda>x. o_key x = (w, d, oid)) (oorder db))) (\<lambda>rows.
       case rows of
         [] \<Rightarrow> MakeReadyFuture (FailOp Integrity ''order not found'' [])
       | x # _ \<Rightarrow>
           Then (ExecuteQuery (\<lambda>db. filter (\<lambda>l. ol_order l = (w, d, oid)) (order_line db))) (\<lambda>ls.
           Then (of_result (total_cents 0 ls)) (\<lambda>totalCents.
             MakeReadyFuture (OkOp 1 1 (PDeliveryInfo
               \<lparr> di_CustomerID = o_c_id x, di_TotalAmount = FromCents totalCents, di_LineCount = int (length ls) \<rparr>)))))"

text \<open>The expected count is an \<^verbatim>\<open>int\<close> converted to \<^verbatim>\<open>uint64_t\<close>.\<close>

definition pg_CompleteOrderDelivery :: "int \<Rightarrow> int \<Rightarrow> int \<Rightarrow> int \<Rightarrow> int \<Rightarrow> pg_io" where
  "pg_CompleteOrderDelivery w d oid carrier lineCount =
     Then (ExecuteModify (delete_new_order (w, d, oid))) (\<lambda>deleted.
       if deleted = 0
       then MakeReadyFuture (FailOp RetryableAbort ''new_order row already claimed by concurrent delivery'' [])
       else if deleted \<noteq> 1 then MakeReadyFuture (CheckAffected deleted 1 ''new_order delivery delete'')
       else Then (ExecuteModify (update_oorder (w, d, oid) (\<lambda>x. x \<lparr> o_carrier_id := Some carrier \<rparr>))) (\<lambda>orderAffected.
         if \<not> or_Ok (CheckAffected orderAffected 1 ''order carrier update'')
         then MakeReadyFuture (CheckAffected orderAffected 1 ''order carrier update'')
         else Then (ExecuteModify (\<lambda>db. update_order_lines (w, d, oid)
                     (\<lambda>l. l \<lparr> ol_delivery_d := Some (current_timestamp db) \<rparr>) db)) (\<lambda>linesAffected.
           MakeReadyFuture
             (let check = CheckAffected linesAffected (nat (lineCount mod 2 ^ 64)) ''order_line delivery update'' in
              if \<not> or_Ok check then check else OkOp 3 3 PNone))))"

definition pg_ApplyDeliveryToCustomer :: "int \<Rightarrow> int \<Rightarrow> int \<Rightarrow> TMoney \<Rightarrow> pg_io" where
  "pg_ApplyDeliveryToCustomer w d c amount =
     MapAffected (ExecuteModify (update_customer (w, d, c) (\<lambda>r. r
         \<lparr> c_balance := c_balance r + MoneyUnits amount, c_delivery_cnt := c_delivery_cnt r + 1 \<rparr>)))
       1 ''customer delivery update''"

fun pg_body :: "TSemanticOp \<Rightarrow> pg_io" where
  "pg_body (TGetWarehouseTax w) = pg_GetWarehouseTax w"
| "pg_body (TReserveDistrictOrderId w d) = pg_ReserveDistrictOrderId w d"
| "pg_body (TGetCustomerById w d c) = pg_GetCustomerById w d c"
| "pg_body (TGetItems ids) = pg_GetItems ids"
| "pg_body (TCreateOrder w d oid c n a) = pg_CreateOrder w d oid c n a"
| "pg_body (TUpdateStock w i q oq ri y oc rc) = pg_UpdateStock w i q oq ri"
| "pg_body (TInsertOrderLine w d oid n i sw q a di) = pg_InsertOrderLine w d oid n i sw q a di"
| "pg_body (TCountRecentLowStock w d t n) = pg_CountRecentLowStock w d t n"
| "pg_body (TGetOldestNewOrder w d) = pg_GetOldestNewOrder w d"
| "pg_body (TApplyPaymentToLocation w d a) = pg_ApplyPaymentToLocation w d a"
| "pg_body (TInsertPaymentHistory cw cd c w d a data) = pg_InsertPaymentHistory cw cd c w d a data"
| "pg_body (TGetCustomersByLastName w d n) = pg_GetCustomersByLastName w d n"
| "pg_body (TGetStocksForUpdate d ks) = pg_GetStocksForUpdate d ks"
| "pg_body (TGetCustomerData w d c) = pg_GetCustomerData w d c"
| "pg_body (TUpdateCustomerPayment w d c b y n u data) = pg_UpdateCustomerPayment w d c b y n u data"
| "pg_body (TGetLatestCustomerOrder w d c) = pg_GetLatestCustomerOrder w d c"
| "pg_body (TGetOrderStatusLines w d oid) = pg_GetOrderStatusLines w d oid"
| "pg_body (TGetDeliveryOrderInfo w d oid) = pg_GetDeliveryOrderInfo w d oid"
| "pg_body (TCompleteOrderDelivery w d oid ca n) = pg_CompleteOrderDelivery w d oid ca n"
| "pg_body (TApplyDeliveryToCustomer w d c a) = pg_ApplyDeliveryToCustomer w d c a"

section \<open>The transaction object\<close>

record TPgTpccTransaction =
  tx_Session :: "pg_db PgSession"
  tx_Terminal :: bool

definition CatchOp :: "pg_io \<Rightarrow> pg_db PgSession \<Rightarrow> TOperationResult \<times> pg_db PgSession" where
  "CatchOp future = CatchToValue future (\<lambda>ex. FailOp (ClassifyException ex) (what_of ex) (PgSqlStateOf ex))"

definition pg_Execute :: "TSemanticOp \<Rightarrow> TPgTpccTransaction \<Rightarrow> TOperationResult \<times> TPgTpccTransaction" where
  "pg_Execute op tx =
     (if tx_Terminal tx then (FailOp Permanent ''Execute called in terminal state'' [], tx)
      else case CatchOp (pg_body op) (tx_Session tx) of (r, s) \<Rightarrow> (r, tx \<lparr> tx_Session := s \<rparr>))"

definition pg_Commit :: "TPgTpccTransaction \<Rightarrow> TCommitResult \<times> TPgTpccTransaction" where
  "pg_Commit tx =
     (if tx_Terminal tx
      then (\<lparr> cm_Outcome = OutcomeUnknown, cm_ErrorClass = Permanent, cm_NativeCode = [],
              cm_Message = ''Commit called in terminal state'' \<rparr>, tx)
      else case session_Commit (tx_Session tx) of
        (Inr u, s) \<Rightarrow>
          (\<lparr> cm_Outcome = Committed, cm_ErrorClass = Permanent, cm_NativeCode = [], cm_Message = [] \<rparr>,
           tx \<lparr> tx_Session := s, tx_Terminal := True \<rparr>)
      | (Inl ex, s) \<Rightarrow>
          (let cls = ClassifyCommitException ex in
           (\<lparr> cm_Outcome = (if cls = AmbiguousCommit then OutcomeUnknown else RolledBack), cm_ErrorClass = cls,
              cm_NativeCode = PgSqlStateOf ex, cm_Message = what_of ex \<rparr>,
            tx \<lparr> tx_Session := s, tx_Terminal := True \<rparr>)))"

definition pg_Rollback :: "TPgTpccTransaction \<Rightarrow> TCommitResult \<times> TPgTpccTransaction" where
  "pg_Rollback tx =
     (if tx_Terminal tx
      then (\<lparr> cm_Outcome = OutcomeUnknown, cm_ErrorClass = Permanent, cm_NativeCode = [],
              cm_Message = ''Rollback called in terminal state'' \<rparr>, tx)
      else case session_Rollback (tx_Session tx) of
        (Inr u, s) \<Rightarrow>
          (\<lparr> cm_Outcome = RolledBack, cm_ErrorClass = Permanent, cm_NativeCode = [], cm_Message = [] \<rparr>,
           tx \<lparr> tx_Session := s, tx_Terminal := True \<rparr>)
      | (Inl ex, s) \<Rightarrow>
          (\<lparr> cm_Outcome = OutcomeUnknown, cm_ErrorClass = ClassifyException ex,
             cm_NativeCode = PgSqlStateOf ex, cm_Message = what_of ex \<rparr>,
           tx \<lparr> tx_Session := s, tx_Terminal := True \<rparr>))"

definition pg_Cancel :: "TPgTpccTransaction \<Rightarrow> TCommitResult \<times> TPgTpccTransaction" where
  "pg_Cancel tx = (case pg_Rollback tx of (c, tx') \<Rightarrow> (c \<lparr> cm_ErrorClass := Cancelled \<rparr>, tx'))"

text \<open>The fold of \<^verbatim>\<open>ExecuteBatch\<close>: once an operation has failed the rest is not executed.\<close>

fun pg_batch :: "TBatchResult \<Rightarrow> TSemanticOp list \<Rightarrow> TPgTpccTransaction \<Rightarrow> TBatchResult \<times> TPgTpccTransaction" where
  "pg_batch acc [] tx = (acc, tx)"
| "pg_batch acc (op # ops) tx =
     (if \<not> br_Ok acc then pg_batch acc ops tx
      else case pg_Execute op tx of (one, tx') \<Rightarrow>
        pg_batch
          (let acc' = acc \<lparr> br_Results := br_Results acc @ [one] \<rparr> in
           if \<not> or_Ok one
           then acc' \<lparr> br_Ok := False, br_ErrorClass := or_ErrorClass one, br_NativeCode := or_NativeCode one,
                       br_Message := or_Message one \<rparr>
           else acc')
          ops tx')"

definition pg_ExecuteBatch :: "TSemanticOp list \<Rightarrow> TPgTpccTransaction \<Rightarrow> TBatchResult \<times> TPgTpccTransaction" where
  "pg_ExecuteBatch ops tx =
     pg_batch \<lparr> br_Ok = True, br_ErrorClass = Permanent, br_NativeCode = [], br_Message = [], br_Results = [] \<rparr> ops tx"

definition pg_ExecuteFinalAndCommit :: "TSemanticOp \<Rightarrow> TPgTpccTransaction \<Rightarrow> TFinalCommitResult \<times> TPgTpccTransaction" where
  "pg_ExecuteFinalAndCommit op tx =
     (case pg_Execute op tx of (operation, tx1) \<Rightarrow>
        case (if \<not> or_Ok operation then pg_Rollback tx1 else pg_Commit tx1) of (c, tx2) \<Rightarrow>
          (\<lparr> fc_Operation = operation, fc_Commit = c \<rparr>, tx2))"

definition pg_adapter :: "TPgTpccTransaction adapter" where
  "pg_adapter =
     \<lparr> ad_Execute = pg_Execute, ad_ExecuteBatch = pg_ExecuteBatch,
       ad_ExecuteFinalAndCommit = pg_ExecuteFinalAndCommit, ad_Commit = pg_Commit, ad_Rollback = pg_Rollback \<rparr>"

text \<open>\<^verbatim>\<open>TPgTpccSession::Begin\<close> on an idle session.\<close>

definition pg_Begin :: "pg_db \<Rightarrow> reply list \<Rightarrow> TPgTpccTransaction" where
  "pg_Begin db script =
     \<lparr> tx_Session = \<lparr> ss_disk = db, ss_txn = None, ss_open = True, ss_broken = False, ss_shutdown = False,
                      ss_script = script \<rparr>,
       tx_Terminal = False \<rparr>"

section \<open>The adapter keeps the contract\<close>

lemma faithful_case_list [faithful_intros]:
  "faithful m \<Longrightarrow> (\<And>x xs. faithful (k x xs)) \<Longrightarrow> faithful (case l of [] \<Rightarrow> m | x # xs \<Rightarrow> k x xs)"
  by (simp split: list.splits)

lemma faithful_case_prod [faithful_intros]: "(\<And>x y. faithful (k x y)) \<Longrightarrow> faithful (case p of (x, y) \<Rightarrow> k x y)"
  by (simp split: prod.splits)

lemma faithful_MapAffected [faithful_intros]: "faithful m \<Longrightarrow> faithful (MapAffected m e w)"
  by (simp add: MapAffected_def faithful_intros)

lemma faithful_GetInt32 [faithful_intros]: "faithful (GetInt32_decimal2 q)"
  by (simp add: faithful_def GetInt32_decimal2_def split: option.splits)

lemma faithful_get_rows [faithful_intros]: "faithful (get_rows sel rd miss keys)"
  unfolding get_rows_def by (rule faithful_ThenFold) (auto intro!: faithful_intros split: prod.split)

lemmas pg_op_defs =
  pg_GetWarehouseTax_def pg_ReserveDistrictOrderId_def pg_GetCustomerById_def pg_GetItems_def pg_CreateOrder_def
  pg_UpdateStock_def pg_InsertOrderLine_def pg_CountRecentLowStock_def pg_GetOldestNewOrder_def
  pg_ApplyPaymentToLocation_def pg_InsertPaymentHistory_def pg_GetCustomersByLastName_def
  pg_GetStocksForUpdate_def pg_GetCustomerData_def pg_UpdateCustomerPayment_def pg_GetLatestCustomerOrder_def
  pg_GetOrderStatusLines_def pg_GetDeliveryOrderInfo_def pg_CompleteOrderDelivery_def pg_ApplyDeliveryToCustomer_def

lemma pg_body_faithful: "faithful (pg_body op)"
  by (cases op; simp only: pg_body.simps pg_op_defs Let_def; intro faithful_intros)

text \<open>The result and the new database of an operation that the server serves.\<close>

definition pg_sem :: "TSemanticOp \<Rightarrow> pg_db \<Rightarrow> (TOperationResult \<times> pg_db) option" where
  "pg_sem op db = (case pg_body op (clean db db) of (Inr r, s) \<Rightarrow> Some (r, the (view s)) | (Inl e, s) \<Rightarrow> None)"

abbreviation pg_disk :: "TPgTpccTransaction \<Rightarrow> pg_db" where
  "pg_disk tx \<equiv> ss_disk (tx_Session tx)"

abbreviation pg_work :: "TPgTpccTransaction \<Rightarrow> pg_db option" where
  "pg_work tx \<equiv> view (tx_Session tx)"

definition pg_okay :: "TPgTpccTransaction \<Rightarrow> bool" where
  "pg_okay tx \<longleftrightarrow> no_lost_effect (ss_script (tx_Session tx))"

lemma pg_Execute_keeps:
  assumes "pg_okay t" "pg_Execute op t = (r, t')"
  shows "pg_disk t' = pg_disk t \<and> pg_okay t'"
proof (cases "tx_Terminal t")
  case True
  with assms show ?thesis by (auto simp: pg_Execute_def)
next
  case False
  obtain x s where b: "pg_body op (tx_Session t) = (x, s)" by fastforce
  from assms(2) False b have "t' = t \<lparr> tx_Session := s \<rparr>"
    by (cases x) (auto simp: pg_Execute_def CatchOp_def CatchToValue_def)
  with faithful_disk [OF pg_body_faithful b] assms(1) show ?thesis by (simp add: pg_okay_def)
qed

lemma pg_Execute_sem:
  assumes "pg_Execute op t = (r, t')" "or_Ok r" "pg_work t = Some w"
  shows "\<exists>w'. pg_work t' = Some w' \<and> pg_sem op w = Some (r, w')"
proof -
  obtain x s where b: "pg_body op (tx_Session t) = (x, s)" by fastforce
  have "\<not> tx_Terminal t" using assms(1,2) by (auto simp: pg_Execute_def)
  then have x: "x = Inr r" and t': "t' = t \<lparr> tx_Session := s \<rparr>"
    using assms(1,2) b by (cases x; auto simp: pg_Execute_def CatchOp_def CatchToValue_def)+
  obtain w' where "view s = Some w'" "pg_body op (clean w w) = (Inr r, clean w w')"
    using faithful_view [OF pg_body_faithful] b x assms(3) by blast
  with t' show ?thesis by (simp add: pg_sem_def)
qed

lemma pg_batch_failed [simp]: "\<not> br_Ok acc \<Longrightarrow> pg_batch acc ops t = (acc, t)"
  by (induction ops) simp_all

lemma pg_batch_keeps:
  "pg_okay t \<Longrightarrow> pg_batch acc ops t = (b, t') \<Longrightarrow> pg_disk t' = pg_disk t \<and> pg_okay t'"
proof (induction acc ops t rule: pg_batch.induct)
  case (1 acc tx)
  then show ?case by simp
next
  case (2 acc op ops tx)
  show ?case
  proof (cases "br_Ok acc")
    case False
    with 2 show ?thesis by simp
  next
    case True
    obtain one tx1 where e: "pg_Execute op tx = (one, tx1)" by fastforce
    note k = pg_Execute_keeps [OF 2(3) e]
    show ?thesis using 2(2) [OF _ e [symmetric]] 2(3,4) True e k by simp
  qed
qed

lemma pg_batch_sem:
  "pg_batch acc ops t = (b, t') \<Longrightarrow> br_Ok acc \<Longrightarrow> br_Ok b \<Longrightarrow> pg_work t = Some w \<Longrightarrow>
     \<exists>w' rs. pg_work t' = Some w' \<and> sem_ops pg_sem ops w = Some (rs, w') \<and> br_Results b = br_Results acc @ rs"
proof (induction ops arbitrary: acc t w)
  case Nil
  then show ?case by auto
next
  case (Cons op ops)
  obtain one tx1 where e: "pg_Execute op t = (one, tx1)" by fastforce
  have ok: "or_Ok one" using Cons.prems(1-3) e by (auto simp: Let_def split: if_splits)
  obtain w1 where w1: "pg_work tx1 = Some w1" "pg_sem op w = Some (one, w1)"
    using pg_Execute_sem [OF e ok Cons.prems(4)] by blast
  have "pg_batch (acc \<lparr> br_Results := br_Results acc @ [one] \<rparr>) ops tx1 = (b, t')"
    using Cons.prems(1,2) e ok by simp
  from Cons.IH [OF this _ Cons.prems(3) w1(1)] Cons.prems(2) w1(2) ok show ?case by auto
qed

lemma pg_Commit_sem:
  assumes "pg_okay t" "pg_Commit t = (c, t')" "pg_work t = Some w"
  shows "if cm_Outcome c = Committed then pg_disk t' = w else pg_disk t' = pg_disk t"
proof (cases "tx_Terminal t")
  case True
  with assms(2) show ?thesis by (auto simp: pg_Commit_def)
next
  case False
  obtain x s where b: "session_Commit (tx_Session t) = (x, s)" by fastforce
  from session_Commit_cases [OF b] show ?thesis
    using assms False b by (cases x) (auto simp: pg_Commit_def pg_okay_def Let_def split: if_splits)
qed

lemma pg_Rollback_keeps:
  assumes "pg_okay t" "pg_Rollback t = (c, t')"
  shows "pg_disk t' = pg_disk t \<and> pg_okay t'"
proof (cases "tx_Terminal t")
  case True
  with assms show ?thesis by (auto simp: pg_Rollback_def)
next
  case False
  obtain x s where b: "session_Rollback (tx_Session t) = (x, s)" by fastforce
  have "ss_disk s = pg_disk t" "no_lost_effect (ss_script s)"
    using session_Rollback_simp(2,3) [of "tx_Session t"] b assms(1) by (simp_all add: pg_okay_def)
  then show ?thesis using assms(2) False b by (cases x) (auto simp: pg_Rollback_def pg_okay_def)
qed

lemma pg_final_sem:
  assumes "pg_okay t" "pg_ExecuteFinalAndCommit op t = (f, t')" "pg_work t = Some w"
  shows "if final_confirmed f then pg_sem op w = Some (fc_Operation f, pg_disk t') else pg_disk t' = pg_disk t"
proof -
  obtain r t1 where e: "pg_Execute op t = (r, t1)" by fastforce
  note k = pg_Execute_keeps [OF assms(1) e]
  show ?thesis
  proof (cases "or_Ok r")
    case False
    obtain c t2 where b: "pg_Rollback t1 = (c, t2)" by fastforce
    have "pg_disk t2 = pg_disk t1" using pg_Rollback_keeps [OF _ b] k by simp
    with assms(2) e False b k show ?thesis by (auto simp: pg_ExecuteFinalAndCommit_def final_confirmed_def)
  next
    case True
    obtain c t2 where b: "pg_Commit t1 = (c, t2)" by fastforce
    obtain w' where w': "pg_work t1 = Some w'" "pg_sem op w = Some (r, w')"
      using pg_Execute_sem [OF e True assms(3)] by blast
    from pg_Commit_sem [OF _ b w'(1)] k assms(2) e True b w'(2) show ?thesis
      by (auto simp: pg_ExecuteFinalAndCommit_def final_confirmed_def split: if_splits)
  qed
qed

interpretation pgtx: tx_contract pg_adapter pg_disk pg_work pg_sem pg_okay False
proof unfold_locales
  show "pg_disk t' = pg_disk t \<and> pg_okay t'" if "pg_okay t" "ad_Execute pg_adapter op t = (r, t')" for t op r t'
    using pg_Execute_keeps [OF that(1), of op r t'] that(2) by (simp add: pg_adapter_def)
  show "\<exists>w'. pg_work t' = Some w' \<and> pg_sem op w = Some (r, w')"
    if "pg_okay t" "ad_Execute pg_adapter op t = (r, t')" "or_Ok r" "pg_work t = Some w" for t op r t' w
    using pg_Execute_sem [of op t r t' w] that by (simp add: pg_adapter_def)
  show "pg_disk t' = pg_disk t \<and> pg_okay t'" if "pg_okay t" "ad_ExecuteBatch pg_adapter ops t = (b, t')" for t ops b t'
    using pg_batch_keeps [OF that(1), of _ ops b t'] that(2) by (simp add: pg_adapter_def pg_ExecuteBatch_def)
  show "\<exists>w'. pg_work t' = Some w' \<and> sem_ops pg_sem ops w = Some (br_Results b, w')"
    if "pg_okay t" "ad_ExecuteBatch pg_adapter ops t = (b, t')" "br_Ok b" "pg_work t = Some w" for t ops b t' w
    using pg_batch_sem [of _ ops t b t' w] that by (fastforce simp: pg_adapter_def pg_ExecuteBatch_def)
  show "if cm_Outcome c = Committed then pg_disk t' = w
        else pg_disk t' = pg_disk t \<or> False \<and> pg_disk t' = w \<and> cm_ErrorClass c = AmbiguousCommit"
    if "pg_okay t" "ad_Commit pg_adapter t = (c, t')" "pg_work t = Some w" for t c t' w
    using pg_Commit_sem [OF that(1) _ that(3)] that(2) by (simp add: pg_adapter_def)
  show "if final_confirmed f then pg_sem op w = Some (fc_Operation f, pg_disk t')
        else pg_disk t' = pg_disk t \<or> False \<and> or_Ok (fc_Operation f) \<and> pg_sem op w = Some (fc_Operation f, pg_disk t')
          \<and> cm_ErrorClass (fc_Commit f) = AmbiguousCommit"
    if "pg_okay t" "ad_ExecuteFinalAndCommit pg_adapter op t = (f, t')" "pg_work t = Some w" for t op f t' w
    using pg_final_sem [OF that(1) _ that(3)] that(2) by (simp add: pg_adapter_def)
  show "pg_disk t' = pg_disk t \<and> pg_okay t'" if "pg_okay t" "ad_Rollback pg_adapter t = (c, t')" for t c t'
    using pg_Rollback_keeps [OF that(1), of c t'] that(2) by (simp add: pg_adapter_def)
qed

end
