(* ===== verification/Pg_Effects.thy ===== *)
theory Pg_Effects
  imports Pg_Adapter
begin

text \<open>
  What the operations of the PostgreSQL adapter do to the database when they succeed, and from it
  the whole effect of each committed workflow.
\<close>

section \<open>Reading operations\<close>

definition reads :: "('db, 'a) io \<Rightarrow> bool" where
  "reads m \<longleftrightarrow> (\<forall>d w a s. m (clean d w) = (Inr a, s) \<longrightarrow> s = clean d w)"

named_theorems reads_intros \<open>chains of statements that only read\<close>

lemma reads_basic [reads_intros]:
  "reads (MakeReadyFuture a)" "reads (ExecuteQuery q)" "reads (of_result r)" "reads (GetInt32_decimal2 n)"
  by (auto simp: reads_def of_result_def GetInt32_decimal2_def split: sum.splits option.splits)

lemma reads_Then [reads_intros]: "reads m \<Longrightarrow> (\<And>x. reads (k x)) \<Longrightarrow> reads (Then m k)"
  unfolding reads_def Then_def by (fastforce split: prod.splits sum.splits)

lemma reads_ThenFold [reads_intros]: "(\<And>acc x. reads (step acc x)) \<Longrightarrow> reads (ThenFold xs acc step)"
  by (induction xs arbitrary: acc) (simp_all add: reads_intros)

lemma reads_cases [reads_intros]:
  "reads m \<Longrightarrow> (\<And>x xs. reads (k x xs)) \<Longrightarrow> reads (case l of [] \<Rightarrow> m | x # xs \<Rightarrow> k x xs)"
  "(\<And>x y. reads (k2 x y)) \<Longrightarrow> reads (case p of (x, y) \<Rightarrow> k2 x y)"
  by (simp_all split: list.splits prod.splits)

lemma reads_get_rows [reads_intros]: "reads (get_rows sel rd miss keys)"
  unfolding get_rows_def
  by (rule reads_ThenFold) (auto intro!: reads_intros split: prod.split option.split)

fun reading :: "TSemanticOp \<Rightarrow> bool" where
  "reading (TReserveDistrictOrderId w d) = False"
| "reading (TCreateOrder w d oid c n a) = False"
| "reading (TUpdateStock w i q oq ri y oc rc) = False"
| "reading (TInsertOrderLine w d oid n i sw q a di) = False"
| "reading (TApplyPaymentToLocation w d a) = False"
| "reading (TInsertPaymentHistory cw cd c w d a data) = False"
| "reading (TUpdateCustomerPayment w d c b y n u data) = False"
| "reading (TCompleteOrderDelivery w d oid ca n) = False"
| "reading (TApplyDeliveryToCustomer w d c a) = False"
| "reading op = True"

lemma reading_reads: "reading op \<Longrightarrow> reads (pg_body op)"
  by (cases op; simp only: reading.simps pg_body.simps pg_op_defs Let_def; intro reads_intros)

lemma pg_sem_reading: "reading op \<Longrightarrow> pg_sem op db = Some (r, db') \<Longrightarrow> db' = db"
  using reading_reads [of op] unfolding reads_def
  by (fastforce simp: pg_sem_def split: prod.splits sum.splits)

lemma pg_sem_customer:
  assumes "pg_sem (TGetCustomerById w d c) db = Some (r, db')" "or_Payload r = PCustomer cust"
  shows "\<exists>row \<in> set (customer db). c_key row = (w, d, c) \<and> cust = ReadCustomer row"
  using assms
  by (auto simp: pg_sem_def pg_GetCustomerById_def Then_def FailOp_def filter_eq_Cons_iff split: list.splits)

lemma pg_sem_customers:
  assumes "pg_sem (TGetCustomersByLastName w d n) db = Some (r, db')" "or_Payload r = PCustomers cs" "cust \<in> set cs"
  shows "\<exists>row \<in> set (customer db). c_w_id row = w \<and> c_d_id row = d \<and> cust = ReadCustomer row"
  using assms by (fastforce simp: pg_sem_def pg_GetCustomersByLastName_def Then_def)

lemma pg_sem_oldest:
  assumes "pg_sem (TGetOldestNewOrder w d) db = Some (r, db')" "or_ActualRows r \<noteq> 0" "or_Payload r = PInt oid"
  shows "\<exists>n \<in> set (new_order db). no_key n = (w, d, oid) \<and>
    (\<forall>m \<in> set (new_order db). no_w_id m = w \<longrightarrow> no_d_id m = d \<longrightarrow> oid \<le> no_o_id m)"
proof -
  obtain n where n: "first_by no_o_id (filter (\<lambda>n. no_w_id n = w \<and> no_d_id n = d) (new_order db)) = Some n"
    "oid = no_o_id n"
    using assms by (auto simp: pg_sem_def pg_GetOldestNewOrder_def Then_def split: option.splits)
  from first_by_Some [OF n(1)] n(2) show ?thesis by (auto simp: no_key_def)
qed

lemma total_cents_sum: "total_cents a ls = Inr t \<Longrightarrow> t = a + sum_list (map ol_amount ls)"
  by (induction a ls rule: total_cents.induct) (fastforce simp: bind_r_def i64_def split: sum.splits if_splits)+

lemma pg_sem_delivery_info:
  assumes "pg_sem (TGetDeliveryOrderInfo w d oid) db = Some (r, db')" "or_Payload r = PDeliveryInfo info"
  shows "(\<exists>x \<in> set (oorder db). o_key x = (w, d, oid) \<and> di_CustomerID info = o_c_id x) \<and>
    MoneyUnits (di_TotalAmount info) =
      sum_list (map ol_amount (filter (\<lambda>l. ol_order l = (w, d, oid)) (order_line db))) \<and>
    di_LineCount info = int (length (filter (\<lambda>l. ol_order l = (w, d, oid)) (order_line db)))"
  using assms total_cents_sum [of 0 "filter (\<lambda>l. ol_order l = (w, d, oid)) (order_line db)"]
  by (auto simp: pg_sem_def pg_GetDeliveryOrderInfo_def Then_def FailOp_def filter_eq_Cons_iff of_result_def
      FromCents_def split: list.splits sum.splits)

section \<open>Writing operations\<close>

lemma pg_sem_reserve:
  assumes "pg_sem (TReserveDistrictOrderId w d) db = Some (r, db')" "or_Ok r"
  shows "\<exists>row. filter (\<lambda>x. d_key x = (w, d)) (district db) = [row] \<and>
    db' = db \<lparr> district := update_where (\<lambda>x. d_key x = (w, d)) (\<lambda>x. x \<lparr> d_next_o_id := d_next_o_id row + 1 \<rparr>) (district db) \<rparr> \<and>
    or_Payload r = PReservation \<lparr> dr_NextOrderID = d_next_o_id row, dr_DistrictTax = TRate (d_tax row) \<rparr>"
  using assms
  by (auto simp: pg_sem_def pg_ReserveDistrictOrderId_def Then_def of_result_def i32_def update_district_def
      affected_def Let_def split: list.splits sum.splits if_splits)

lemma pg_sem_create_order:
  assumes "pg_sem (TCreateOrder w d oid c n a) db = Some (r, db')" "or_Ok r"
  shows "(w, d, oid) \<notin> o_key ` set (oorder db) \<and> (w, d, oid) \<notin> no_key ` set (new_order db) \<and>
    db' = db \<lparr> oorder := oorder db @ [\<lparr> o_w_id = w, o_d_id = d, o_id = oid, o_c_id = c, o_carrier_id = None,
                 o_ol_cnt = n, o_all_local = a, o_entry_d = current_timestamp db \<rparr>],
               new_order := new_order db @ [\<lparr> no_w_id = w, no_d_id = d, no_o_id = oid \<rparr>] \<rparr>"
  using assms
  by (auto simp: pg_sem_def pg_CreateOrder_def Then_def insert_oorder_def insert_new_order_def insert_row_def
      o_key_def no_key_def Let_def raise_in_def split: option.splits if_splits)

lemma pg_sem_update_stock:
  assumes "pg_sem (TUpdateStock w i q oq ri y oc rc) db = Some (r, db')" "or_Ok r"
  shows "db' = db \<lparr> stock := update_where (\<lambda>s. s_key s = (w, i)) (\<lambda>s. s
    \<lparr> s_quantity := q, s_ytd := s_ytd s + oq, s_order_cnt := s_order_cnt s + 1, s_remote_cnt := s_remote_cnt s + ri \<rparr>)
    (stock db) \<rparr>"
  using assms
  by (auto simp: pg_sem_def pg_UpdateStock_def MapAffected_def Then_def update_stock_def split: if_splits)

lemma pg_sem_insert_line:
  assumes "pg_sem (TInsertOrderLine w d oid n i sw q a di) db = Some (r, db')" "or_Ok r"
  shows "((w, d, oid), n) \<notin> ol_key ` set (order_line db) \<and>
    db' = db \<lparr> order_line := order_line db @ [\<lparr> ol_w_id = w, ol_d_id = d, ol_o_id = oid, ol_number = n, ol_i_id = i,
      ol_delivery_d = None, ol_amount = MoneyUnits a, ol_supply_w_id = sw, ol_quantity = q, ol_dist_info = di \<rparr>] \<rparr>"
  using assms
  by (auto simp: pg_sem_def pg_InsertOrderLine_def MapAffected_def Then_def insert_order_line_def insert_row_def
      ol_key_def ol_order_def raise_in_def split: option.splits if_splits)

lemma pg_sem_apply_payment:
  assumes "pg_sem (TApplyPaymentToLocation w d a) db = Some (r, db')" "or_Ok r"
  shows "affected (\<lambda>x. w_id x = w) (warehouse db) = 1 \<and> affected (\<lambda>x. d_key x = (w, d)) (district db) = 1 \<and>
    db' = db \<lparr> warehouse := update_where (\<lambda>x. w_id x = w) (\<lambda>x. x \<lparr> w_ytd := w_ytd x + MoneyUnits a \<rparr>) (warehouse db),
               district := update_where (\<lambda>x. d_key x = (w, d)) (\<lambda>x. x \<lparr> d_ytd := d_ytd x + MoneyUnits a \<rparr>) (district db) \<rparr>"
  using assms
  by (auto simp: pg_sem_def pg_ApplyPaymentToLocation_def Then_def update_warehouse_def update_district_def
      split: if_splits)

lemma pg_sem_history:
  assumes "pg_sem (TInsertPaymentHistory cw cd c w d a data) db = Some (r, db')"
  shows "db' = db \<lparr> history := history db @ [\<lparr> h_c_id = c, h_c_d_id = cd, h_c_w_id = cw, h_d_id = d, h_w_id = w,
      h_date = current_timestamp db, h_amount = MoneyUnits a, h_data = data \<rparr>] \<rparr>"
  using assms
  by (auto simp: pg_sem_def pg_InsertPaymentHistory_def MapAffected_def Then_def insert_history_def)

text \<open>The customer row after a payment.\<close>

definition paid_row :: "TMoney \<Rightarrow> TMoney \<Rightarrow> int \<Rightarrow> bool \<Rightarrow> string \<Rightarrow> customer_row \<Rightarrow> customer_row" where
  "paid_row b y n u data r =
     (if u then r \<lparr> c_balance := MoneyUnits b, c_ytd_payment := MoneyUnits y, c_payment_cnt := n, c_data := data \<rparr>
      else r \<lparr> c_balance := MoneyUnits b, c_ytd_payment := MoneyUnits y, c_payment_cnt := n \<rparr>)"

lemma paid_row_simps [simp]:
  "c_key (paid_row b y n u data r) = c_key r" "c_balance (paid_row b y n u data r) = MoneyUnits b"
  "c_ytd_payment (paid_row b y n u data r) = MoneyUnits y"
  by (simp_all add: paid_row_def c_key_def)

lemma pg_sem_update_payment:
  assumes "pg_sem (TUpdateCustomerPayment w d c b y n u data) db = Some (r, db')" "or_Ok r"
  shows "affected (\<lambda>x. c_key x = (w, d, c)) (customer db) = 1 \<and>
    db' = db \<lparr> customer := update_where (\<lambda>x. c_key x = (w, d, c)) (paid_row b y n u data) (customer db) \<rparr>"
  using assms
  by (cases u) (auto simp: pg_sem_def pg_UpdateCustomerPayment_def MapAffected_def Then_def update_customer_def
      paid_row_def [abs_def] split: if_splits)

lemma pg_sem_complete_delivery:
  assumes "pg_sem (TCompleteOrderDelivery w d oid ca n) db = Some (r, db')" "or_Ok r"
  shows "affected (\<lambda>x. no_key x = (w, d, oid)) (new_order db) = 1 \<and> affected (\<lambda>x. o_key x = (w, d, oid)) (oorder db) = 1 \<and>
    db' = db \<lparr> new_order := filter (\<lambda>x. no_key x \<noteq> (w, d, oid)) (new_order db),
      oorder := update_where (\<lambda>x. o_key x = (w, d, oid)) (\<lambda>x. x \<lparr> o_carrier_id := Some ca \<rparr>) (oorder db),
      order_line := update_where (\<lambda>l. ol_order l = (w, d, oid)) (\<lambda>l. l \<lparr> ol_delivery_d := Some (current_timestamp db) \<rparr>) (order_line db) \<rparr>"
  using assms
  by (auto simp: pg_sem_def pg_CompleteOrderDelivery_def Then_def delete_new_order_def update_oorder_def
      update_order_lines_def Let_def split: if_splits)

lemma pg_sem_apply_delivery:
  assumes "pg_sem (TApplyDeliveryToCustomer w d c a) db = Some (r, db')" "or_Ok r"
  shows "affected (\<lambda>x. c_key x = (w, d, c)) (customer db) = 1 \<and>
    db' = db \<lparr> customer := update_where (\<lambda>x. c_key x = (w, d, c))
      (\<lambda>x. x \<lparr> c_balance := c_balance x + MoneyUnits a, c_delivery_cnt := c_delivery_cnt x + 1 \<rparr>) (customer db) \<rparr>"
  using assms
  by (auto simp: pg_sem_def pg_ApplyDeliveryToCustomer_def MapAffected_def Then_def update_customer_def split: if_splits)

section \<open>Payment\<close>

lemma median_in_set: "SelectCustomerByLastNameMedian cs = Some c \<Longrightarrow> c \<in> set cs"
  by (auto simp: SelectCustomerByLastNameMedian_def Let_def split: if_splits intro!: nth_mem)

lemma find_customer_effect:
  assumes "committed pg_sem (find_customer byName w d n c k) db db'"
  shows "\<exists>row \<in> set (customer db). c_w_id row = w \<and> c_d_id row = d \<and> committed pg_sem (k (ReadCustomer row)) db db'"
proof (cases byName)
  case True
  then obtain r db1 cs cust where *: "pg_sem (TGetCustomersByLastName w d n) db = Some (r, db1)"
    "or_Payload r = PCustomers cs" "SelectCustomerByLastNameMedian cs = Some cust" "committed pg_sem (k cust) db1 db'"
    using assms by (auto simp: find_customer_def split: option.splits)
  have "db1 = db" using pg_sem_reading [OF _ *(1)] by simp
  with pg_sem_customers [OF *(1,2) median_in_set [OF *(3)]] *(4) show ?thesis by auto
next
  case False
  then obtain r db1 cust where *: "pg_sem (TGetCustomerById w d c) db = Some (r, db1)"
    "or_Payload r = PCustomer cust" "committed pg_sem (k cust) db1 db'"
    using assms by (auto simp: find_customer_def)
  have "db1 = db" using pg_sem_reading [OF _ *(1)] by simp
  with pg_sem_customer [OF *(1,2)] *(3) show ?thesis by (auto simp: c_key_def)
qed

lemma payment_finish_effect:
  assumes "committed pg_sem (payment_finish i loc cust) db db'"
  shows "\<exists>date data. db' = db \<lparr> history := history db @ [\<lparr> h_c_id = cr_CustomerID cust, h_c_d_id = pi_CustomerDistrictID i,
      h_c_w_id = pi_CustomerWarehouseID i, h_d_id = pi_DistrictID i, h_w_id = pi_WarehouseID i,
      h_date = date, h_amount = MoneyUnits (pi_PaymentAmount i), h_data = data \<rparr>] \<rparr>"
  using assms pg_sem_history by (fastforce simp: payment_finish_def)

lemma payment_customer_update:
  assumes "committed pg_sem (payment_customer i loc cust) db db'"
  shows "\<exists>b y n u data r db1. money_sub (cr_Balance cust) (pi_PaymentAmount i) = Inr b \<and>
    money_add (cr_YtdPayment cust) (pi_PaymentAmount i) = Inr y \<and>
    pg_sem (TUpdateCustomerPayment (pi_CustomerWarehouseID i) (pi_CustomerDistrictID i) (cr_CustomerID cust) b y n u data) db
      = Some (r, db1) \<and> or_Ok r \<and> committed pg_sem (payment_finish i loc cust) db1 db'"
proof (cases "cr_Credit cust = ''BC''")
  case True
  let ?get = "TGetCustomerData (pi_CustomerWarehouseID i) (pi_CustomerDistrictID i) (cr_CustomerID cust)"
  from assms True obtain b y n data r0 db0 r db1 where
    *: "money_sub (cr_Balance cust) (pi_PaymentAmount i) = Inr b" "money_add (cr_YtdPayment cust) (pi_PaymentAmount i) = Inr y"
      "pg_sem ?get db = Some (r0, db0)"
      "pg_sem (TUpdateCustomerPayment (pi_CustomerWarehouseID i) (pi_CustomerDistrictID i) (cr_CustomerID cust) b y n True data) db0
        = Some (r, db1)" "or_Ok r" "committed pg_sem (payment_finish i loc cust) db1 db'"
    unfolding payment_customer_def Let_def by auto
  have "db0 = db" using pg_sem_reading [OF _ *(3)] by simp
  with * show ?thesis by blast
next
  case False
  with assms show ?thesis unfolding payment_customer_def Let_def by (auto, blast)
qed

lemma payment_customer_effect:
  assumes "committed pg_sem (payment_customer i loc (ReadCustomer row)) db db'"
  shows "\<exists>n u data date hdata.
    affected (\<lambda>x. c_key x = (pi_CustomerWarehouseID i, pi_CustomerDistrictID i, c_id row)) (customer db) = 1 \<and>
    db' = db \<lparr>
      customer := update_where (\<lambda>x. c_key x = (pi_CustomerWarehouseID i, pi_CustomerDistrictID i, c_id row))
        (paid_row (TMoney (c_balance row - MoneyUnits (pi_PaymentAmount i)))
                  (TMoney (c_ytd_payment row + MoneyUnits (pi_PaymentAmount i))) n u data) (customer db),
      history := history db @ [\<lparr> h_c_id = c_id row, h_c_d_id = pi_CustomerDistrictID i,
        h_c_w_id = pi_CustomerWarehouseID i, h_d_id = pi_DistrictID i, h_w_id = pi_WarehouseID i,
        h_date = date, h_amount = MoneyUnits (pi_PaymentAmount i), h_data = hdata \<rparr>] \<rparr>"
proof -
  let ?a = "pi_PaymentAmount i"
  have rc: "cr_Balance (ReadCustomer row) = TMoney (c_balance row)" "cr_YtdPayment (ReadCustomer row) = TMoney (c_ytd_payment row)"
    "cr_CustomerID (ReadCustomer row) = c_id row"
    by (simp_all add: ReadCustomer_def)
  obtain b y n u data r db1 where b: "money_sub (TMoney (c_balance row)) ?a = Inr b"
    and y: "money_add (TMoney (c_ytd_payment row)) ?a = Inr y"
    and u: "pg_sem (TUpdateCustomerPayment (pi_CustomerWarehouseID i) (pi_CustomerDistrictID i)
      (c_id row) b y n u data) db = Some (r, db1)" "or_Ok r" "committed pg_sem (payment_finish i loc (ReadCustomer row)) db1 db'"
    using payment_customer_update [OF assms] unfolding rc by blast
  have by': "b = TMoney (c_balance row - MoneyUnits ?a)" "y = TMoney (c_ytd_payment row + MoneyUnits ?a)"
    using b y by (auto simp: money_sub_def money_add_def bind_r_def map_r_def i64_def split: if_splits sum.splits)
  obtain date hdata where "db' = db1 \<lparr> history := history db1 @ [\<lparr> h_c_id = c_id row, h_c_d_id = pi_CustomerDistrictID i,
      h_c_w_id = pi_CustomerWarehouseID i, h_d_id = pi_DistrictID i, h_w_id = pi_WarehouseID i,
      h_date = date, h_amount = MoneyUnits ?a, h_data = hdata \<rparr>] \<rparr>"
    using payment_finish_effect [OF u(3), unfolded rc] by blast
  with pg_sem_update_payment [OF u(1,2), unfolded by'] show ?thesis
    by (intro exI [of _ n] exI [of _ u] exI [of _ data] exI [of _ date] exI [of _ hdata]) simp
qed

text \<open>The effect of a committed payment.\<close>

definition payment_effect :: "TPaymentInputs \<Rightarrow> customer_row \<Rightarrow> int \<Rightarrow> bool \<Rightarrow> string \<Rightarrow> string \<Rightarrow> string \<Rightarrow> pg_db \<Rightarrow> pg_db" where
  "payment_effect i row n u data date hdata db =
     (let a = MoneyUnits (pi_PaymentAmount i) in
      db \<lparr> warehouse := update_where (\<lambda>x. w_id x = pi_WarehouseID i) (\<lambda>x. x \<lparr> w_ytd := w_ytd x + a \<rparr>) (warehouse db),
           district := update_where (\<lambda>x. d_key x = (pi_WarehouseID i, pi_DistrictID i)) (\<lambda>x. x \<lparr> d_ytd := d_ytd x + a \<rparr>) (district db),
           customer := update_where (\<lambda>x. c_key x = c_key row)
             (paid_row (TMoney (c_balance row - a)) (TMoney (c_ytd_payment row + a)) n u data) (customer db),
           history := history db @ [\<lparr> h_c_id = c_id row, h_c_d_id = c_d_id row, h_c_w_id = c_w_id row,
             h_d_id = pi_DistrictID i, h_w_id = pi_WarehouseID i, h_date = date, h_amount = a, h_data = hdata \<rparr>] \<rparr>)"

lemma payment_committed:
  assumes "committed pg_sem (payment_wf i) db db'"
  shows "\<exists>row n u data date hdata. row \<in> set (customer db) \<and>
    c_w_id row = pi_CustomerWarehouseID i \<and> c_d_id row = pi_CustomerDistrictID i \<and>
    affected (\<lambda>x. c_key x = c_key row) (customer db) = 1 \<and>
    affected (\<lambda>x. w_id x = pi_WarehouseID i) (warehouse db) = 1 \<and>
    affected (\<lambda>x. d_key x = (pi_WarehouseID i, pi_DistrictID i)) (district db) = 1 \<and>
    db' = payment_effect i row n u data date hdata db"
proof -
  obtain r db1 loc where 1: "pg_sem (TApplyPaymentToLocation (pi_WarehouseID i) (pi_DistrictID i) (pi_PaymentAmount i)) db = Some (r, db1)"
    "or_Ok r" and 2: "committed pg_sem (find_customer (pi_LookupByName i) (pi_CustomerWarehouseID i) (pi_CustomerDistrictID i)
      (pi_LastName i) (pi_CustomerID i) (payment_customer i loc)) db1 db'"
    using assms by (auto simp: payment_wf_def)
  note loc = pg_sem_apply_payment [OF 1]
  obtain row where row: "row \<in> set (customer db1)" "c_w_id row = pi_CustomerWarehouseID i"
    "c_d_id row = pi_CustomerDistrictID i" "committed pg_sem (payment_customer i loc (ReadCustomer row)) db1 db'"
    using find_customer_effect [OF 2] by blast
  have key: "c_key row = (pi_CustomerWarehouseID i, pi_CustomerDistrictID i, c_id row)"
    using row by (simp add: c_key_def)
  obtain n u data date hdata where e: "affected (\<lambda>x. c_key x = c_key row) (customer db1) = 1"
    "db' = db1 \<lparr>
      customer := update_where (\<lambda>x. c_key x = c_key row)
        (paid_row (TMoney (c_balance row - MoneyUnits (pi_PaymentAmount i)))
                  (TMoney (c_ytd_payment row + MoneyUnits (pi_PaymentAmount i))) n u data) (customer db1),
      history := history db1 @ [\<lparr> h_c_id = c_id row, h_c_d_id = pi_CustomerDistrictID i,
        h_c_w_id = pi_CustomerWarehouseID i, h_d_id = pi_DistrictID i, h_w_id = pi_WarehouseID i,
        h_date = date, h_amount = MoneyUnits (pi_PaymentAmount i), h_data = hdata \<rparr>] \<rparr>"
    using payment_customer_effect [OF row(4)] unfolding key by blast
  have "db' = payment_effect i row n u data date hdata db"
    using e(2) loc row(2,3) by (simp add: payment_effect_def Let_def)
  with e(1) loc row(1-3) show ?thesis
    by (intro exI [of _ row] exI [of _ n] exI [of _ u] exI [of _ data] exI [of _ date] exI [of _ hdata]) simp
qed

section \<open>Order-Status and Stock-Level\<close>

lemma order_status_committed:
  assumes "committed pg_sem (order_status_wf i) db db'"
  shows "db' = db"
proof -
  let ?get = "\<lambda>c. TGetLatestCustomerOrder (os_WarehouseID i) (os_DistrictID i) c"
  let ?lines = "\<lambda>r. if or_ActualRows r = 0 then AwaitCommit (\<lambda>c. guard_commit c (Leaf Success))
               else get_order_header (or_Payload r) (\<lambda>h.
                 AwaitFinal (TGetOrderStatusLines (os_WarehouseID i) (os_DistrictID i) (oh_OrderID h))
                   (\<lambda>f. guard_final f (Leaf Success)))"
  obtain cust :: TCustomerRow where "committed pg_sem (AwaitExecute (?get (cr_CustomerID cust)) (\<lambda>r. guard_op r (?lines r))) db db'"
    using find_customer_effect [OF assms [unfolded order_status_wf_def]] by blast
  then obtain r db1 where 1: "pg_sem (?get (cr_CustomerID cust)) db = Some (r, db1)" and 2: "committed pg_sem (?lines r) db1 db'"
    by auto
  have "db1 = db" using pg_sem_reading [OF _ 1] by simp
  with 2 pg_sem_reading [of "TGetOrderStatusLines a b c" for a b c] show ?thesis by (auto split: if_splits)
qed

lemma stock_level_committed: "committed pg_sem (stock_level_wf i) db db' \<Longrightarrow> db' = db"
  using pg_sem_reading [of "TCountRecentLowStock a b c d" for a b c d] by (auto simp: stock_level_wf_def)

section \<open>New-Order\<close>

fun is_stock_op :: "TSemanticOp \<Rightarrow> bool" where
  "is_stock_op (TUpdateStock w i q oq ri y oc rc) = True"
| "is_stock_op op = False"

fun is_line_op :: "int \<times> int \<times> int \<Rightarrow> TSemanticOp \<Rightarrow> bool" where
  "is_line_op k (TInsertOrderLine w d oid n i sw q a di) = (k = (w, d, oid))"
| "is_line_op k op = False"

lemma sem_ops_stock:
  "list_all is_stock_op ops \<Longrightarrow> sem_ops pg_sem ops db = Some (rs, db') \<Longrightarrow>
     \<exists>st. db' = db \<lparr> stock := st \<rparr> \<and> map s_key st = map s_key (stock db)"
proof (induction ops arbitrary: db rs)
  case Nil
  then show ?case by (intro exI [of _ "stock db"]) simp
next
  case (Cons op ops)
  obtain r db1 rs1 where 1: "pg_sem op db = Some (r, db1)" "or_Ok r" "sem_ops pg_sem ops db1 = Some (rs1, db')"
    using Cons.prems(2) by (auto split: option.splits if_splits)
  obtain st1 where st1: "db1 = db \<lparr> stock := st1 \<rparr>" "map s_key st1 = map s_key (stock db)"
    using Cons.prems(1) pg_sem_update_stock 1(1,2)
    by (cases op) (fastforce simp: map_update_where s_key_def)+
  obtain st where "db' = db1 \<lparr> stock := st \<rparr>" "map s_key st = map s_key (stock db1)"
    using Cons.IH [OF _ 1(3)] Cons.prems(1) by auto
  with st1 show ?case by auto
qed

lemma sem_ops_lines:
  "list_all (is_line_op k) ops \<Longrightarrow> sem_ops pg_sem ops db = Some (rs, db') \<Longrightarrow>
     \<exists>ls. db' = db \<lparr> order_line := order_line db @ ls \<rparr> \<and> length ls = length ops \<and>
       (\<forall>l \<in> set ls. ol_order l = k \<and> ol_delivery_d l = None) \<and>
       (distinct (map ol_key (order_line db)) \<longrightarrow> distinct (map ol_key (order_line db @ ls)))"
proof (induction ops arbitrary: db rs)
  case Nil
  then show ?case by (intro exI [of _ "[]"]) simp
next
  case (Cons op ops)
  obtain r db1 rs1 where 1: "pg_sem op db = Some (r, db1)" "or_Ok r" "sem_ops pg_sem ops db1 = Some (rs1, db')"
    using Cons.prems(2) by (auto split: option.splits if_splits)
  obtain w d oid n i sw q a di where op: "op = TInsertOrderLine w d oid n i sw q a di" and k: "k = (w, d, oid)"
    using Cons.prems(1) by (cases op) auto
  note ins = pg_sem_insert_line [OF 1(1) [unfolded op] 1(2)]
  obtain l where l: "db1 = db \<lparr> order_line := order_line db @ [l] \<rparr>" "ol_order l = k" "ol_delivery_d l = None"
    "ol_key l \<notin> ol_key ` set (order_line db)"
    using ins k by (auto simp: ol_order_def ol_key_def)
  obtain ls where "db' = db1 \<lparr> order_line := order_line db1 @ ls \<rparr>" "length ls = length ops"
    "\<forall>l \<in> set ls. ol_order l = k \<and> ol_delivery_d l = None"
    "distinct (map ol_key (order_line db1)) \<longrightarrow> distinct (map ol_key (order_line db1 @ ls))"
    using Cons.IH [OF _ 1(3)] Cons.prems(1) by auto
  with l show ?case by (intro exI [of _ "l # ls"]) auto
qed

lemma new_order_ops_shape:
  "new_order_ops i oid prices stocks n ls = Inr (ss, os, u) \<Longrightarrow>
     list_all is_stock_op ss \<and> list_all (is_line_op (no_WarehouseID i, no_DistrictID i, oid)) os \<and>
     (\<not> u \<longrightarrow> length os = length ls)"
proof (induction i oid prices stocks n ls arbitrary: ss os u rule: new_order_ops.induct)
  case (1 i oid prices stocks n)
  then show ?case by simp
next
  case (2 i oid prices stocks n supWh iid qty ls)
  then show ?case
    by (auto simp: map_r_def fun_upd_def split: if_splits option.splits sum.splits)
qed

lemma new_order_ops_uncommitted:
  "new_order_ops i oid prices stocks n ls = Inl w \<Longrightarrow> \<not> committed sem w db db'"
proof (induction i oid prices stocks n ls rule: new_order_ops.induct)
  case (1 i oid prices stocks n)
  then show ?case by simp
next
  case (2 i oid prices stocks n supWh iid qty ls)
  then show ?case
    by (auto simp: map_r_def fun_upd_def split: if_splits option.splits sum.splits)
qed

lemma new_order_finish_committed:
  "committed pg_sem (new_order_finish u) db db' \<Longrightarrow> \<not> u \<and> db' = db"
  by (auto simp: new_order_finish_def ThrowIfRetryable_def split: if_splits option.splits)

lemma new_order_apply_committed:
  assumes "committed pg_sem (new_order_apply ss os u) db db'"
  shows "\<exists>rs1 db1 rs2. sem_ops pg_sem ss db = Some (rs1, db1) \<and> sem_ops pg_sem os db1 = Some (rs2, db') \<and> \<not> u"
proof -
  have lines: "\<exists>rs2. sem_ops pg_sem os db1 = Some (rs2, db') \<and> \<not> u"
    if "committed pg_sem (if os \<noteq> [] then AwaitBatch os (\<lambda>b. guard_batch b (new_order_finish u)) else new_order_finish u) db1 db'"
    for db1
    using that by (auto split: if_splits dest: new_order_finish_committed)
  show ?thesis
    using assms lines unfolding new_order_apply_def Let_def by (fastforce split: if_splits)
qed

definition new_order_effect ::
    "TNewOrderInputs \<Rightarrow> district_row \<Rightarrow> string \<Rightarrow> stock_row list \<Rightarrow> order_line_row list \<Rightarrow> pg_db \<Rightarrow> pg_db" where
  "new_order_effect i row date st ls db =
     (let w = no_WarehouseID i; d = no_DistrictID i; oid = d_next_o_id row in
      db \<lparr> district := update_where (\<lambda>x. d_key x = (w, d)) (\<lambda>x. x \<lparr> d_next_o_id := oid + 1 \<rparr>) (district db),
           oorder := oorder db @ [\<lparr> o_w_id = w, o_d_id = d, o_id = oid, o_c_id = no_CustomerID i, o_carrier_id = None,
             o_ol_cnt = no_NumItems i, o_all_local = no_AllLocal i, o_entry_d = date \<rparr>],
           new_order := new_order db @ [\<lparr> no_w_id = w, no_d_id = d, no_o_id = oid \<rparr>],
           stock := st,
           order_line := order_line db @ ls \<rparr>)"

lemma new_order_rest_committed:
  assumes "committed pg_sem (new_order_items i oid) db db'"
  shows "\<exists>st ls. db' = db \<lparr> stock := st, order_line := order_line db @ ls \<rparr> \<and> map s_key st = map s_key (stock db) \<and>
    length ls = length (new_order_lines i) \<and>
    (\<forall>l \<in> set ls. ol_order l = (no_WarehouseID i, no_DistrictID i, oid) \<and> ol_delivery_d l = None) \<and>
    (distinct (map ol_key (order_line db)) \<longrightarrow> distinct (map ol_key (order_line db @ ls)))"
proof -
  have "\<exists>prices. committed pg_sem (new_order_stocks i oid prices) db db'"
    using assms pg_sem_reading [of "TGetItems ids" for ids]
    by (fastforce simp: new_order_items_def split: if_splits)
  then obtain prices where p: "committed pg_sem (new_order_stocks i oid prices) db db'" by blast
  have "\<exists>stocks. committed pg_sem (new_order_post i oid prices stocks) db db'"
    using p pg_sem_reading [of "TGetStocksForUpdate d ks" for d ks]
    by (fastforce simp: new_order_stocks_def Let_def split: if_splits)
  then obtain stocks where "committed pg_sem (new_order_post i oid prices stocks) db db'" by blast
  then obtain ss os u where ops: "new_order_ops i oid prices stocks 1 (new_order_lines i) = Inr (ss, os, u)"
    and c: "committed pg_sem (new_order_apply ss os u) db db'"
  proof (cases "new_order_ops i oid prices stocks 1 (new_order_lines i)")
    case (Inl w)
    then show ?thesis
      using new_order_ops_uncommitted [OF Inl, of pg_sem db db'] \<open>committed pg_sem (new_order_post i oid prices stocks) db db'\<close>
      by (auto simp: new_order_post_def)
  next
    case (Inr x)
    then show ?thesis using that \<open>committed pg_sem (new_order_post i oid prices stocks) db db'\<close>
      by (cases x) (auto simp: new_order_post_def)
  qed
  note shape = new_order_ops_shape [OF ops]
  obtain rs1 db1 rs2 where 1: "sem_ops pg_sem ss db = Some (rs1, db1)" "sem_ops pg_sem os db1 = Some (rs2, db')" "\<not> u"
    using new_order_apply_committed [OF c] by blast
  obtain st where st: "db1 = db \<lparr> stock := st \<rparr>" "map s_key st = map s_key (stock db)"
    using sem_ops_stock [OF _ 1(1)] shape by blast
  obtain ls where "db' = db1 \<lparr> order_line := order_line db1 @ ls \<rparr>" "length ls = length os"
    "\<forall>l \<in> set ls. ol_order l = (no_WarehouseID i, no_DistrictID i, oid) \<and> ol_delivery_d l = None"
    "distinct (map ol_key (order_line db1)) \<longrightarrow> distinct (map ol_key (order_line db1 @ ls))"
    using sem_ops_lines [OF _ 1(2)] shape by blast
  with st shape 1(3) show ?thesis by (intro exI [of _ st] exI [of _ ls]) simp
qed

lemma new_order_committed:
  assumes "committed pg_sem (new_order_wf i) db db'"
  shows "\<exists>row date st ls. filter (\<lambda>x. d_key x = (no_WarehouseID i, no_DistrictID i)) (district db) = [row] \<and>
    (no_WarehouseID i, no_DistrictID i, d_next_o_id row) \<notin> o_key ` set (oorder db) \<and>
    (no_WarehouseID i, no_DistrictID i, d_next_o_id row) \<notin> no_key ` set (new_order db) \<and>
    map s_key st = map s_key (stock db) \<and> length ls = length (new_order_lines i) \<and>
    (\<forall>l \<in> set ls. ol_order l = (no_WarehouseID i, no_DistrictID i, d_next_o_id row) \<and> ol_delivery_d l = None) \<and>
    (distinct (map ol_key (order_line db)) \<longrightarrow> distinct (map ol_key (order_line db @ ls))) \<and>
    db' = new_order_effect i row date st ls db"
proof -
  let ?w = "no_WarehouseID i" and ?d = "no_DistrictID i"
  obtain r1 db1 r2 db2 r3 db3 res r4 db4 where
    1: "pg_sem (TGetCustomerById ?w ?d (no_CustomerID i)) db = Some (r1, db1)" and
    2: "pg_sem (TGetWarehouseTax ?w) db1 = Some (r2, db2)" and
    3: "pg_sem (TReserveDistrictOrderId ?w ?d) db2 = Some (r3, db3)" "or_Ok r3" "or_Payload r3 = PReservation res" and
    4: "pg_sem (TCreateOrder ?w ?d (dr_NextOrderID res) (no_CustomerID i) (no_NumItems i) (no_AllLocal i)) db3 = Some (r4, db4)"
      "or_Ok r4" and
    5: "committed pg_sem (new_order_items i (dr_NextOrderID res)) db4 db'"
    using assms by (auto simp: new_order_wf_def)
  have db2: "db2 = db" using pg_sem_reading [OF _ 1] pg_sem_reading [OF _ 2] by simp
  obtain row where row: "filter (\<lambda>x. d_key x = (?w, ?d)) (district db) = [row]"
    "db3 = db \<lparr> district := update_where (\<lambda>x. d_key x = (?w, ?d)) (\<lambda>x. x \<lparr> d_next_o_id := d_next_o_id row + 1 \<rparr>) (district db) \<rparr>"
    "dr_NextOrderID res = d_next_o_id row"
    using pg_sem_reserve [OF 3(1) [unfolded db2] 3(2)] 3(3) by auto
  note cr = pg_sem_create_order [OF 4, unfolded row(3)]
  obtain st ls where e: "db' = db4 \<lparr> stock := st, order_line := order_line db4 @ ls \<rparr>" "map s_key st = map s_key (stock db4)"
    "length ls = length (new_order_lines i)"
    "\<forall>l \<in> set ls. ol_order l = (?w, ?d, d_next_o_id row) \<and> ol_delivery_d l = None"
    "distinct (map ol_key (order_line db4)) \<longrightarrow> distinct (map ol_key (order_line db4 @ ls))"
    using new_order_rest_committed [OF 5] row(3) by auto
  have "db' = new_order_effect i row (current_timestamp db) st ls db"
    using e(1) cr row(2) by (simp add: new_order_effect_def Let_def)
  with row(1) cr e(2-5) row(2) show ?thesis
    by (intro exI [of _ row] exI [of _ "current_timestamp db"] exI [of _ st] exI [of _ ls]) simp
qed

section \<open>Delivery\<close>

definition complete_order :: "int \<Rightarrow> int \<Rightarrow> int \<times> TOrderData \<Rightarrow> pg_db \<Rightarrow> pg_db" where
  "complete_order w carrier x db =
     (let k = (w, fst x, od_OrderID (snd x)) in
      db \<lparr> new_order := filter (\<lambda>n. no_key n \<noteq> k) (new_order db),
           oorder := update_where (\<lambda>o'. o_key o' = k) (\<lambda>o'. o' \<lparr> o_carrier_id := Some carrier \<rparr>) (oorder db),
           order_line := update_where (\<lambda>l. ol_order l = k)
             (\<lambda>l. l \<lparr> ol_delivery_d := Some (current_timestamp db) \<rparr>) (order_line db) \<rparr>)"

definition credit_customer :: "int \<Rightarrow> int \<times> TOrderData \<Rightarrow> pg_db \<Rightarrow> pg_db" where
  "credit_customer w x db =
     db \<lparr> customer := update_where (\<lambda>c. c_key c = (w, fst x, od_CustomerId (snd x)))
       (\<lambda>c. c \<lparr> c_balance := c_balance c + MoneyUnits (od_TotalAmount (snd x)), c_delivery_cnt := c_delivery_cnt c + 1 \<rparr>)
       (customer db) \<rparr>"

lemma sem_ops_append:
  "sem_ops sem (xs @ ys) db = Some (rs, db') \<longleftrightarrow>
     (\<exists>rs1 db1 rs2. sem_ops sem xs db = Some (rs1, db1) \<and> sem_ops sem ys db1 = Some (rs2, db') \<and> rs = rs1 @ rs2)"
  by (induction xs arbitrary: db rs) (force split: option.splits if_splits)+

lemma sem_ops_complete:
  "sem_ops pg_sem (delivery_complete_ops i orders) db = Some (rs, db') \<Longrightarrow>
     db' = fold (complete_order (de_WarehouseID i) (de_CarrierID i)) orders db"
proof (induction orders arbitrary: db rs)
  case Nil
  then show ?case by (simp add: delivery_complete_ops_def)
next
  case (Cons x xs)
  obtain r db1 rs1 where 1: "pg_sem (TCompleteOrderDelivery (de_WarehouseID i) (fst x) (od_OrderID (snd x)) (de_CarrierID i)
      (od_LineCount (snd x))) db = Some (r, db1)" "or_Ok r"
    "sem_ops pg_sem (delivery_complete_ops i xs) db1 = Some (rs1, db')"
    using Cons.prems by (cases x) (auto simp: delivery_complete_ops_def split: option.splits if_splits)
  have "db1 = complete_order (de_WarehouseID i) (de_CarrierID i) x db"
    using pg_sem_complete_delivery [OF 1(1,2)] by (simp add: complete_order_def Let_def)
  with Cons.IH [OF 1(3)] show ?case by simp
qed

lemma credit_customer_keys [simp]: "map c_key (customer (credit_customer w x db)) = map c_key (customer db)"
  by (simp add: credit_customer_def map_update_where c_key_def)

lemma sem_ops_credit:
  "sem_ops pg_sem (delivery_apply_ops i orders) db = Some (rs, db') \<Longrightarrow>
     db' = fold (credit_customer (de_WarehouseID i)) orders db \<and>
     (\<forall>x \<in> set orders. (de_WarehouseID i, fst x, od_CustomerId (snd x)) \<in> set (map c_key (customer db)))"
proof (induction orders arbitrary: db rs)
  case Nil
  then show ?case by (simp add: delivery_apply_ops_def)
next
  case (Cons x xs)
  obtain r db1 rs1 where 1: "pg_sem (TApplyDeliveryToCustomer (de_WarehouseID i) (fst x) (od_CustomerId (snd x))
      (od_TotalAmount (snd x))) db = Some (r, db1)" "or_Ok r"
    "sem_ops pg_sem (delivery_apply_ops i xs) db1 = Some (rs1, db')"
    using Cons.prems by (cases x) (auto simp: delivery_apply_ops_def split: option.splits if_splits)
  note a = pg_sem_apply_delivery [OF 1(1,2)]
  have db1: "db1 = credit_customer (de_WarehouseID i) x db"
    using a by (simp add: credit_customer_def)
  have "(de_WarehouseID i, fst x, od_CustomerId (snd x)) \<in> set (map c_key (customer db))"
    using a affected_0 [of "\<lambda>c. c_key c = (de_WarehouseID i, fst x, od_CustomerId (snd x))" "customer db"] by force
  with Cons.IH [OF 1(3)] show ?case unfolding db1 by simp
qed

lemma delivery_finish_committed:
  assumes "committed pg_sem (delivery_finish ops) db db'"
  shows "\<exists>rs. sem_ops pg_sem ops db = Some (rs, db')"
proof (cases "ops = []")
  case True
  with assms show ?thesis by (auto simp: delivery_finish_def)
next
  case False
  have last: "\<exists>rs. sem_ops pg_sem [last ops] db1 = Some (rs, db')"
    if "committed pg_sem (AwaitFinal (last ops) (\<lambda>f. guard_final f (Leaf Success))) db1 db'" for db1
    using that by (auto simp: final_confirmed_def)
  have "\<exists>rs1 db1 rs2. sem_ops pg_sem (butlast ops) db = Some (rs1, db1) \<and> sem_ops pg_sem [last ops] db1 = Some (rs2, db')"
  proof (cases "length ops > 1")
    case True
    with assms False obtain rs1 db1 where "sem_ops pg_sem (butlast ops) db = Some (rs1, db1)"
      "committed pg_sem (AwaitFinal (last ops) (\<lambda>f. guard_final f (Leaf Success))) db1 db'"
      unfolding delivery_finish_def Let_def by auto
    with last show ?thesis by blast
  next
    case short: False
    with False have "butlast ops = []" by (cases ops rule: rev_cases) auto
    with assms False short last [of db] show ?thesis unfolding delivery_finish_def Let_def by simp
  qed
  then show ?thesis using sem_ops_append [of pg_sem "butlast ops" "[last ops]"] False by auto
qed

text \<open>What the first loop of Delivery has found for a district.\<close>

definition found_order :: "int \<Rightarrow> pg_db \<Rightarrow> int \<times> TOrderData \<Rightarrow> bool" where
  "found_order w db x \<longleftrightarrow>
     (\<exists>n \<in> set (new_order db). no_key n = (w, fst x, od_OrderID (snd x))) \<and>
     (\<forall>m \<in> set (new_order db). no_w_id m = w \<longrightarrow> no_d_id m = fst x \<longrightarrow> od_OrderID (snd x) \<le> no_o_id m) \<and>
     (\<exists>o' \<in> set (oorder db). o_key o' = (w, fst x, od_OrderID (snd x)) \<and> o_c_id o' = od_CustomerId (snd x)) \<and>
     MoneyUnits (od_TotalAmount (snd x)) =
       sum_list (map ol_amount (filter (\<lambda>l. ol_order l = (w, fst x, od_OrderID (snd x))) (order_line db)))"

lemma delivery_collect_committed:
  "committed pg_sem (delivery_collect i ds orders k) db db' \<Longrightarrow> distinct (map fst orders @ ds) \<Longrightarrow>
     \<forall>x \<in> set orders. found_order (de_WarehouseID i) db x \<Longrightarrow>
     \<exists>orders'. committed pg_sem (k orders') db db' \<and> distinct (map fst orders') \<and>
       (\<forall>x \<in> set orders'. found_order (de_WarehouseID i) db x)"
proof (induction i ds orders k rule: delivery_collect.induct)
  case (1 i orders k)
  then show ?case by auto
next
  case (2 i d ds orders k)
  note IH = "2.IH" and prems = "2.prems"
  let ?w = "de_WarehouseID i"
  obtain r db1 where 1: "pg_sem (TGetOldestNewOrder ?w d) db = Some (r, db1)" "or_Ok r" and
    c: "committed pg_sem (if or_ActualRows r = 0 then delivery_collect i ds orders k
        else get_int (or_Payload r) (\<lambda>orderID.
          AwaitExecute (TGetDeliveryOrderInfo ?w d orderID) (\<lambda>r2. guard_op r2
            (get_delivery_info (or_Payload r2) (\<lambda>info.
               if di_LineCount info = 0 then FailPermanentMsg
               else delivery_collect i ds
                 (orders @ [(d, \<lparr> od_OrderID = orderID, od_CustomerId = di_CustomerID info,
                                  od_TotalAmount = di_TotalAmount info, od_LineCount = di_LineCount info \<rparr>)]) k))))) db1 db'"
    using prems(1) by (auto simp only: delivery_collect.simps committed_simps committed_guards)
  have db1: "db1 = db" using pg_sem_reading [OF _ 1(1)] by simp
  show ?case
  proof (cases "or_ActualRows r = 0")
    case True
    then show ?thesis using IH(1) [OF True] c prems(2,3) db1 by auto
  next
    case False
    obtain oid r2 db2 info where
      q: "or_Payload r = PInt oid" "pg_sem (TGetDeliveryOrderInfo ?w d oid) db = Some (r2, db2)" "or_Ok r2"
        "or_Payload r2 = PDeliveryInfo info" "di_LineCount info \<noteq> 0"
        "committed pg_sem (delivery_collect i ds
                 (orders @ [(d, \<lparr> od_OrderID = oid, od_CustomerId = di_CustomerID info,
                                  od_TotalAmount = di_TotalAmount info, od_LineCount = di_LineCount info \<rparr>)]) k) db2 db'"
      using c False db1 by (auto split: if_splits)
    have db2: "db2 = db" using pg_sem_reading [OF _ q(2)] by simp
    let ?x = "(d, \<lparr> od_OrderID = oid, od_CustomerId = di_CustomerID info,
                   od_TotalAmount = di_TotalAmount info, od_LineCount = di_LineCount info \<rparr>)"
    have "found_order ?w db ?x"
      using pg_sem_oldest [OF 1(1) False q(1)] pg_sem_delivery_info [OF q(2,4)] by (auto simp: found_order_def)
    then show ?thesis using IH(2) [OF False q(5)] q(6) prems(2,3) db2 by auto
  qed
qed

text \<open>Crediting a customer and completing an order touch different tables, so the two batches of
  Delivery are the same as completing and crediting order by order.\<close>

definition deliver_one :: "int \<Rightarrow> int \<Rightarrow> int \<times> TOrderData \<Rightarrow> pg_db \<Rightarrow> pg_db" where
  "deliver_one w carrier x db = credit_customer w x (complete_order w carrier x db)"

lemma credit_complete_commute:
  "credit_customer w x (complete_order w ca y db) = complete_order w ca y (credit_customer w x db)"
  by (simp add: credit_customer_def complete_order_def Let_def)

lemma credit_fold_complete:
  "credit_customer w x (fold (complete_order w ca) ys db) = fold (complete_order w ca) ys (credit_customer w x db)"
  by (induction ys arbitrary: db) (simp_all add: credit_complete_commute)

lemma fold_deliver_one:
  "fold (credit_customer w) xs (fold (complete_order w ca) xs db) = fold (deliver_one w ca) xs db"
proof (induction xs arbitrary: db)
  case Nil
  then show ?case by simp
next
  case (Cons x xs)
  have "fold (credit_customer w) (x # xs) (fold (complete_order w ca) (x # xs) db) =
        fold (credit_customer w) xs (credit_customer w x (fold (complete_order w ca) xs (complete_order w ca x db)))"
    by simp
  also have "\<dots> = fold (credit_customer w) xs (fold (complete_order w ca) xs (credit_customer w x (complete_order w ca x db)))"
    unfolding credit_fold_complete ..
  finally show ?case using Cons by (simp add: deliver_one_def)
qed

lemma fold_complete_customers [simp]: "customer (fold (complete_order w ca) xs db) = customer db"
  by (induction xs arbitrary: db) (simp_all add: complete_order_def Let_def)

lemma delivery_committed:
  assumes "committed pg_sem (delivery_wf i) db db'"
  shows "\<exists>orders. distinct (map fst orders) \<and> (\<forall>x \<in> set orders. found_order (de_WarehouseID i) db x) \<and>
    (\<forall>x \<in> set orders. (de_WarehouseID i, fst x, od_CustomerId (snd x)) \<in> set (map c_key (customer db))) \<and>
    db' = fold (deliver_one (de_WarehouseID i) (de_CarrierID i)) orders db"
proof -
  obtain orders where o: "committed pg_sem (delivery_apply i orders) db db'" "distinct (map fst orders)"
    "\<forall>x \<in> set orders. found_order (de_WarehouseID i) db x"
    using delivery_collect_committed [OF assms [unfolded delivery_wf_def]] by auto
  obtain rs db1 where 1: "sem_ops pg_sem (delivery_complete_ops i orders) db = Some (rs, db1)"
    "committed pg_sem (delivery_finish (delivery_apply_ops i orders)) db1 db'"
    using o(1) by (auto simp: delivery_apply_def split: if_splits)
  note c = sem_ops_complete [OF 1(1)]
  obtain rs2 where "sem_ops pg_sem (delivery_apply_ops i orders) db1 = Some (rs2, db')"
    using delivery_finish_committed [OF 1(2)] by blast
  from sem_ops_credit [OF this] c o(2,3) show ?thesis
    by (intro exI [of _ orders]) (simp add: fold_deliver_one)
qed

end
