(* ===== verification/Pg_Consistency.thy ===== *)
theory Pg_Consistency
  imports Pg_Checks Pg_Effects
begin

text \<open>
  The consistency conditions that \<^verbatim>\<open>check.cpp\<close> evaluates are kept by every committed workflow. The
  effect of a workflow is known from the previous theory; here each condition is followed through
  each effect.
\<close>

section \<open>The conditions as statements about rows\<close>

named_theorems check_iffs \<open>the conditions without the queries\<close>

lemma no_rows_filter: "CheckNoRows (filter P t) \<longleftrightarrow> (\<forall>r \<in> set t. \<not> P r)"
  by (auto simp: CheckNoRows_def filter_empty_conv)

lemma check3321_iff [check_iffs]:
  "ConsistencyCheck3321 db \<longleftrightarrow>
     (\<forall>w \<in> set (warehouse db). w_ytd w = sum_list (map d_ytd (filter (\<lambda>d. d_w_id d = w_id w) (district db))))"
  by (simp add: ConsistencyCheck3321_def no_rows_filter)

lemma check3322_iff [check_iffs]:
  "ConsistencyCheck3322 s e db \<longleftrightarrow>
     (\<forall>d \<in> set (district db). in_range s e (d_w_id d) \<longrightarrow>
        max_of (district_orders db (d_key d)) = Some (d_next_o_id d - 1) \<and>
        (district_new_orders db (d_key d) = [] \<or> max_of (district_new_orders db (d_key d)) = Some (d_next_o_id d - 1)))"
  by (auto simp: ConsistencyCheck3322_def no_rows_filter Let_def max_of_def)

lemma check3323_iff [check_iffs]:
  "ConsistencyCheck3323 s e db \<longleftrightarrow>
     (\<forall>w d. in_range s e w \<and> district_new_orders db (w, d) \<noteq> [] \<longrightarrow>
        int (length (district_new_orders db (w, d))) =
          Max (set (district_new_orders db (w, d))) - Min (set (district_new_orders db (w, d))) + 1)"
proof -
  have ne: "district_new_orders db (w, d) = [] \<longleftrightarrow> \<not> (\<exists>n \<in> set (new_order db). no_w_id n = w \<and> no_d_id n = d)" for w d
    by (auto simp: district_new_orders_def filter_empty_conv)
  show ?thesis
    by (auto simp: ConsistencyCheck3323_def no_rows_filter Let_def max_of_def min_of_def ne)
qed

lemma group_sum_absent: "k \<notin> f ` set xs \<Longrightarrow> group_sum (map g (filter (\<lambda>x. f x = k) xs)) = None"
  by (auto simp: group_sum_def filter_empty_conv)

lemma check3324_iff [check_iffs]:
  "ConsistencyCheck3324 s e db \<longleftrightarrow>
     (\<forall>w d. in_range s e w \<longrightarrow>
        group_sum (map o_ol_cnt (filter (\<lambda>x. (o_w_id x, o_d_id x) = (w, d)) (oorder db))) =
        group_sum (map (\<lambda>l. 1) (filter (\<lambda>l. (ol_w_id l, ol_d_id l) = (w, d)) (order_line db))))"
  (is "?L \<longleftrightarrow> ?R")
proof -
  let ?os = "filter (\<lambda>x. in_range s e (o_w_id x)) (oorder db)" and ?ls = "filter (\<lambda>l. in_range s e (ol_w_id l)) (order_line db)"
  let ?F = "\<lambda>k. group_sum (map o_ol_cnt (filter (\<lambda>x. (o_w_id x, o_d_id x) = k) ?os))"
  let ?G = "\<lambda>k. group_sum (map (\<lambda>l. 1) (filter (\<lambda>l. (ol_w_id l, ol_d_id l) = k) ?ls))"
  let ?K = "(\<lambda>x. (o_w_id x, o_d_id x)) ` set ?os \<union> (\<lambda>l. (ol_w_id l, ol_d_id l)) ` set ?ls"
  have absent: "?F k = ?G k" if "k \<notin> ?K" for k
    using that by (subst (1 2) group_sum_absent) simp_all
  have "?L \<longleftrightarrow> (\<forall>k \<in> ?K. ?F k = ?G k)"
    unfolding ConsistencyCheck3324_def Let_def no_rows_filter set_remdups set_append set_map by simp
  also have "\<dots> \<longleftrightarrow> (\<forall>k. ?F k = ?G k)" using absent by blast
  also have "\<dots> \<longleftrightarrow> (\<forall>w d. ?F (w, d) = ?G (w, d))" by simp
  also have "\<dots> \<longleftrightarrow> (\<forall>w d. in_range s e w \<longrightarrow> ?F (w, d) = ?G (w, d))"
  proof (intro iffI allI impI)
    fix w d assume a: "\<forall>w d. in_range s e w \<longrightarrow> ?F (w, d) = ?G (w, d)"
    show "?F (w, d) = ?G (w, d)"
    proof (cases "in_range s e w")
      case False
      then have "(w, d) \<notin> ?K" by auto
      then show ?thesis by (rule absent)
    qed (use a in blast)
  qed blast
  also have "\<dots> \<longleftrightarrow> ?R"
  proof -
    have "filter (\<lambda>x. (o_w_id x, o_d_id x) = (w, d)) ?os = filter (\<lambda>x. (o_w_id x, o_d_id x) = (w, d)) (oorder db)"
      "filter (\<lambda>l. (ol_w_id l, ol_d_id l) = (w, d)) ?ls = filter (\<lambda>l. (ol_w_id l, ol_d_id l) = (w, d)) (order_line db)"
      if "in_range s e w" for w d
      using that by (auto simp: filter_filter intro!: filter_cong)
    then show ?thesis by simp
  qed
  finally show ?thesis .
qed

lemma check3325_iff [check_iffs]:
  "ConsistencyCheck3325 s e db \<longleftrightarrow>
     (\<forall>n \<in> set (new_order db). in_range s e (no_w_id n) \<longrightarrow>
        (\<exists>x \<in> set (oorder db). o_key x = no_key n) \<and>
        (\<forall>x \<in> set (oorder db). o_key x = no_key n \<longrightarrow> o_carrier_id x = None)) \<and>
     (\<forall>x \<in> set (oorder db). in_range s e (o_w_id x) \<and> o_carrier_id x = None \<longrightarrow> o_key x \<in> no_key ` set (new_order db))"
  by (auto simp: ConsistencyCheck3325_def CheckNoRows_def filter_empty_conv Let_def list_ex_iff)

lemma check3326_iff [check_iffs]:
  "ConsistencyCheck3326 s e db \<longleftrightarrow>
     (\<forall>x \<in> set (oorder db). in_range s e (o_w_id x) \<longrightarrow>
        o_ol_cnt x = int (length (filter (\<lambda>l. ol_order l = o_key x) (order_line db)))) \<and>
     (\<forall>l \<in> set (order_line db). in_range s e (ol_w_id l) \<longrightarrow> ol_order l \<in> o_key ` set (oorder db))"
proof -
  have "filter (\<lambda>l. ol_order l = o_key x) (filter (\<lambda>l. in_range s e (ol_w_id l)) (order_line db)) =
      filter (\<lambda>l. ol_order l = o_key x) (order_line db)" if "in_range s e (o_w_id x)" for x
    using that by (auto simp: filter_filter ol_order_def o_key_def intro!: filter_cong)
  then show ?thesis
    by (auto simp: ConsistencyCheck3326_def CheckNoRows_def filter_empty_conv Let_def simp del: filter_filter)
qed

lemma check3327_iff [check_iffs]:
  "ConsistencyCheck3327 s e db \<longleftrightarrow>
     (\<forall>l \<in> set (order_line db). \<forall>x \<in> set (oorder db).
        in_range s e (ol_w_id l) \<and> o_key x = ol_order l \<longrightarrow> (ol_delivery_d l = None \<longleftrightarrow> o_carrier_id x = None))"
  (is "?L \<longleftrightarrow> ?R")
proof -
  let ?ls = "filter (\<lambda>l. in_range s e (ol_w_id l)) (order_line db)"
  define null where "null k \<longleftrightarrow> (\<exists>l \<in> set ?ls. ol_order l = k \<and> ol_delivery_d l = None)" for k
  define deliv where "deliv k \<longleftrightarrow> (\<exists>l \<in> set ?ls. ol_order l = k \<and> ol_delivery_d l \<noteq> None)" for k
  have L: "?L \<longleftrightarrow> (\<forall>k \<in> ol_order ` set ?ls. \<forall>x \<in> set (oorder db). o_key x = k \<longrightarrow>
      \<not> (null k \<and> deliv k \<or> o_carrier_id x = None \<and> deliv k \<or> o_carrier_id x \<noteq> None \<and> null k))"
    unfolding ConsistencyCheck3327_def Let_def CheckNoRows_def concat_eq_Nil_conv null_def deliv_def
    by (simp add: filter_empty_conv list_ex_iff Bex_def)
  show ?thesis
  proof
    assume ?L
    show ?R
    proof (intro ballI impI)
      fix l x assume a: "l \<in> set (order_line db)" "x \<in> set (oorder db)" "in_range s e (ol_w_id l) \<and> o_key x = ol_order l"
      have l: "l \<in> set ?ls" using a by simp
      have "\<not> (null (ol_order l) \<and> deliv (ol_order l) \<or> o_carrier_id x = None \<and> deliv (ol_order l) \<or>
          o_carrier_id x \<noteq> None \<and> null (ol_order l))"
        using \<open>?L\<close> [unfolded L, THEN bspec, OF imageI [OF l], THEN bspec, OF a(2)] a(3) by simp
      moreover have "ol_delivery_d l = None \<Longrightarrow> null (ol_order l)" "ol_delivery_d l \<noteq> None \<Longrightarrow> deliv (ol_order l)"
        unfolding null_def deliv_def using l by auto
      ultimately show "ol_delivery_d l = None \<longleftrightarrow> o_carrier_id x = None" by argo
    qed
  next
    assume R: ?R
    show ?L unfolding L
    proof (intro ballI impI)
      fix k x assume a: "x \<in> set (oorder db)" "o_key x = k"
      have line: "ol_delivery_d l = None \<longleftrightarrow> o_carrier_id x = None" if "l \<in> set ?ls" "ol_order l = k" for l
        using R [THEN bspec, OF _, THEN bspec, OF _ a(1), of l] that a(2) by simp
      have "null k \<Longrightarrow> o_carrier_id x = None" "deliv k \<Longrightarrow> o_carrier_id x \<noteq> None"
        unfolding null_def deliv_def by (erule bexE, use line in metis)+
      then show "\<not> (null k \<and> deliv k \<or> o_carrier_id x = None \<and> deliv k \<or> o_carrier_id x \<noteq> None \<and> null k)"
        by argo
    qed
  qed
qed

lemma check3328_iff [check_iffs]:
  "ConsistencyCheck3328 s e db \<longleftrightarrow>
     (\<forall>w \<in> set (warehouse db). in_range s e (w_id w) \<longrightarrow>
        w_ytd w = sum_list (map h_amount (filter (\<lambda>h. h_w_id h = w_id w) (history db))))"
  by (auto simp: ConsistencyCheck3328_def no_rows_filter)

lemma check3329_iff [check_iffs]:
  "ConsistencyCheck3329 s e db \<longleftrightarrow>
     (\<forall>d \<in> set (district db). in_range s e (d_w_id d) \<longrightarrow>
        d_ytd d = sum_list (map h_amount (filter (\<lambda>h. (h_w_id h, h_d_id h) = d_key d) (history db))))"
  by (auto simp: ConsistencyCheck3329_def no_rows_filter)

lemma check33210_iff [check_iffs]:
  "ConsistencyCheck33210 s e db \<longleftrightarrow>
     (\<forall>c \<in> set (customer db). in_range s e (c_w_id c) \<longrightarrow>
        c_balance c = delivered_sum db (c_key c) - history_sum db (c_key c))"
  by (auto simp: ConsistencyCheck33210_def no_rows_filter)

lemma check33212_iff [check_iffs]:
  "ConsistencyCheck33212 s e db \<longleftrightarrow>
     (\<forall>c \<in> set (customer db). in_range s e (c_w_id c) \<longrightarrow> c_balance c + c_ytd_payment c = delivered_sum db (c_key c))"
  by (auto simp: ConsistencyCheck33212_def no_rows_filter)

text \<open>All the conditions that hold after a test run, for a range of warehouses.\<close>

definition consistent :: "int \<Rightarrow> int \<Rightarrow> pg_db \<Rightarrow> bool" where
  "consistent s e db \<longleftrightarrow>
     ConsistencyCheck3321 db \<and> ConsistencyCheck3322 s e db \<and> ConsistencyCheck3323 s e db \<and>
     ConsistencyCheck3324 s e db \<and> ConsistencyCheck3325 s e db \<and> ConsistencyCheck3326 s e db \<and>
     ConsistencyCheck3327 s e db \<and> ConsistencyCheck3328 s e db \<and> ConsistencyCheck3329 s e db \<and>
     ConsistencyCheck33210 s e db \<and> ConsistencyCheck33212 s e db"

section \<open>Payment\<close>

lemma ball_update_where:
  "(\<forall>r \<in> set (update_where P f t). Q r) \<longleftrightarrow> (\<forall>r \<in> set t. Q (if P r then f r else r))"
  by (auto simp: update_where_def)

lemma sum_filter_update_where:
  fixes g :: "'r \<Rightarrow> int"
  assumes "\<And>r. P r \<Longrightarrow> g (f r) = g r + a" "\<And>r. P r \<Longrightarrow> Q (f r) = Q r"
  shows "sum_list (map g (filter Q (update_where P f t))) = sum_list (map g (filter Q t)) + a * int (affected P (filter Q t))"
  using assms by (induction t) (auto simp: algebra_simps)

lemma payment_fields [simp]:
  "oorder (payment_effect i row n u data date hdata db) = oorder db"
  "new_order (payment_effect i row n u data date hdata db) = new_order db"
  "order_line (payment_effect i row n u data date hdata db) = order_line db"
  "item (payment_effect i row n u data date hdata db) = item db"
  "stock (payment_effect i row n u data date hdata db) = stock db"
  by (simp_all add: payment_effect_def Let_def)

lemma payment_keys:
  "primary_keys db \<Longrightarrow> primary_keys (payment_effect i row n u data date hdata db)"
  by (simp add: primary_keys_def payment_effect_def Let_def map_update_where d_key_def)

lemma payment_3321:
  assumes w1: "affected (\<lambda>x. w_id x = pi_WarehouseID i) (warehouse db) = 1"
    and d1: "affected (\<lambda>x. d_key x = (pi_WarehouseID i, pi_DistrictID i)) (district db) = 1"
    and c: "ConsistencyCheck3321 db"
  shows "ConsistencyCheck3321 (payment_effect i row n u data date hdata db)"
proof -
  let ?P = "\<lambda>x. d_key x = (pi_WarehouseID i, pi_DistrictID i)" and ?a = "MoneyUnits (pi_PaymentAmount i)"
  have s: "sum_list (map d_ytd (filter (\<lambda>d. d_w_id d = v) (update_where ?P (\<lambda>x. x \<lparr> d_ytd := d_ytd x + ?a \<rparr>) (district db)))) =
      sum_list (map d_ytd (filter (\<lambda>d. d_w_id d = v) (district db))) + (if v = pi_WarehouseID i then ?a else 0)" for v
  proof -
    have "affected ?P (filter (\<lambda>d. d_w_id d = v) (district db)) = (if v = pi_WarehouseID i then 1 else 0)"
    proof (cases "v = pi_WarehouseID i")
      case True
      then have "affected ?P (filter (\<lambda>d. d_w_id d = v) (district db)) = affected ?P (district db)"
        by (intro affected_filter) (simp add: d_key_def)
      with True d1 show ?thesis by simp
    next
      case False
      then have "affected ?P (filter (\<lambda>d. d_w_id d = v) (district db)) = 0"
        by (intro affected_filter_none) (auto simp: d_key_def)
      with False show ?thesis by simp
    qed
    then show ?thesis by (subst sum_filter_update_where [where a = ?a]) auto
  qed
  from c show ?thesis
    unfolding check3321_iff payment_effect_def Let_def by (simp add: ball_update_where s)
qed

lemma payment_3328:
  assumes "ConsistencyCheck3328 s e db"
  shows "ConsistencyCheck3328 s e (payment_effect i row n u data date hdata db)"
  using assms unfolding check3328_iff payment_effect_def Let_def by (simp add: ball_update_where)

lemma payment_3329:
  assumes "ConsistencyCheck3329 s e db"
  shows "ConsistencyCheck3329 s e (payment_effect i row n u data date hdata db)"
  using assms unfolding check3329_iff payment_effect_def Let_def by (auto simp: ball_update_where d_key_def)

lemma payment_orders:
  assumes "consistent s e db"
  shows "ConsistencyCheck3322 s e (payment_effect i row n u data date hdata db)"
    "ConsistencyCheck3323 s e (payment_effect i row n u data date hdata db)"
    "ConsistencyCheck3324 s e (payment_effect i row n u data date hdata db)"
    "ConsistencyCheck3325 s e (payment_effect i row n u data date hdata db)"
    "ConsistencyCheck3326 s e (payment_effect i row n u data date hdata db)"
    "ConsistencyCheck3327 s e (payment_effect i row n u data date hdata db)"
proof -
  have "district (payment_effect i row n u data date hdata db) =
      update_where (\<lambda>x. d_key x = (pi_WarehouseID i, pi_DistrictID i)) (\<lambda>x. x \<lparr> d_ytd := d_ytd x + MoneyUnits (pi_PaymentAmount i) \<rparr>) (district db)"
    by (simp add: payment_effect_def Let_def)
  moreover have "district_orders (payment_effect i row n u data date hdata db) = district_orders db"
    "district_new_orders (payment_effect i row n u data date hdata db) = district_new_orders db"
    by (simp_all add: fun_eq_iff district_orders_def district_new_orders_def)
  ultimately show "ConsistencyCheck3322 s e (payment_effect i row n u data date hdata db)"
    using assms by (auto simp: consistent_def check3322_iff ball_update_where d_key_def)
qed (use assms in \<open>simp_all add: consistent_def ConsistencyCheck3323_def district_new_orders_def
    ConsistencyCheck3324_def ConsistencyCheck3325_def ConsistencyCheck3326_def ConsistencyCheck3327_def\<close>)

lemma payment_customers:
  assumes row: "row \<in> set (customer db)" and keys: "distinct (map c_key (customer db))"
    and c: "ConsistencyCheck33210 s e db" "ConsistencyCheck33212 s e db"
  shows "ConsistencyCheck33210 s e (payment_effect i row n u data date hdata db)"
    "ConsistencyCheck33212 s e (payment_effect i row n u data date hdata db)"
proof -
  let ?db = "payment_effect i row n u data date hdata db" and ?a = "MoneyUnits (pi_PaymentAmount i)"
  have ds: "delivered_sum ?db = delivered_sum db"
    by (simp add: fun_eq_iff delivered_sum_def)
  have hs: "history_sum ?db k = history_sum db k + (if k = c_key row then ?a else 0)" for k
    by (simp add: history_sum_def payment_effect_def Let_def h_customer_def c_key_def eq_commute)
  have cs: "customer ?db = update_where (\<lambda>x. c_key x = c_key row)
      (paid_row (TMoney (c_balance row - ?a)) (TMoney (c_ytd_payment row + ?a)) n u data) (customer db)"
    by (simp add: payment_effect_def Let_def)
  have uniq: "x = row" if "x \<in> set (customer db)" "c_key x = c_key row" for x
    using that row keys by (simp add: distinct_map inj_on_def)
  have wid: "c_w_id (paid_row b y n u data r) = c_w_id r" for b y r
    by (simp add: paid_row_def)
  show "ConsistencyCheck33210 s e ?db"
    using c(1) row unfolding check33210_iff cs ball_update_where
    by (auto simp: ds hs wid dest: uniq)
  show "ConsistencyCheck33212 s e ?db"
    using c(2) row unfolding check33212_iff cs ball_update_where
    by (auto simp: ds wid dest: uniq)
qed

lemma payment_consistent:
  assumes "committed pg_sem (payment_wf i) db db'" "primary_keys db" "consistent s e db"
  shows "primary_keys db' \<and> consistent s e db'"
proof -
  obtain row n u data date hdata where e: "row \<in> set (customer db)"
    "affected (\<lambda>x. w_id x = pi_WarehouseID i) (warehouse db) = 1"
    "affected (\<lambda>x. d_key x = (pi_WarehouseID i, pi_DistrictID i)) (district db) = 1"
    "db' = payment_effect i row n u data date hdata db"
    using payment_committed [OF assms(1)] by blast
  have "distinct (map c_key (customer db))" using assms(2) by (simp add: primary_keys_def)
  with e assms(3) show ?thesis
    using payment_keys [OF assms(2)] payment_3321 [OF e(2,3)] payment_3328 payment_3329 payment_orders [OF assms(3)]
      payment_customers [OF e(1)]
    unfolding consistent_def by simp
qed

end
