(* ===== verification/Pg_Consistency_Orders.thy ===== *)
theory Pg_Consistency_Orders
  imports Pg_Consistency
begin

text \<open>
  New-Order and Delivery keep the consistency conditions.
\<close>

section \<open>Aggregates of extended and shrunk lists\<close>

lemma max_of_snoc:
  assumes "max_of xs = Some m" "m \<le> x"
  shows "max_of (xs @ [x]) = Some x"
proof -
  have "xs \<noteq> []" "Max (set xs) = m" using assms(1) by (auto simp: max_of_def split: if_splits)
  then show ?thesis using assms(2) by (simp add: max_of_def max_def)
qed

lemma max_of_Some: "max_of xs = Some m \<longleftrightarrow> xs \<noteq> [] \<and> Max (set xs) = m"
  by (auto simp: max_of_def)

lemma check3322D:
  assumes "ConsistencyCheck3322 s e db" "row \<in> set (district db)" "in_range s e (d_w_id row)"
  shows "max_of (district_orders db (d_key row)) = Some (d_next_o_id row - 1)"
    "district_new_orders db (d_key row) = [] \<or> max_of (district_new_orders db (d_key row)) = Some (d_next_o_id row - 1)"
  using assms unfolding check3322_iff by blast+

lemma max_of_single [simp]: "max_of [x] = Some x"
  by (simp add: max_of_def)

lemma group_sum_append:
  assumes "group_sum xs = group_sum ys" "n \<noteq> 0" "zs \<noteq> []" "sum_list zs = n"
  shows "group_sum (xs @ [n]) = group_sum (ys @ zs)"
  using assms by (auto simp: group_sum_def split: if_splits)

section \<open>New-Order\<close>

text \<open>What is known about a committed New-Order.\<close>

definition new_order_facts :: "TNewOrderInputs \<Rightarrow> district_row \<Rightarrow> stock_row list \<Rightarrow> order_line_row list \<Rightarrow> pg_db \<Rightarrow> bool" where
  "new_order_facts i row st ls db \<longleftrightarrow>
     filter (\<lambda>x. d_key x = (no_WarehouseID i, no_DistrictID i)) (district db) = [row] \<and>
     (no_WarehouseID i, no_DistrictID i, d_next_o_id row) \<notin> o_key ` set (oorder db) \<and>
     (no_WarehouseID i, no_DistrictID i, d_next_o_id row) \<notin> no_key ` set (new_order db) \<and>
     map s_key st = map s_key (stock db) \<and>
     int (length ls) = no_NumItems i \<and> 1 \<le> no_NumItems i \<and>
     (\<forall>l \<in> set ls. ol_order l = (no_WarehouseID i, no_DistrictID i, d_next_o_id row) \<and> ol_delivery_d l = None) \<and>
     (distinct (map ol_key (order_line db)) \<longrightarrow> distinct (map ol_key (order_line db @ ls)))"

lemma new_order_fields:
  "warehouse (new_order_effect i row date st ls db) = warehouse db"
  "item (new_order_effect i row date st ls db) = item db"
  "customer (new_order_effect i row date st ls db) = customer db"
  "history (new_order_effect i row date st ls db) = history db"
  "district (new_order_effect i row date st ls db) =
     update_where (\<lambda>x. d_key x = (no_WarehouseID i, no_DistrictID i)) (\<lambda>x. x \<lparr> d_next_o_id := d_next_o_id row + 1 \<rparr>) (district db)"
  "stock (new_order_effect i row date st ls db) = st"
  "order_line (new_order_effect i row date st ls db) = order_line db @ ls"
  "new_order (new_order_effect i row date st ls db) = new_order db @
     [\<lparr> no_w_id = no_WarehouseID i, no_d_id = no_DistrictID i, no_o_id = d_next_o_id row \<rparr>]"
  "oorder (new_order_effect i row date st ls db) = oorder db @
     [\<lparr> o_w_id = no_WarehouseID i, o_d_id = no_DistrictID i, o_id = d_next_o_id row, o_c_id = no_CustomerID i,
        o_carrier_id = None, o_ol_cnt = no_NumItems i, o_all_local = no_AllLocal i, o_entry_d = date \<rparr>]"
  by (simp_all add: new_order_effect_def Let_def)

lemma new_order_keys:
  assumes "new_order_facts i row st ls db" "primary_keys db"
  shows "primary_keys (new_order_effect i row date st ls db)"
  using assms
  by (auto simp: primary_keys_def new_order_facts_def new_order_fields map_update_where d_key_def o_key_def no_key_def)

lemma new_order_row:
  assumes "new_order_facts i row st ls db"
  shows "row \<in> set (district db)" "d_key row = (no_WarehouseID i, no_DistrictID i)"
    "x \<in> set (district db) \<Longrightarrow> d_key x = (no_WarehouseID i, no_DistrictID i) \<Longrightarrow> x = row"
proof -
  have "filter (\<lambda>x. d_key x = (no_WarehouseID i, no_DistrictID i)) (district db) = [row]"
    using assms by (simp add: new_order_facts_def)
  then have *: "set (filter (\<lambda>x. d_key x = (no_WarehouseID i, no_DistrictID i)) (district db)) = {row}" by simp
  then show "row \<in> set (district db)" "d_key row = (no_WarehouseID i, no_DistrictID i)"
    "x \<in> set (district db) \<Longrightarrow> d_key x = (no_WarehouseID i, no_DistrictID i) \<Longrightarrow> x = row"
    by auto
qed

lemma new_order_fresh:
  assumes "new_order_facts i row st ls db"
  shows "x \<in> set (oorder db) \<Longrightarrow> o_key x \<noteq> (no_WarehouseID i, no_DistrictID i, d_next_o_id row)"
    "n \<in> set (new_order db) \<Longrightarrow> no_key n \<noteq> (no_WarehouseID i, no_DistrictID i, d_next_o_id row)"
  using assms unfolding new_order_facts_def by (metis imageI)+

lemma new_order_lines_fresh:
  assumes "new_order_facts i row st ls db"
  shows "\<forall>l \<in> set ls. ol_order l = (no_WarehouseID i, no_DistrictID i, d_next_o_id row) \<and> ol_delivery_d l = None"
  using assms by (simp add: new_order_facts_def)

lemma new_order_3321:
  assumes "ConsistencyCheck3321 db"
  shows "ConsistencyCheck3321 (new_order_effect i row date st ls db)"
  using assms unfolding check3321_iff by (simp add: new_order_fields filter_update_where map_update_where)

lemma new_order_3328:
  assumes "ConsistencyCheck3328 s e db"
  shows "ConsistencyCheck3328 s e (new_order_effect i row date st ls db)"
  using assms unfolding check3328_iff by (simp add: new_order_fields)

lemma new_order_3329:
  assumes "ConsistencyCheck3329 s e db"
  shows "ConsistencyCheck3329 s e (new_order_effect i row date st ls db)"
  using assms unfolding check3329_iff by (auto simp: new_order_fields ball_update_where d_key_def)

lemma new_order_districts:
  "district_orders (new_order_effect i row date st ls db) k =
     district_orders db k @ (if k = (no_WarehouseID i, no_DistrictID i) then [d_next_o_id row] else [])"
  "district_new_orders (new_order_effect i row date st ls db) k =
     district_new_orders db k @ (if k = (no_WarehouseID i, no_DistrictID i) then [d_next_o_id row] else [])"
  by (auto simp: district_orders_def district_new_orders_def new_order_fields)

lemma new_order_3322:
  assumes f: "new_order_facts i row st ls db" and c: "ConsistencyCheck3322 s e db"
  shows "ConsistencyCheck3322 s e (new_order_effect i row date st ls db)"
  unfolding check3322_iff new_order_fields ball_update_where
proof (intro ballI impI, goal_cases)
  case (1 d)
  show ?case
  proof (cases "d_key d = (no_WarehouseID i, no_DistrictID i)")
    case True
    then have "d = row" using new_order_row(3) [OF f] 1(1) by simp
    then have "in_range s e (d_w_id row)" using 1(2) True by simp
    from check3322D [OF c new_order_row(1) [OF f] this] show ?thesis
      using \<open>d = row\<close> True by (auto simp: new_order_districts d_key_def intro: max_of_snoc)
  next
    case False
    with c 1 show ?thesis by (auto simp: check3322_iff new_order_districts)
  qed
qed

lemma new_order_3323:
  assumes f: "new_order_facts i row st ls db" and c: "ConsistencyCheck3322 s e db" "ConsistencyCheck3323 s e db"
  shows "ConsistencyCheck3323 s e (new_order_effect i row date st ls db)"
  unfolding check3323_iff
proof (intro allI impI, goal_cases)
  case (1 w d)
  let ?xs = "district_new_orders db (w, d)" and ?o = "d_next_o_id row"
  show ?case
  proof (cases "(w, d) = (no_WarehouseID i, no_DistrictID i) \<and> ?xs \<noteq> []")
    case True
    with new_order_row(1,2) [OF f] 1 have row: "row \<in> set (district db)" "d_key row = (w, d)" "in_range s e (d_w_id row)"
      by (auto simp: d_key_def)
    have "Max (set ?xs) = ?o - 1"
      using check3322D(2) [OF c(1) row(1,3)] True unfolding row(2) max_of_Some by auto
    moreover have "int (length ?xs) = Max (set ?xs) - Min (set ?xs) + 1" using c(2) 1 True unfolding check3323_iff by blast
    moreover have "Min (set ?xs) \<le> Max (set ?xs)" using True by (intro Max_ge Min_in) auto
    moreover have "Max (insert ?o (set ?xs)) = max ?o (Max (set ?xs))" "Min (insert ?o (set ?xs)) = min ?o (Min (set ?xs))"
      using True by (intro Max_insert Min_insert; simp)+
    ultimately show ?thesis using True by (simp add: new_order_districts)
  next
    case False
    with c(2) 1 show ?thesis by (auto simp: check3323_iff new_order_districts)
  qed
qed

lemma new_order_3324:
  assumes f: "new_order_facts i row st ls db" and c: "ConsistencyCheck3324 s e db"
  shows "ConsistencyCheck3324 s e (new_order_effect i row date st ls db)"
  unfolding check3324_iff
proof (intro allI impI, goal_cases)
  case (1 w d)
  let ?k = "(no_WarehouseID i, no_DistrictID i)"
  have old: "group_sum (map o_ol_cnt (filter (\<lambda>x. (o_w_id x, o_d_id x) = (w, d)) (oorder db))) =
      group_sum (map (\<lambda>l. 1) (filter (\<lambda>l. (ol_w_id l, ol_d_id l) = (w, d)) (order_line db)))"
    using c 1 unfolding check3324_iff by blast
  have lk: "(ol_w_id l, ol_d_id l) = ?k" if "l \<in> set ls" for l
    using f that by (auto simp: new_order_facts_def ol_order_def)
  show ?case
  proof (cases "(w, d) = ?k")
    case True
    then have fl: "filter (\<lambda>l. (ol_w_id l, ol_d_id l) = (w, d)) ls = ls" using lk by (auto intro: filter_True)
    have "sum_list (map (\<lambda>l. 1 :: int) ls) = no_NumItems i" "ls \<noteq> []" "no_NumItems i \<noteq> 0"
      using f by (auto simp: new_order_facts_def sum_list_triv)
    with group_sum_append [OF old, of "no_NumItems i" "map (\<lambda>l. 1) ls"] True fl show ?thesis
      by (simp add: new_order_fields)
  next
    case False
    then have "filter (\<lambda>l. (ol_w_id l, ol_d_id l) = (w, d)) ls = []" using lk by (auto simp: filter_empty_conv)
    with False old show ?thesis by (auto simp: new_order_fields)
  qed
qed

lemma new_order_3325:
  assumes f: "new_order_facts i row st ls db" and c: "ConsistencyCheck3325 s e db"
  shows "ConsistencyCheck3325 s e (new_order_effect i row date st ls db)"
proof -
  let ?k = "(no_WarehouseID i, no_DistrictID i, d_next_o_id row)"
  have "\<forall>n \<in> set (new_order db). no_key n \<noteq> ?k" "\<forall>x \<in> set (oorder db). o_key x \<noteq> ?k"
    using new_order_fresh [OF f] by blast+
  with c show ?thesis
    unfolding check3325_iff new_order_fields by (auto simp: o_key_def no_key_def)
qed

lemma no_lines_of_fresh:
  assumes c: "ConsistencyCheck3326 s e db" and k: "k \<notin> o_key ` set (oorder db)" "in_range s e (fst k)"
  shows "filter (\<lambda>l. ol_order l = k) (order_line db) = []"
  using assms by (auto simp: check3326_iff filter_empty_conv ol_order_def)

lemma new_order_3326:
  assumes f: "new_order_facts i row st ls db" and c: "ConsistencyCheck3326 s e db"
  shows "ConsistencyCheck3326 s e (new_order_effect i row date st ls db)"
proof -
  let ?k = "(no_WarehouseID i, no_DistrictID i, d_next_o_id row)"
  have fresh: "\<forall>x \<in> set (oorder db). o_key x \<noteq> ?k" and lk: "\<forall>l \<in> set ls. ol_order l = ?k"
    and len: "int (length ls) = no_NumItems i"
    using new_order_fresh [OF f] new_order_lines_fresh [OF f] f by (blast, blast, simp add: new_order_facts_def)
  have new: "filter (\<lambda>l. ol_order l = ?k) (order_line db @ ls) = ls" if "in_range s e (no_WarehouseID i)"
  proof -
    have "?k \<notin> o_key ` set (oorder db)" using fresh by (metis imageE)
    then have "filter (\<lambda>l. ol_order l = ?k) (order_line db) = []" using no_lines_of_fresh [OF c] that by simp
    then show ?thesis using lk by (simp add: filter_id_conv)
  qed
  have old: "filter (\<lambda>l. ol_order l = o_key x) (order_line db @ ls) = filter (\<lambda>l. ol_order l = o_key x) (order_line db)"
    if "x \<in> set (oorder db)" for x
    using fresh lk that by (auto simp: filter_empty_conv)
  show ?thesis
    using c new old len lk unfolding check3326_iff new_order_fields by (auto simp: o_key_def)
qed

lemma new_order_3327:
  assumes f: "new_order_facts i row st ls db" and c: "ConsistencyCheck3326 s e db" "ConsistencyCheck3327 s e db"
  shows "ConsistencyCheck3327 s e (new_order_effect i row date st ls db)"
proof -
  let ?k = "(no_WarehouseID i, no_DistrictID i, d_next_o_id row)"
  have fresh: "\<forall>x \<in> set (oorder db). o_key x \<noteq> ?k" and lk: "\<forall>l \<in> set ls. ol_order l = ?k \<and> ol_delivery_d l = None"
    using new_order_fresh [OF f] new_order_lines_fresh [OF f] by blast+
  have none: "ol_order l \<noteq> ?k" if "l \<in> set (order_line db)" "in_range s e (ol_w_id l)" for l
    using c(1) fresh that by (auto simp: check3326_iff)
  show ?thesis
    unfolding check3327_iff new_order_fields
  proof (intro ballI impI)
    fix l x
    assume l: "l \<in> set (order_line db @ ls)" and x: "x \<in> set (oorder db @ [\<lparr> o_w_id = no_WarehouseID i,
          o_d_id = no_DistrictID i, o_id = d_next_o_id row, o_c_id = no_CustomerID i, o_carrier_id = None,
          o_ol_cnt = no_NumItems i, o_all_local = no_AllLocal i, o_entry_d = date \<rparr>])"
      and a: "in_range s e (ol_w_id l) \<and> o_key x = ol_order l"
    consider "x \<in> set (oorder db)" "l \<in> set (order_line db)" | "o_key x = ?k" "l \<in> set (order_line db)" |
      "x \<in> set (oorder db)" "l \<in> set ls" | "o_carrier_id x = None" "l \<in> set ls"
      using l x by (auto simp: o_key_def)
    then show "ol_delivery_d l = None \<longleftrightarrow> o_carrier_id x = None"
    proof cases
      case 1
      with c(2) a show ?thesis by (simp add: check3327_iff)
    next
      case 2
      with none a show ?thesis by metis
    next
      case 3
      with fresh lk a show ?thesis by metis
    next
      case 4
      with lk show ?thesis by simp
    qed
  qed
qed

lemma new_order_delivered:
  assumes f: "new_order_facts i row st ls db" and c: "ConsistencyCheck3326 s e db" and k: "in_range s e (fst k)"
  shows "delivered_sum (new_order_effect i row date st ls db) k = delivered_sum db k"
proof -
  let ?k = "(no_WarehouseID i, no_DistrictID i, d_next_o_id row)"
  have fresh: "?k \<notin> o_key ` set (oorder db)" and lk: "\<forall>l \<in> set ls. ol_order l = ?k \<and> ol_delivery_d l = None"
    using f by (auto simp: new_order_facts_def)
  have und: "filter (\<lambda>l. ol_order l = j \<and> ol_delivery_d l \<noteq> None) (order_line db @ ls) =
      filter (\<lambda>l. ol_order l = j \<and> ol_delivery_d l \<noteq> None) (order_line db)" for j
    using lk by (auto simp: filter_empty_conv)
  have "filter (\<lambda>l. ol_order l = ?k \<and> ol_delivery_d l \<noteq> None) (order_line db) = []" if "no_WarehouseID i = fst k"
    using no_lines_of_fresh [OF c fresh] k that by (auto simp: filter_empty_conv)
  then show ?thesis
    unfolding delivered_sum_def new_order_fields und by (auto simp: o_customer_def o_key_def)
qed

lemma new_order_customers:
  assumes f: "new_order_facts i row st ls db" and c: "consistent s e db"
  shows "ConsistencyCheck33210 s e (new_order_effect i row date st ls db)"
    "ConsistencyCheck33212 s e (new_order_effect i row date st ls db)"
proof -
  let ?db = "new_order_effect i row date st ls db"
  have d: "delivered_sum ?db (c_key x) = delivered_sum db (c_key x)" if "in_range s e (c_w_id x)" for x
    using new_order_delivered [OF f, of s e "c_key x" date] c that by (simp add: consistent_def c_key_def)
  have h: "history_sum ?db = history_sum db" by (simp add: fun_eq_iff history_sum_def new_order_fields)
  have "ConsistencyCheck33210 s e db" "ConsistencyCheck33212 s e db" using c by (simp_all add: consistent_def)
  then show "ConsistencyCheck33210 s e ?db" "ConsistencyCheck33212 s e ?db"
    by (simp_all add: check33210_iff check33212_iff new_order_fields d h)
qed

lemma new_order_consistent:
  assumes "committed pg_sem (new_order_wf i) db db'" "int (length (new_order_lines i)) = no_NumItems i"
    "1 \<le> no_NumItems i" "primary_keys db" "consistent s e db"
  shows "primary_keys db' \<and> consistent s e db'"
proof -
  obtain row date st ls where e: "new_order_facts i row st ls db" "db' = new_order_effect i row date st ls db"
    using new_order_committed [OF assms(1)] assms(2,3) unfolding new_order_facts_def by metis
  have c: "ConsistencyCheck3321 db" "ConsistencyCheck3322 s e db" "ConsistencyCheck3323 s e db"
     "ConsistencyCheck3324 s e db" "ConsistencyCheck3325 s e db" "ConsistencyCheck3326 s e db"
     "ConsistencyCheck3327 s e db" "ConsistencyCheck3328 s e db" "ConsistencyCheck3329 s e db"
    using assms(5) by (simp_all add: consistent_def)
  show ?thesis
    unfolding consistent_def e(2)
    by (intro conjI new_order_keys [OF e(1) assms(4)] new_order_3321 [OF c(1)] new_order_3322 [OF e(1) c(2)]
      new_order_3323 [OF e(1) c(2,3)] new_order_3324 [OF e(1) c(4)] new_order_3325 [OF e(1) c(5)]
      new_order_3326 [OF e(1) c(6)] new_order_3327 [OF e(1) c(6,7)] new_order_3328 [OF c(8)] new_order_3329 [OF c(9)]
      new_order_customers [OF e(1) assms(5)])
qed

section \<open>Delivery\<close>

text \<open>Taking the least element out of a gapless list of distinct numbers leaves a gapless list with the
  same greatest element.\<close>

lemma gapless_remove_min:
  fixes xs :: "int list"
  assumes d: "distinct xs" and n: "int (length xs) = Max (set xs) - Min (set xs) + 1"
    and m: "m \<in> set xs" "\<forall>y \<in> set xs. m \<le> y" and ne: "filter (\<lambda>y. y \<noteq> m) xs \<noteq> []"
  shows "Max (set (filter (\<lambda>y. y \<noteq> m) xs)) = Max (set xs)"
    "int (length (filter (\<lambda>y. y \<noteq> m) xs)) =
       Max (set (filter (\<lambda>y. y \<noteq> m) xs)) - Min (set (filter (\<lambda>y. y \<noteq> m) xs)) + 1"
proof -
  define b where "b = Max (set xs)"
  let ?ys = "filter (\<lambda>y. y \<noteq> m) xs"
  have min: "Min (set xs) = m" using m by (intro Min_eqI) auto
  have "card (set xs) = card {m..b}" using n d min by (simp add: distinct_card b_def)
  moreover have "set xs \<subseteq> {m..b}" using m by (auto simp: b_def)
  ultimately have "set xs = {m..b}" by (intro card_subset_eq) auto
  then have ys: "set ?ys = {m + 1..b}" by auto
  have "set ?ys \<noteq> {}" using ne by (simp only: set_empty not_False_eq_True)
  then have le: "m + 1 \<le> b" unfolding ys by simp
  have len: "int (length ?ys) = b - m" using distinct_card [of ?ys] d le ys by simp
  show "Max (set ?ys) = Max (set xs)" unfolding ys b_def [symmetric] using le by (intro Max_eqI) auto
  moreover have "Min (set ?ys) = m + 1" unfolding ys using le by (intro Min_eqI) auto
  ultimately show "int (length ?ys) = Max (set ?ys) - Min (set ?ys) + 1" using len by (simp add: b_def)
qed

lemma keys_after_delivery [simp]:
  "o_key (x \<lparr> o_carrier_id := v \<rparr>) = o_key x"
  "o_customer (x \<lparr> o_carrier_id := v \<rparr>) = o_customer x"
  "ol_order (l \<lparr> ol_delivery_d := t \<rparr>) = ol_order l"
  "ol_key (l \<lparr> ol_delivery_d := t \<rparr>) = ol_key l"
  "c_key (c \<lparr> c_balance := b, c_delivery_cnt := n \<rparr>) = c_key c"
  by (simp_all add: o_key_def o_customer_def ol_order_def ol_key_def c_key_def)

abbreviation delivered_key :: "int \<Rightarrow> int \<times> TOrderData \<Rightarrow> int \<times> int \<times> int" where
  "delivered_key w x \<equiv> (w, fst x, od_OrderID (snd x))"

lemma deliver_fields:
  "warehouse (deliver_one w ca x db) = warehouse db" "item (deliver_one w ca x db) = item db"
  "district (deliver_one w ca x db) = district db" "stock (deliver_one w ca x db) = stock db"
  "history (deliver_one w ca x db) = history db"
  "new_order (deliver_one w ca x db) = filter (\<lambda>n. no_key n \<noteq> delivered_key w x) (new_order db)"
  "oorder (deliver_one w ca x db) =
     update_where (\<lambda>y. o_key y = delivered_key w x) (\<lambda>y. y \<lparr> o_carrier_id := Some ca \<rparr>) (oorder db)"
  "order_line (deliver_one w ca x db) =
     update_where (\<lambda>l. ol_order l = delivered_key w x) (\<lambda>l. l \<lparr> ol_delivery_d := Some (current_timestamp db) \<rparr>) (order_line db)"
  "customer (deliver_one w ca x db) =
     update_where (\<lambda>c. c_key c = (w, fst x, od_CustomerId (snd x)))
       (\<lambda>c. c \<lparr> c_balance := c_balance c + MoneyUnits (od_TotalAmount (snd x)), c_delivery_cnt := c_delivery_cnt c + 1 \<rparr>)
       (customer db)"
  by (simp_all add: deliver_one_def credit_customer_def complete_order_def Let_def)

lemma distinct_map_filter_key: "distinct (map f xs) \<Longrightarrow> distinct (map f (filter P xs))"
  by (simp add: distinct_map inj_on_def)

lemma deliver_keys:
  "primary_keys db \<Longrightarrow> primary_keys (deliver_one w ca x db)"
  by (simp add: primary_keys_def deliver_fields map_update_where distinct_map_filter_key)

lemma deliver_totals:
  assumes "consistent s e db"
  shows "ConsistencyCheck3321 (deliver_one w ca x db)" "ConsistencyCheck3328 s e (deliver_one w ca x db)"
    "ConsistencyCheck3329 s e (deliver_one w ca x db)"
  using assms by (simp_all add: consistent_def ConsistencyCheck3321_def ConsistencyCheck3328_def ConsistencyCheck3329_def
      deliver_fields)

lemma deliver_district_orders:
  "district_orders (deliver_one w ca x db) k = district_orders db k"
  by (simp add: district_orders_def deliver_fields filter_update_where map_update_where)

lemma deliver_district_new_orders:
  "district_new_orders (deliver_one w ca x db) k =
     (if k = (w, fst x) then filter (\<lambda>y. y \<noteq> od_OrderID (snd x)) (district_new_orders db k) else district_new_orders db k)"
  by (cases k) (auto simp: district_new_orders_def deliver_fields filter_map comp_def no_key_def intro!: arg_cong [of _ _ "map no_o_id"] filter_cong)

lemma found_new_orders:
  assumes "found_order w db x" "primary_keys db"
  shows "od_OrderID (snd x) \<in> set (district_new_orders db (w, fst x))"
    "\<forall>y \<in> set (district_new_orders db (w, fst x)). od_OrderID (snd x) \<le> y"
    "distinct (district_new_orders db k)"
proof -
  obtain n where n: "n \<in> set (new_order db)" "no_key n = delivered_key w x"
    and m: "\<forall>m \<in> set (new_order db). no_w_id m = w \<longrightarrow> no_d_id m = fst x \<longrightarrow> od_OrderID (snd x) \<le> no_o_id m"
    using assms(1) unfolding found_order_def by blast
  show "od_OrderID (snd x) \<in> set (district_new_orders db (w, fst x))"
    unfolding district_new_orders_def set_map set_filter
    by (rule image_eqI [of _ _ n]) (use n in \<open>simp_all add: no_key_def\<close>)
  show "\<forall>y \<in> set (district_new_orders db (w, fst x)). od_OrderID (snd x) \<le> y"
    using m by (simp add: district_new_orders_def)
  have "inj_on no_key (set (new_order db))" "distinct (new_order db)" using assms(2) by (simp_all add: primary_keys_def distinct_map)
  then show "distinct (district_new_orders db k)"
    unfolding district_new_orders_def distinct_map inj_on_def by (auto simp: no_key_def)
qed

lemma deliver_new_orders:
  assumes f: "found_order w db x" and p: "primary_keys db" and c: "ConsistencyCheck3323 s e db" and w: "in_range s e w"
    and ne: "filter (\<lambda>y. y \<noteq> od_OrderID (snd x)) (district_new_orders db (w, fst x)) \<noteq> []" (is "?ys \<noteq> []")
  shows "Max (set ?ys) = Max (set (district_new_orders db (w, fst x)))"
    "int (length ?ys) = Max (set ?ys) - Min (set ?ys) + 1"
proof -
  have "int (length (district_new_orders db (w, fst x))) =
      Max (set (district_new_orders db (w, fst x))) - Min (set (district_new_orders db (w, fst x))) + 1"
    using c w found_new_orders(1) [OF f p] unfolding check3323_iff by (metis empty_iff list.set(1))
  from gapless_remove_min [OF found_new_orders(3) [OF f p] this found_new_orders(1,2) [OF f p] ne]
  show "Max (set ?ys) = Max (set (district_new_orders db (w, fst x)))"
    "int (length ?ys) = Max (set ?ys) - Min (set ?ys) + 1" .
qed

lemma deliver_3322:
  assumes f: "found_order w db x" and p: "primary_keys db" and c: "ConsistencyCheck3322 s e db" "ConsistencyCheck3323 s e db"
  shows "ConsistencyCheck3322 s e (deliver_one w ca x db)"
  unfolding check3322_iff deliver_fields deliver_district_orders
proof (intro ballI impI)
  fix d assume d: "d \<in> set (district db)" "in_range s e (d_w_id d)"
  let ?ys = "district_new_orders (deliver_one w ca x db) (d_key d)"
  have "?ys = [] \<or> max_of ?ys = Some (d_next_o_id d - 1)"
  proof (cases "d_key d = (w, fst x) \<and> ?ys \<noteq> []")
    case True
    then have k: "d_key d = (w, fst x)" and ne: "?ys \<noteq> []" by blast+
    then have ys: "?ys = filter (\<lambda>y. y \<noteq> od_OrderID (snd x)) (district_new_orders db (w, fst x))"
      by (simp add: deliver_district_new_orders)
    have "in_range s e w" using d k by (simp add: d_key_def)
    from deliver_new_orders(1) [OF f p c(2) this] ne ys have "Max (set ?ys) = Max (set (district_new_orders db (d_key d)))"
      unfolding k by simp
    moreover have "district_new_orders db (d_key d) \<noteq> []" using ne ys unfolding k by auto
    ultimately show ?thesis using ne check3322D(2) [OF c(1) d] unfolding max_of_Some by argo
  next
    case False
    then show ?thesis using check3322D(2) [OF c(1) d] by (auto simp: deliver_district_new_orders split: if_splits)
  qed
  with check3322D(1) [OF c(1) d]
  show "max_of (district_orders db (d_key d)) = Some (d_next_o_id d - 1) \<and> (?ys = [] \<or> max_of ?ys = Some (d_next_o_id d - 1))"
    by simp
qed

lemma deliver_3323:
  assumes f: "found_order w db x" and p: "primary_keys db" and c: "ConsistencyCheck3323 s e db"
  shows "ConsistencyCheck3323 s e (deliver_one w ca x db)"
  unfolding check3323_iff
proof (intro allI impI, goal_cases)
  case (1 v d)
  show ?case
  proof (cases "(v, d) = (w, fst x)")
    case True
    with 1 deliver_new_orders(2) [OF f p c] show ?thesis by (simp add: deliver_district_new_orders)
  next
    case False
    then have "district_new_orders (deliver_one w ca x db) (v, d) = district_new_orders db (v, d)"
      unfolding deliver_district_new_orders by (rule if_not_P)
    with 1 c show ?thesis by (simp add: check3323_iff)
  qed
qed

lemma bex_update_where:
  "(\<exists>r \<in> set (update_where P f t). Q r) \<longleftrightarrow> (\<exists>r \<in> set t. Q (if P r then f r else r))"
  by (auto simp: update_where_def)

lemma length_update_where [simp]: "length (update_where P f t) = length t"
  by (simp add: update_where_def)

lemma carrier_order_keys [simp]: "o_key ` set (update_where P (\<lambda>y. y \<lparr> o_carrier_id := v \<rparr>) t) = o_key ` set t"
  unfolding set_map [symmetric] by (simp add: map_update_where)

lemma deliver_counts:
  assumes "ConsistencyCheck3324 s e db" "ConsistencyCheck3326 s e db"
  shows "ConsistencyCheck3324 s e (deliver_one w ca x db)" "ConsistencyCheck3326 s e (deliver_one w ca x db)"
proof -
  show "ConsistencyCheck3324 s e (deliver_one w ca x db)"
    using assms(1) unfolding check3324_iff deliver_fields by (simp add: filter_update_where map_update_where)
  have "length (filter (\<lambda>l. ol_order l = k) (order_line (deliver_one w ca x db))) =
      length (filter (\<lambda>l. ol_order l = k) (order_line db))" for k
    unfolding deliver_fields by (simp add: filter_update_where)
  then show "ConsistencyCheck3326 s e (deliver_one w ca x db)"
    using assms(2) unfolding check3326_iff by (simp add: deliver_fields(7,8) ball_update_where) metis
qed

lemma deliver_3325:
  assumes c: "ConsistencyCheck3325 s e db"
  shows "ConsistencyCheck3325 s e (deliver_one w ca x db)"
proof -
  have 1: "(\<exists>y \<in> set t. o_key y = k) \<longleftrightarrow> k \<in> o_key ` set t" for k and t :: "oorder_row list" by auto
  have "o_key y \<in> no_key ` set (filter (\<lambda>n. no_key n \<noteq> delivered_key w x) (new_order db))"
    if "o_key y \<in> no_key ` set (new_order db)" "o_key y \<noteq> delivered_key w x" for y
    using that by auto
  then show ?thesis
    using c unfolding check3325_iff 1 deliver_fields ball_update_where by simp metis
qed

lemma deliver_3327:
  assumes c: "ConsistencyCheck3327 s e db"
  shows "ConsistencyCheck3327 s e (deliver_one w ca x db)"
  using c unfolding check3327_iff deliver_fields ball_update_where by auto

lemma undelivered_lines:
  assumes f: "found_order w db x" and c: "consistent s e db" and w: "in_range s e w"
    and l: "l \<in> set (order_line db)" "ol_order l = delivered_key w x"
  shows "ol_delivery_d l = None"
proof -
  obtain n y where n: "n \<in> set (new_order db)" "no_key n = delivered_key w x"
    and y: "y \<in> set (oorder db)" "o_key y = delivered_key w x"
    using f unfolding found_order_def by blast
  have "in_range s e (no_w_id n)" using n(2) w by (simp add: no_key_def)
  then have "o_carrier_id y = None"
    using c n y unfolding consistent_def check3325_iff by simp
  moreover have "in_range s e (ol_w_id l)" using l(2) w by (simp add: ol_order_def)
  ultimately show ?thesis
    using c l y unfolding consistent_def check3327_iff by simp
qed

lemma sum_list_single:
  assumes "distinct (map key t)"
  shows "sum_list (map (\<lambda>y. g y + (if key y = k then a else 0)) t) =
    sum_list (map g t) + (if k \<in> key ` set t then a else (0 :: int))"
  using assms by (induction t) auto

lemma delivered_lines:
  "filter (\<lambda>l. ol_order l = k \<and> ol_delivery_d l \<noteq> None) (update_where (\<lambda>l. ol_order l = j) (\<lambda>l. l \<lparr> ol_delivery_d := Some t \<rparr>) ls) =
     (if k = j then update_where (\<lambda>l. ol_order l = j) (\<lambda>l. l \<lparr> ol_delivery_d := Some t \<rparr>) (filter (\<lambda>l. ol_order l = k) ls)
      else filter (\<lambda>l. ol_order l = k \<and> ol_delivery_d l \<noteq> None) ls)"
  by (induction ls) auto

definition delivered_amount :: "pg_db \<Rightarrow> int \<times> int \<times> int \<Rightarrow> int" where
  "delivered_amount db k = sum_list (map ol_amount (filter (\<lambda>l. ol_order l = k \<and> ol_delivery_d l \<noteq> None) (order_line db)))"

lemma delivered_sum_amounts:
  "delivered_sum db c = sum_list (map (\<lambda>y. delivered_amount db (o_key y)) (filter (\<lambda>y. o_customer y = c) (oorder db)))"
  by (simp add: delivered_sum_def delivered_amount_def)

lemma deliver_amount:
  assumes f: "found_order w db x" and c: "consistent s e db" and w: "k = delivered_key w x \<Longrightarrow> in_range s e w"
  shows "delivered_amount (deliver_one w ca x db) k =
    delivered_amount db k + (if k = delivered_key w x then MoneyUnits (od_TotalAmount (snd x)) else 0)"
proof (cases "k = delivered_key w x")
  case True
  then have "filter (\<lambda>l. ol_order l = k \<and> ol_delivery_d l \<noteq> None) (order_line db) = []"
    using undelivered_lines [OF f c w] by (auto simp: filter_empty_conv)
  moreover have "MoneyUnits (od_TotalAmount (snd x)) = sum_list (map ol_amount (filter (\<lambda>l. ol_order l = k) (order_line db)))"
    using f True by (simp add: found_order_def)
  ultimately show ?thesis
    using True unfolding delivered_amount_def deliver_fields delivered_lines by (simp add: map_update_where)
next
  case False
  then show ?thesis unfolding delivered_amount_def deliver_fields delivered_lines by simp
qed

lemma deliver_sum:
  "delivered_sum (deliver_one w ca x db) c =
     sum_list (map (\<lambda>y. delivered_amount (deliver_one w ca x db) (o_key y)) (filter (\<lambda>y. o_customer y = c) (oorder db)))"
  unfolding delivered_sum_amounts deliver_fields(7) by (simp add: filter_update_where map_update_where)

lemma found_order_customer:
  assumes f: "found_order w db x" and p: "primary_keys db"
  shows "delivered_key w x \<in> o_key ` set (filter (\<lambda>y. o_customer y = k) (oorder db)) \<longleftrightarrow> k = (w, fst x, od_CustomerId (snd x))"
proof -
  obtain y where y: "y \<in> set (oorder db)" "o_key y = delivered_key w x" "o_c_id y = od_CustomerId (snd x)"
    using f unfolding found_order_def by blast
  then have k: "o_customer y = (w, fst x, od_CustomerId (snd x))" by (simp add: o_customer_def o_key_def)
  have uniq: "z = y" if "z \<in> set (oorder db)" "o_key z = delivered_key w x" for z
    using p y that by (simp add: primary_keys_def distinct_map inj_on_def)
  show ?thesis
  proof
    assume "delivered_key w x \<in> o_key ` set (filter (\<lambda>y. o_customer y = k) (oorder db))"
    then obtain z where "delivered_key w x = o_key z" "z \<in> set (oorder db)" "o_customer z = k" by (auto elim!: imageE)
    with uniq [of z] k show "k = (w, fst x, od_CustomerId (snd x))" by simp
  next
    assume "k = (w, fst x, od_CustomerId (snd x))"
    then show "delivered_key w x \<in> o_key ` set (filter (\<lambda>y. o_customer y = k) (oorder db))"
      using y k by (intro image_eqI [of _ _ y]) simp_all
  qed
qed

lemma deliver_delivered:
  assumes f: "found_order w db x" and p: "primary_keys db" and c: "consistent s e db" and w: "in_range s e (fst k)"
  shows "delivered_sum (deliver_one w ca x db) k =
    delivered_sum db k + (if k = (w, fst x, od_CustomerId (snd x)) then MoneyUnits (od_TotalAmount (snd x)) else 0)"
proof -
  let ?t = "filter (\<lambda>y. o_customer y = k) (oorder db)" and ?T = "MoneyUnits (od_TotalAmount (snd x))"
  have "delivered_amount (deliver_one w ca x db) (o_key y) =
      delivered_amount db (o_key y) + (if o_key y = delivered_key w x then ?T else 0)" if "y \<in> set ?t" for y
    using that w by (intro deliver_amount [OF f c]) (auto simp: o_key_def o_customer_def)
  then have "delivered_sum (deliver_one w ca x db) k =
      sum_list (map (\<lambda>y. delivered_amount db (o_key y) + (if o_key y = delivered_key w x then ?T else 0)) ?t)"
    unfolding deliver_sum by (intro arg_cong [of _ _ sum_list] map_cong) simp_all
  also have "\<dots> = delivered_sum db k + (if delivered_key w x \<in> o_key ` set ?t then ?T else 0)"
    using p unfolding delivered_sum_amounts by (intro sum_list_single) (simp add: primary_keys_def distinct_map_filter_key)
  finally show ?thesis unfolding found_order_customer [OF f p] .
qed

lemma deliver_customers:
  assumes f: "found_order w db x" and p: "primary_keys db" and c: "consistent s e db"
  shows "ConsistencyCheck33210 s e (deliver_one w ca x db)" "ConsistencyCheck33212 s e (deliver_one w ca x db)"
proof -
  have d: "delivered_sum (deliver_one w ca x db) (c_key y) = delivered_sum db (c_key y) +
      (if c_key y = (w, fst x, od_CustomerId (snd x)) then MoneyUnits (od_TotalAmount (snd x)) else 0)"
    if "in_range s e (c_w_id y)" for y
    by (rule deliver_delivered [OF f p c]) (simp add: that c_key_def)
  have h: "history_sum (deliver_one w ca x db) = history_sum db" by (simp add: fun_eq_iff history_sum_def deliver_fields)
  have "ConsistencyCheck33210 s e db" "ConsistencyCheck33212 s e db" using c by (simp_all add: consistent_def)
  then show "ConsistencyCheck33210 s e (deliver_one w ca x db)" "ConsistencyCheck33212 s e (deliver_one w ca x db)"
    by (simp_all add: check33210_iff check33212_iff deliver_fields(9) ball_update_where d h)
qed

lemma deliver_one_consistent:
  assumes f: "found_order w db x" and p: "primary_keys db" and c: "consistent s e db"
  shows "consistent s e (deliver_one w ca x db)"
proof -
  have "ConsistencyCheck3322 s e db" "ConsistencyCheck3323 s e db" "ConsistencyCheck3324 s e db"
    "ConsistencyCheck3325 s e db" "ConsistencyCheck3326 s e db" "ConsistencyCheck3327 s e db"
    using c by (simp_all add: consistent_def)
  then show ?thesis
    unfolding consistent_def
    using deliver_totals [OF c] deliver_3322 [OF f p] deliver_3323 [OF f p] deliver_counts deliver_3325 deliver_3327
      deliver_customers [OF f p c]
    by simp
qed

lemma found_order_other:
  assumes "found_order w db y" "fst y \<noteq> fst x"
  shows "found_order w (deliver_one w ca x db) y"
proof -
  have k: "delivered_key w y \<noteq> delivered_key w x" using assms(2) by simp
  obtain n z where f: "n \<in> set (new_order db)" "no_key n = delivered_key w y"
    "\<forall>m \<in> set (new_order db). no_w_id m = w \<longrightarrow> no_d_id m = fst y \<longrightarrow> od_OrderID (snd y) \<le> no_o_id m"
    "z \<in> set (oorder db)" "o_key z = delivered_key w y" "o_c_id z = od_CustomerId (snd y)"
    "MoneyUnits (od_TotalAmount (snd y)) =
      sum_list (map ol_amount (filter (\<lambda>l. ol_order l = delivered_key w y) (order_line db)))"
    using assms(1) unfolding found_order_def by blast
  have "filter (\<lambda>l. ol_order l = delivered_key w y) (order_line (deliver_one w ca x db)) =
      update_where (\<lambda>l. ol_order l = delivered_key w x) (\<lambda>l. l \<lparr> ol_delivery_d := Some (current_timestamp db) \<rparr>)
        (filter (\<lambda>l. ol_order l = delivered_key w y) (order_line db))"
    unfolding deliver_fields by (simp add: filter_update_where)
  then have a: "map ol_amount (filter (\<lambda>l. ol_order l = delivered_key w y) (order_line (deliver_one w ca x db))) =
      map ol_amount (filter (\<lambda>l. ol_order l = delivered_key w y) (order_line db))"
    by (simp add: map_update_where)
  have n: "n \<in> set (new_order (deliver_one w ca x db))" unfolding deliver_fields using f(1,2) k by simp
  have z: "\<exists>z' \<in> set (oorder (deliver_one w ca x db)). o_key z' = delivered_key w y \<and> o_c_id z' = od_CustomerId (snd y)"
    unfolding deliver_fields bex_update_where by (rule bexI [of _ z]) (use f k in simp_all)
  have m: "\<forall>m \<in> set (new_order (deliver_one w ca x db)). no_w_id m = w \<longrightarrow> no_d_id m = fst y \<longrightarrow> od_OrderID (snd y) \<le> no_o_id m"
    unfolding deliver_fields using f(3) by simp
  show ?thesis
    unfolding found_order_def a using n f(2,7) m z by blast
qed

lemma deliver_all_consistent:
  assumes "distinct (map fst xs)" "\<forall>x \<in> set xs. found_order w db x" "primary_keys db" "consistent s e db"
  shows "primary_keys (fold (deliver_one w ca) xs db) \<and> consistent s e (fold (deliver_one w ca) xs db)"
  using assms
proof (induction xs arbitrary: db)
  case (Cons x xs)
  have "found_order w (deliver_one w ca x db) y" if "y \<in> set xs" for y
  proof (rule found_order_other)
    show "found_order w db y" using Cons.prems(2) that by simp
    show "fst y \<noteq> fst x" using Cons.prems(1) that by (metis distinct.simps(2) image_eqI list.set_map list.simps(9))
  qed
  then have 1: "\<forall>y \<in> set xs. found_order w (deliver_one w ca x db) y" by blast
  have 2: "consistent s e (deliver_one w ca x db)"
    by (rule deliver_one_consistent [OF _ Cons.prems(3,4)]) (use Cons.prems(2) in simp)
  have "distinct (map fst xs)" using Cons.prems(1) by simp
  from Cons.IH [OF this 1 deliver_keys [OF Cons.prems(3)] 2] show ?case by simp
qed simp

lemma delivery_consistent:
  assumes "committed pg_sem (delivery_wf i) db db'" "primary_keys db" "consistent s e db"
  shows "primary_keys db' \<and> consistent s e db'"
proof -
  obtain orders where "distinct (map fst orders)" "\<forall>x \<in> set orders. found_order (de_WarehouseID i) db x"
    "db' = fold (deliver_one (de_WarehouseID i) (de_CarrierID i)) orders db"
    using delivery_committed [OF assms(1)] by blast
  with deliver_all_consistent [OF _ _ assms(2,3)] show ?thesis by blast
qed

end
