(* ===== verification/Pg_Runs.thy ===== *)
theory Pg_Runs
  imports Pg_Consistency_Orders "HOL-Library.Sublist"
begin

text \<open>
  The workflows on the PostgreSQL adapter: a run is atomic, and a database on which
  \<^verbatim>\<open>tpcc-check\<close> reports no failure stays one, whatever transactions run on it.
\<close>

section \<open>Every committed workflow keeps the conditions\<close>

fun workflow_inputs_ok :: "int \<Rightarrow> tx_inputs \<Rightarrow> bool" where
  "workflow_inputs_ok warehouses (NewOrderInputs i) \<longleftrightarrow> new_order_inputs_ok warehouses i"
| "workflow_inputs_ok warehouses _ \<longleftrightarrow> True"

lemma new_order_inputs_size:
  assumes "new_order_inputs_ok wh i"
  shows "int (length (new_order_lines i)) = no_NumItems i" "1 \<le> no_NumItems i"
  using assms by (simp_all add: new_order_inputs_ok_def new_order_lines_def)

lemma workflow_consistent:
  assumes "committed pg_sem (workflow i) db db'" "workflow_inputs_ok wh i" "primary_keys db" "consistent s e db"
  shows "primary_keys db' \<and> consistent s e db'"
proof (cases i)
  case (NewOrderInputs x)
  with assms show ?thesis using new_order_consistent new_order_inputs_size by simp
next
  case (DeliveryInputs x)
  with assms show ?thesis using delivery_consistent by simp
next
  case (OrderStatusInputs x)
  with assms show ?thesis using order_status_committed [of x db db'] by auto
next
  case (PaymentInputs x)
  with assms show ?thesis using payment_consistent by simp
next
  case (StockLevelInputs x)
  with assms show ?thesis using stock_level_committed [of x db db'] by auto
qed

section \<open>Every committed workflow keeps the cardinalities\<close>

text \<open>The tables whose cardinality is checked after a test run only change in columns outside their keys.\<close>

definition static_keys :: "pg_db \<Rightarrow> int list \<times> (int \<times> int) list \<times> (int \<times> int \<times> int) list \<times> int list \<times> (int \<times> int) list" where
  "static_keys db = (map w_id (warehouse db), map d_key (district db), map c_key (customer db), map i_id (item db),
     map s_key (stock db))"

lemma payment_static: "static_keys (payment_effect i row n u data date hdata db) = static_keys db"
  by (simp add: static_keys_def payment_effect_def Let_def map_update_where d_key_def)

lemma new_order_static:
  "map s_key st = map s_key (stock db) \<Longrightarrow> static_keys (new_order_effect i row date st ls db) = static_keys db"
  by (simp add: static_keys_def new_order_fields map_update_where d_key_def)

lemma deliver_static: "static_keys (fold (deliver_one w ca) xs db) = static_keys db"
  by (induction xs arbitrary: db) (simp_all add: static_keys_def deliver_fields map_update_where)

lemma workflow_static:
  assumes c: "committed pg_sem (workflow i) db db'"
  shows "static_keys db' = static_keys db"
proof (cases i)
  case (NewOrderInputs x)
  with c new_order_committed [of x db db'] show ?thesis by (auto simp: new_order_static)
next
  case (DeliveryInputs x)
  with c delivery_committed [of x db db'] show ?thesis by (auto simp: deliver_static)
next
  case (OrderStatusInputs x)
  with c show ?thesis using order_status_committed [of x db db'] by auto
next
  case (PaymentInputs x)
  with c payment_committed [of x db db'] show ?thesis by (auto simp: payment_static)
next
  case (StockLevelInputs x)
  with c show ?thesis using stock_level_committed [of x db db'] by auto
qed

lemma filter_key: "map f (filter (\<lambda>r. P (f r)) t) = filter P (map f t)"
  by (simp add: filter_map comp_def)

lemma customer_cardinality_keys:
  "BaseCheckCustomerTable s e db \<longleftrightarrow>
     (let rows = filter (\<lambda>k. in_range s e (fst k)) (map c_key (customer db)) in
      int (length rows) = (e - s + 1) * CUSTOMERS_PER_DISTRICT * DISTRICT_COUNT \<and>
      min_of (map fst rows) = Some s \<and> max_of (map fst rows) = Some e \<and>
      min_of (map (\<lambda>k. fst (snd k)) rows) = Some DISTRICT_LOW_ID \<and> max_of (map (\<lambda>k. fst (snd k)) rows) = Some DISTRICT_HIGH_ID \<and>
      min_of (map (\<lambda>k. snd (snd k)) rows) = Some 1 \<and> max_of (map (\<lambda>k. snd (snd k)) rows) = Some CUSTOMERS_PER_DISTRICT)"
  by (simp add: BaseCheckCustomerTable_def Let_def filter_map comp_def c_key_def)

lemma stock_cardinality_keys:
  "BaseCheckStockTable s e db \<longleftrightarrow>
     (let rows = filter (\<lambda>k. in_range s e (fst k)) (map s_key (stock db)) in
      int (length rows) = (e - s + 1) * ITEM_COUNT \<and>
      int (length (remdups (map fst rows))) = e - s + 1 \<and>
      min_of (map fst rows) = Some s \<and> max_of (map fst rows) = Some e \<and>
      min_of (map snd rows) = Some 1 \<and> max_of (map snd rows) = Some ITEM_COUNT)"
  by (simp add: BaseCheckStockTable_def Let_def filter_map comp_def s_key_def)

lemma district_cardinality_keys:
  "BaseCheckDistrictTable wh db \<longleftrightarrow>
     int (length (map d_key (district db))) = wh * DISTRICT_COUNT \<and>
     min_of (map fst (map d_key (district db))) = Some 1 \<and> max_of (map fst (map d_key (district db))) = Some wh \<and>
     min_of (map snd (map d_key (district db))) = Some DISTRICT_LOW_ID \<and>
     max_of (map snd (map d_key (district db))) = Some DISTRICT_HIGH_ID"
  by (simp add: BaseCheckDistrictTable_def comp_def d_key_def)

lemma warehouse_cardinality_keys:
  "BaseCheckWarehouseTable wh db \<longleftrightarrow> int (length (map w_id (warehouse db))) = wh \<and>
     min_of (map w_id (warehouse db)) = Some 1 \<and> max_of (map w_id (warehouse db)) = Some wh"
  by (simp add: BaseCheckWarehouseTable_def)

lemma item_cardinality_keys:
  "BaseCheckItemTable db \<longleftrightarrow> int (length (map i_id (item db))) = ITEM_COUNT \<and>
     min_of (map i_id (item db)) = Some 1 \<and> max_of (map i_id (item db)) = Some ITEM_COUNT"
  by (simp add: BaseCheckItemTable_def)

lemma cardinality_static:
  assumes "static_keys db' = static_keys db"
  shows "list_all (job_passes db') (BuildCardinalityJobs wh False) \<longleftrightarrow> list_all (job_passes db) (BuildCardinalityJobs wh False)"
proof -
  have k: "map w_id (warehouse db') = map w_id (warehouse db)" "map d_key (district db') = map d_key (district db)"
    "map c_key (customer db') = map c_key (customer db)" "map i_id (item db') = map i_id (item db)"
    "map s_key (stock db') = map s_key (stock db)"
    using assms by (simp_all add: static_keys_def)
  have "BaseCheckWarehouseTable wh db' = BaseCheckWarehouseTable wh db" "BaseCheckDistrictTable wh db' = BaseCheckDistrictTable wh db"
    "BaseCheckItemTable db' = BaseCheckItemTable db"
    unfolding warehouse_cardinality_keys district_cardinality_keys item_cardinality_keys k by (rule refl)+
  moreover have "BaseCheckCustomerTable s e db' = BaseCheckCustomerTable s e db" "BaseCheckStockTable s e db' = BaseCheckStockTable s e db" for s e
    unfolding customer_cardinality_keys stock_cardinality_keys k by (rule refl)+
  ultimately show ?thesis
    by (simp add: BuildCardinalityJobs_def AddSingleJob_def AddRangedJob_def job_passes_def list_all_iff split_beta)
qed

lemma consistency_jobs:
  assumes "0 < wh"
  shows "list_all (job_passes db) (BuildConsistencyJobs wh False) \<longleftrightarrow>
    (\<forall>(s, e) \<in> set (range_chunks 1 wh kWarehouseCheckRange). consistent s e db)"
proof -
  have "range_chunks 1 wh kWarehouseCheckRange \<noteq> []"
    using assms by (subst range_chunks.simps) (simp add: kWarehouseCheckRange_def)
  then have "\<exists>a b. (a, b) \<in> set (range_chunks 1 wh kWarehouseCheckRange)" by (metis list.set_intros(1) neq_Nil_conv surj_pair)
  then show ?thesis
    by (simp add: BuildConsistencyJobs_def AddSingleJob_def AddRangedJob_def job_passes_def list_all_iff split_beta
        consistent_def ball_conj_distrib)
qed

lemma committed_checks:
  assumes "0 < wh" "committed pg_sem (workflow i) db db'" "workflow_inputs_ok wh i" "primary_keys db"
    "ReportOk (RunPgChecks wh AfterTest db)"
  shows "primary_keys db' \<and> ReportOk (RunPgChecks wh AfterTest db')"
proof -
  have c: "list_all (job_passes db) (BuildCardinalityJobs wh False)"
    "\<forall>(s, e) \<in> set (range_chunks 1 wh kWarehouseCheckRange). consistent s e db"
    using assms(5) consistency_jobs [OF assms(1)] by (simp_all add: ReportOk_iff [OF assms(1)])
  have "(1, min (1 + kWarehouseCheckRange - 1) wh) \<in> set (range_chunks 1 wh kWarehouseCheckRange)"
    using assms(1) by (subst range_chunks.simps) (simp add: kWarehouseCheckRange_def)
  then have "primary_keys db'" using workflow_consistent [OF assms(2-4)] c(2) by blast
  moreover have "\<forall>(s, e) \<in> set (range_chunks 1 wh kWarehouseCheckRange). consistent s e db'"
    using workflow_consistent [OF assms(2-4)] c(2) by blast
  ultimately show ?thesis
    using c(1) cardinality_static [OF workflow_static [OF assms(2)]] consistency_jobs [OF assms(1), of db']
    by (simp add: ReportOk_iff [OF assms(1)])
qed

section \<open>Runs\<close>

text \<open>One transaction: the workflow on a fresh adapter transaction, the answers of the server given by
  the script. The next transaction finds what is on disk.\<close>

definition pg_run :: "tx_inputs \<times> reply list \<Rightarrow> pg_db \<Rightarrow> wleaf \<times> exchange list \<times> pg_db" where
  "pg_run x db = (case run pg_adapter (workflow (fst x)) (pg_Begin db (snd x)) of (l, tr, t) \<Rightarrow> (l, tr, pg_disk t))"

fun pg_runs :: "(tx_inputs \<times> reply list) list \<Rightarrow> pg_db \<Rightarrow> pg_db" where
  "pg_runs [] db = db"
| "pg_runs (x # xs) db = pg_runs xs (snd (snd (pg_run x db)))"

lemma pg_run_cases:
  assumes "pg_run (i, script) db = (l, tr, db')" "no_lost_effect script"
  shows "if l = Success then committed pg_sem (workflow i) db db' \<and> sem_trace pg_sem tr db = Some db' else db' = db"
proof -
  obtain t where r: "run pg_adapter (workflow i) (pg_Begin db script) = (l, tr, t)" and db': "db' = pg_disk t"
    using assms(1) by (auto simp: pg_run_def split: prod.splits)
  have "pg_okay (pg_Begin db script)" "pg_work (pg_Begin db script) = Some db"
    using assms(2) by (simp_all add: pg_okay_def pg_Begin_def view_def)
  from pgtx.disciplined_atomic [OF workflow_disciplined this r]
  have a: "if l = Success then sem_trace pg_sem tr db = Some db' else db' = db"
    by (cases "l = Success") (simp_all add: pgtx.atomic_from_def db' pg_Begin_def)
  then show ?thesis
    using sem_trace_committed [OF workflow_disciplined] r by (cases "l = Success") auto
qed

lemma pg_runs_checks:
  assumes "0 < wh" "\<forall>x \<in> set xs. workflow_inputs_ok wh (fst x) \<and> no_lost_effect (snd x)" "primary_keys db"
    "ReportOk (RunPgChecks wh AfterTest db)"
  shows "primary_keys (pg_runs xs db) \<and> ReportOk (RunPgChecks wh AfterTest (pg_runs xs db))"
  using assms(2-4)
proof (induction xs arbitrary: db)
  case (Cons x xs)
  obtain l tr db' where r: "pg_run (fst x, snd x) db = (l, tr, db')" by (metis surj_pair)
  have ok: "workflow_inputs_ok wh (fst x)" "no_lost_effect (snd x)" using Cons.prems(1) by simp_all
  have "primary_keys db' \<and> ReportOk (RunPgChecks wh AfterTest db')"
    using pg_run_cases [OF r ok(2)] committed_checks [OF assms(1) _ ok(1) Cons.prems(2,3)] Cons.prems(2,3)
    by (cases "l = Success") simp_all
  with Cons.IH [of db'] Cons.prems(1) r show ?case by simp
qed simp

section \<open>Order-Status and the quantity column\<close>

lemma digit_not_point: "all_digits ds \<Longrightarrow> CHR ''.'' \<notin> set ds"
  by (auto simp: list_all_iff is_digit_def)

lemma pqxx_int_point:
  assumes "CHR ''.'' \<in> set s"
  shows "pqxx_int s = None"
proof -
  define t where "t = dropWhile (\<lambda>c. c = CHR '' '' \<or> c = CHR 0x09) s"
  have t: "CHR ''.'' \<in> set t" unfolding t_def using assms by (induction s) auto
  define ds where "ds = (if t \<noteq> [] \<and> hd t = CHR ''-'' then tl t else t)"
  have "CHR ''.'' \<in> set ds"
    using t unfolding ds_def by (cases t) auto
  then have "\<not> all_digits ds" using digit_not_point by blast
  then show ?thesis
    unfolding pqxx_int_def Let_def t_def [symmetric] ds_def [symmetric] by (simp del: all_digits.simps)
qed

lemma quantity_unreadable: "GetInt32_decimal2 q s = (Inl (StdException (''Could not convert '' @ decimal2_text q @
    '' to int: Could not parse full string.'')), s)"
  using pqxx_int_point [of "decimal2_text q"] by (simp add: GetInt32_decimal2_def decimal2_text_def)

lemma order_lines_unreadable:
  assumes "\<exists>l \<in> set (order_line db). ol_order l = (w, d, oid)"
  shows "pg_sem (TGetOrderStatusLines w d oid) db = None"
proof -
  let ?rows = "filter (\<lambda>l. ol_order l = (w, d, oid)) (order_line db)"
  have "?rows \<noteq> []" using assms by (auto simp: filter_empty_conv)
  then obtain l ls where "?rows = l # ls" by (meson neq_Nil_conv)
  then show ?thesis
    by (simp add: pg_sem_def pg_GetOrderStatusLines_def Then_def quantity_unreadable)
qed

lemma ContainsInsensitive_sublist:
  assumes "ContainsInsensitive hay needle"
  shows "sublist (map tolower needle) (map tolower hay)"
proof -
  obtain i where "map tolower (take (length needle) (drop i hay)) = map tolower needle"
    using assms unfolding ContainsInsensitive_def list_ex_iff by blast
  moreover have "sublist (take (length needle) (drop i hay)) hay"
    by (meson sublist_drop sublist_order.order.trans sublist_take)
  ultimately show ?thesis by (metis map_mono_sublist)
qed

lemma in_doubt_lower: "map tolower (what_of InDoubtLost) =
  ''warning: connection lost while committing transaction . there is no way to tell whether ''
      @ ''the transaction succeeded or was aborted except to check manually.''"
  by (simp add: InDoubtLost_def tolower_def char_of_def bit_0)

lemma needles_lower: "map tolower ''serialization'' = ''serialization''" "map tolower ''deadlock'' = ''deadlock''"
  "map tolower ''could not serialize'' = ''could not serialize''"
  by (simp_all add: tolower_def)

lemma needles_absent:
  "\<not> sublist ''serialization'' (map tolower (what_of InDoubtLost))"
  "\<not> sublist ''deadlock'' (map tolower (what_of InDoubtLost))"
  "\<not> sublist ''could not serialize'' (map tolower (what_of InDoubtLost))"
  unfolding in_doubt_lower by (simp_all add: sublist_Cons_right)

lemma in_doubt_message: "ClassifyCommitException InDoubtLost = Permanent"
proof -
  have "\<not> ContainsInsensitive (what_of InDoubtLost) ''serialization''"
    "\<not> ContainsInsensitive (what_of InDoubtLost) ''deadlock''"
    "\<not> ContainsInsensitive (what_of InDoubtLost) ''could not serialize''"
    using needles_absent needles_lower by (metis ContainsInsensitive_sublist)+
  then have "PgClassify [] (what_of InDoubtLost) = Permanent" unfolding PgClassify_def by presburger
  then show ?thesis unfolding ClassifyCommitException_def InDoubtLost_def by simp
qed

text \<open>A database with one district and one line, for examples.\<close>

definition example_db :: pg_db where
  "example_db = \<lparr> warehouse = [], item = [], stock = [],
     district = [\<lparr> d_w_id = 1, d_id = 2, d_ytd = 0, d_tax = 0, d_next_o_id = 2, d_name = [], d_street_1 = [],
       d_street_2 = [], d_city = [], d_state = [], d_zip = [] \<rparr>],
     customer = [], history = [], oorder = [], new_order = [],
     order_line = [\<lparr> ol_w_id = 1, ol_d_id = 2, ol_o_id = 1, ol_number = 1, ol_i_id = 7, ol_delivery_d = None, ol_amount = 5,
       ol_supply_w_id = 1, ol_quantity = 5, ol_dist_info = [] \<rparr>],
     current_timestamp = [], collation_key = id \<rparr>"

section \<open>Properties\<close>



text \<open>C32: a connection lost during COMMIT is reported as a rollback with a permanent error even when the
  server has committed: libpqxx raises \<^verbatim>\<open>in_doubt_error\<close>, which \<^verbatim>\<open>ClassifyCommitException\<close> does not
  recognise, so the outcome is not reported as unknown.\<close>

theorem in_doubt_commit_reported_as_rollback:
  "case pg_Commit \<lparr> tx_Session = \<lparr> ss_disk = d, ss_txn = Some (TxActive w), ss_open = True, ss_broken = False,
       ss_shutdown = False, ss_script = [Lost True] \<rparr>, tx_Terminal = False \<rparr> of
     (c, t') \<Rightarrow> cm_Outcome c = RolledBack \<and> cm_ErrorClass c = Permanent \<and> pg_disk t' = w"
  by (simp add: pg_Commit_def session_Commit_def CheckShutdown_def pqxx_commit_def next_reply_def raise_in_def
      MarkException_def Let_def in_doubt_message)

text \<open>C33: reading the lines of an order for Order-Status fails whenever the order has a line: the quantity
  column is \<^verbatim>\<open>decimal(6,2)\<close>, its text has a fraction, and the conversion to an integer rejects it.\<close>

theorem order_status_lines_unreadable:
  assumes "pg_work t = Some db" "\<exists>l \<in> set (order_line db). ol_order l = (w, d, oid)"
  shows "\<not> or_Ok (fst (pg_Execute (TGetOrderStatusLines w d oid) t))"
proof
  assume ok: "or_Ok (fst (pg_Execute (TGetOrderStatusLines w d oid) t))"
  obtain r t' where e: "pg_Execute (TGetOrderStatusLines w d oid) t = (r, t')" by fastforce
  obtain db' where "pg_sem (TGetOrderStatusLines w d oid) db = Some (r, db')"
    using pg_Execute_sem [OF e _ assms(1)] ok e by auto
  with order_lines_unreadable [OF assms(2)] show False by simp
qed

theorem order_status_lines_unreadable_witness:
  "\<not> or_Ok (fst (pg_Execute (TGetOrderStatusLines 1 2 1) (pg_Begin example_db [])))"
  using order_status_lines_unreadable [of "pg_Begin example_db []" example_db 1 2 1]
  by (simp add: pg_Begin_def view_def example_db_def ol_order_def)

end
