(* ===== verification/Generator.thy ===== *)
theory Generator
  imports Rng "HOL-Library.State_Monad"
begin

text \<open>
  \<^verbatim>\<open>tpcc/generator\<close>: the initial population, each row computed from the seed and its key alone. A
  generator is a computation in the state monad over \<^verbatim>\<open>TSeededRng\<close>; the sub-stream of a row is
  forked from the seed, a table salt and the key. The order in which a C++ compiler evaluates the
  two random operands of \<^verbatim>\<open>+\<close> in \<^verbatim>\<open>RandomDataWithOriginalChance\<close> is not specified; it is the
  argument \<open>left_first\<close>. A last name outside the token table is undefined behaviour, \<^const>\<open>None\<close>.
\<close>

section \<open>Streams\<close>

definition SaltItem :: u64 where "SaltItem = 0x4954454D"
definition SaltWarehouse :: u64 where "SaltWarehouse = 0x57485245"
definition SaltDistrict :: u64 where "SaltDistrict = 0x44535452"
definition SaltCustomer :: u64 where "SaltCustomer = 0x43555354"
definition SaltStock :: u64 where "SaltStock = 0x53544F4B"
definition SaltOrder :: u64 where "SaltOrder = 0x4F524452"
definition SaltHistory :: u64 where "SaltHistory = 0x48535452"
definition SaltNewOrder :: u64 where "SaltNewOrder = 0x4E4F5244"
definition SaltOrderLine :: u64 where "SaltOrderLine = 0x4F4C4E45"
definition SaltTxnInputs :: u64 where "SaltTxnInputs = 0x54584E49"

definition RootRng :: "u64 \<Rightarrow> TSeededRng" where
  "RootRng seed = TFastRng_seed seed"

definition TableRng :: "u64 \<Rightarrow> u64 \<Rightarrow> TSeededRng" where
  "TableRng seed tableSalt = Fork (RootRng seed) tableSalt"

definition WarehouseRng :: "u64 \<Rightarrow> u64 \<Rightarrow> int \<Rightarrow> TSeededRng" where
  "WarehouseRng seed tableSalt warehouseId = Fork (TableRng seed tableSalt) (of_int warehouseId)"

definition DistrictRng :: "u64 \<Rightarrow> u64 \<Rightarrow> int \<Rightarrow> int \<Rightarrow> TSeededRng" where
  "DistrictRng seed tableSalt warehouseId districtId = Fork (WarehouseRng seed tableSalt warehouseId) (of_int districtId)"

section \<open>Draws\<close>

type_synonym 'a gen = "(TSeededRng, 'a) state"

definition to_int64 :: "u64 \<Rightarrow> int" where
  "to_int64 w = signed_take_bit 63 (uint w)"

text \<open>\<^verbatim>\<open>static_cast<int>\<close> and \<^verbatim>\<open>static_cast<int64_t>\<close> of \<^verbatim>\<open>RandomNumber\<close>.\<close>

definition draw :: "int \<Rightarrow> int \<Rightarrow> int gen" where
  "draw lo hi = State (\<lambda>rng. RandomInt rng lo hi)"

definition draw64 :: "int \<Rightarrow> int \<Rightarrow> int gen" where
  "draw64 lo hi = State (\<lambda>rng. case RandomNumber rng (of_int lo) (of_int hi) of (n, rng') \<Rightarrow> (to_int64 n, rng'))"

definition generate :: "TSeededRng \<Rightarrow> 'a gen \<Rightarrow> 'a" where
  "generate rng g = fst (run_state g rng)"

section \<open>Strings\<close>

text \<open>The loops that append \<open>n\<close> random characters from \<open>base\<close> to \<open>base + hi\<close>.\<close>

primrec random_chars :: "nat \<Rightarrow> char \<Rightarrow> int \<Rightarrow> string gen" where
  "random_chars 0 base hi = State_Monad.return []"
| "random_chars (Suc n) base hi = do {
     k \<leftarrow> draw 0 hi;
     cs \<leftarrow> random_chars n base hi;
     State_Monad.return (char_of (of_char base + nat k) # cs) }"

definition RandomAString :: "int \<Rightarrow> char \<Rightarrow> string gen" where
  "RandomAString len base = (if len \<le> 0 then State_Monad.return [] else random_chars (nat len) base 25)"

definition RandomAString_between :: "int \<Rightarrow> int \<Rightarrow> char \<Rightarrow> string gen" where
  "RandomAString_between minLength maxLength base = do {
     len \<leftarrow> draw minLength maxLength;
     RandomAString len base }"

definition RandomNumericString :: "int \<Rightarrow> string gen" where
  "RandomNumericString len = random_chars (nat len) CHR ''0'' 9"

definition RandomDataWithOriginalChance :: "bool \<Rightarrow> int \<Rightarrow> int \<Rightarrow> int \<Rightarrow> string gen" where
  "RandomDataWithOriginalChance left_first minLen maxLen originalPercent = do {
     len \<leftarrow> draw minLen maxLen;
     randPct \<leftarrow> draw 1 100;
     if randPct > originalPercent then RandomAString len CHR ''a''
     else do {
       startOrig \<leftarrow> draw 0 (len - 8);
       if left_first then do {
         l \<leftarrow> RandomAString startOrig CHR ''a'';
         r \<leftarrow> RandomAString (len - startOrig - 8) CHR ''a'';
         State_Monad.return (l @ ''ORIGINAL'' @ r) }
       else do {
         r \<leftarrow> RandomAString (len - startOrig - 8) CHR ''a'';
         l \<leftarrow> RandomAString startOrig CHR ''a'';
         State_Monad.return (l @ ''ORIGINAL'' @ r) } } }"

section \<open>Rows\<close>

record GItemRow =
  gi_Id :: int
  gi_Name :: string
  gi_Price :: TMoney
  gi_Data :: string
  gi_ImageId :: int

record GWarehouseRow =
  gw_Id :: int
  gw_Ytd :: TMoney
  gw_Tax :: TRate
  gw_Name :: string
  gw_Street1 :: string
  gw_Street2 :: string
  gw_City :: string
  gw_State :: string
  gw_Zip :: string

record GDistrictRow =
  gd_WarehouseId :: int
  gd_Id :: int
  gd_Ytd :: TMoney
  gd_Tax :: TRate
  gd_NextOrderId :: int
  gd_Name :: string
  gd_Street1 :: string
  gd_Street2 :: string
  gd_City :: string
  gd_State :: string
  gd_Zip :: string

record GStockRow =
  gs_WarehouseId :: int
  gs_ItemId :: int
  gs_Quantity :: int
  gs_Ytd :: TMoney
  gs_OrderCount :: int
  gs_RemoteCount :: int
  gs_Data :: string
  gs_Dist :: "string list"

record GCustomerRow =
  gc_WarehouseId :: int
  gc_DistrictId :: int
  gc_Id :: int
  gc_First :: string
  gc_Middle :: string
  gc_Last :: string
  gc_Street1 :: string
  gc_Street2 :: string
  gc_City :: string
  gc_State :: string
  gc_Zip :: string
  gc_Phone :: string
  gc_SinceUnix :: int
  gc_Credit :: string
  gc_CreditLimit :: TMoney
  gc_Discount :: TRate
  gc_Balance :: TMoney
  gc_YtdPayment :: TMoney
  gc_PaymentCount :: int
  gc_DeliveryCount :: int
  gc_Data :: string

record GHistoryRow =
  gh_CustomerId :: int
  gh_CustomerDistrictId :: int
  gh_CustomerWarehouseId :: int
  gh_DistrictId :: int
  gh_WarehouseId :: int
  gh_DateUnix :: int
  gh_Amount :: TMoney
  gh_Data :: string

record GOrderRow =
  go_WarehouseId :: int
  go_DistrictId :: int
  go_Id :: int
  go_CustomerId :: int
  go_CarrierId :: "int option"
  go_OlCnt :: int
  go_AllLocal :: int
  go_EntryUnix :: int

record GNewOrderRow =
  gn_WarehouseId :: int
  gn_DistrictId :: int
  gn_OrderId :: int

record GOrderLineRow =
  gl_WarehouseId :: int
  gl_DistrictId :: int
  gl_OrderId :: int
  gl_Number :: int
  gl_ItemId :: int
  gl_SupplyWarehouseId :: int
  gl_DeliveryUnix :: "int option"
  gl_Quantity :: int
  gl_Amount :: TMoney
  gl_DistInfo :: string

section \<open>Generation\<close>

definition RandomTax :: "TRate gen" where
  "RandomTax = do { n \<leftarrow> draw64 0 2000; State_Monad.return (TRate n) }"

definition RandomDiscount :: "TRate gen" where
  "RandomDiscount = do { n \<leftarrow> draw64 0 5000; State_Monad.return (TRate n) }"

definition LoadEpochUnix :: int where
  "LoadEpochUnix = 1577836800"

definition LoadTimestampUnix :: "u64 \<Rightarrow> u64 \<Rightarrow> int" where
  "LoadTimestampUnix seed salt =
     LoadEpochUnix + generate (Fork (RootRng seed) (salt XOR 0x54494D45)) (draw64 0 (7 * 24 * 3600))"

definition GenerateItem :: "bool \<Rightarrow> u64 \<Rightarrow> int \<Rightarrow> GItemRow" where
  "GenerateItem left_first seed itemId =
     generate (Fork (TableRng seed SaltItem) (of_int itemId)) (do {
       name \<leftarrow> RandomAString_between 14 24 CHR ''a'';
       price \<leftarrow> draw64 100 10000;
       data \<leftarrow> RandomDataWithOriginalChance left_first 26 50 10;
       imageId \<leftarrow> draw 1 10000;
       State_Monad.return \<lparr> gi_Id = itemId, gi_Name = name, gi_Price = TMoney price, gi_Data = data, gi_ImageId = imageId \<rparr> })"

definition GenerateWarehouse :: "u64 \<Rightarrow> int \<Rightarrow> GWarehouseRow" where
  "GenerateWarehouse seed warehouseId =
     generate (WarehouseRng seed SaltWarehouse warehouseId) (do {
       tax \<leftarrow> RandomTax;
       name \<leftarrow> RandomAString_between 6 10 CHR ''a'';
       street1 \<leftarrow> RandomAString_between 10 20 CHR ''a'';
       street2 \<leftarrow> RandomAString_between 10 20 CHR ''a'';
       city \<leftarrow> RandomAString_between 10 20 CHR ''a'';
       state \<leftarrow> RandomAString_between 2 2 CHR ''A'';
       zip' \<leftarrow> RandomNumericString 4;
       State_Monad.return \<lparr> gw_Id = warehouseId, gw_Ytd = WAREHOUSE_INITIAL_YTD, gw_Tax = tax, gw_Name = name,
         gw_Street1 = street1, gw_Street2 = street2, gw_City = city, gw_State = state, gw_Zip = zip' @ ''11111'' \<rparr> })"

definition GenerateDistrict :: "u64 \<Rightarrow> int \<Rightarrow> int \<Rightarrow> GDistrictRow" where
  "GenerateDistrict seed warehouseId districtId =
     generate (DistrictRng seed SaltDistrict warehouseId districtId) (do {
       tax \<leftarrow> RandomTax;
       name \<leftarrow> RandomAString_between 6 10 CHR ''a'';
       street1 \<leftarrow> RandomAString_between 10 20 CHR ''a'';
       street2 \<leftarrow> RandomAString_between 10 20 CHR ''a'';
       city \<leftarrow> RandomAString_between 10 20 CHR ''a'';
       state \<leftarrow> RandomAString_between 2 2 CHR ''A'';
       zip' \<leftarrow> RandomNumericString 4;
       State_Monad.return \<lparr> gd_WarehouseId = warehouseId, gd_Id = districtId, gd_Ytd = DISTRICT_INITIAL_YTD, gd_Tax = tax,
         gd_NextOrderId = CUSTOMERS_PER_DISTRICT + 1, gd_Name = name, gd_Street1 = street1, gd_Street2 = street2,
         gd_City = city, gd_State = state, gd_Zip = zip' @ ''11111'' \<rparr> })"

definition GenerateStock :: "bool \<Rightarrow> u64 \<Rightarrow> int \<Rightarrow> int \<Rightarrow> GStockRow" where
  "GenerateStock left_first seed warehouseId itemId =
     generate (Fork (WarehouseRng seed SaltStock warehouseId) (of_int itemId)) (do {
       quantity \<leftarrow> draw 10 100;
       data \<leftarrow> RandomDataWithOriginalChance left_first 26 50 10;
       dist \<leftarrow> traverse_list (\<lambda>i. RandomAString 24 CHR ''a'') [0..<nat DISTRICT_COUNT];
       State_Monad.return \<lparr> gs_WarehouseId = warehouseId, gs_ItemId = itemId, gs_Quantity = quantity, gs_Ytd = TMoney 0,
         gs_OrderCount = 0, gs_RemoteCount = 0, gs_Data = data, gs_Dist = dist \<rparr> })"

text \<open>The salt of the timestamp of a row with a three-part key.\<close>

definition key_salt :: "u64 \<Rightarrow> int \<Rightarrow> int \<Rightarrow> int \<Rightarrow> u64" where
  "key_salt salt warehouseId districtId k =
     salt XOR push_bit 32 (of_int warehouseId) XOR push_bit 16 (of_int districtId) XOR of_int k"

definition GenerateCustomer :: "u64 \<Rightarrow> int \<Rightarrow> int \<Rightarrow> int \<Rightarrow> GCustomerRow option" where
  "GenerateCustomer seed warehouseId districtId customerId =
     generate (Fork (DistrictRng seed SaltCustomer warehouseId districtId) (of_int customerId)) (do {
       first \<leftarrow> RandomAString_between 8 16 CHR ''a'';
       last \<leftarrow> (if customerId \<le> 1000 then State_Monad.return (GetLastName (customerId - 1))
                else State GetNonUniformRandomLastNameForLoad);
       street1 \<leftarrow> RandomAString_between 10 20 CHR ''a'';
       street2 \<leftarrow> RandomAString_between 10 20 CHR ''a'';
       city \<leftarrow> RandomAString_between 10 20 CHR ''a'';
       state \<leftarrow> RandomAString_between 2 2 CHR ''A'';
       zip' \<leftarrow> RandomNumericString 4;
       phone \<leftarrow> RandomNumericString 16;
       credit \<leftarrow> draw 1 100;
       discount \<leftarrow> RandomDiscount;
       data \<leftarrow> RandomAString_between 300 500 CHR ''a'';
       State_Monad.return (map_option (\<lambda>l.
         \<lparr> gc_WarehouseId = warehouseId, gc_DistrictId = districtId, gc_Id = customerId, gc_First = first,
           gc_Middle = ''OE'', gc_Last = l, gc_Street1 = street1, gc_Street2 = street2, gc_City = city, gc_State = state,
           gc_Zip = zip' @ ''11111'', gc_Phone = phone,
           gc_SinceUnix = LoadTimestampUnix seed (key_salt SaltCustomer warehouseId districtId customerId),
           gc_Credit = (if credit \<le> 10 then ''BC'' else ''GC''), gc_CreditLimit = CUSTOMER_INITIAL_CREDIT_LIMIT,
           gc_Discount = discount, gc_Balance = CUSTOMER_INITIAL_BALANCE, gc_YtdPayment = CUSTOMER_INITIAL_YTD_PAYMENT,
           gc_PaymentCount = 1, gc_DeliveryCount = 0, gc_Data = data \<rparr>) last) })"

definition GenerateHistory :: "u64 \<Rightarrow> int \<Rightarrow> int \<Rightarrow> int \<Rightarrow> GHistoryRow" where
  "GenerateHistory seed warehouseId districtId customerId =
     generate (Fork (DistrictRng seed SaltHistory warehouseId districtId) (of_int customerId)) (do {
       data \<leftarrow> RandomAString_between 12 24 CHR ''a'';
       State_Monad.return \<lparr> gh_CustomerId = customerId, gh_CustomerDistrictId = districtId, gh_CustomerWarehouseId = warehouseId,
         gh_DistrictId = districtId, gh_WarehouseId = warehouseId,
         gh_DateUnix = LoadTimestampUnix seed (key_salt SaltHistory warehouseId districtId customerId),
         gh_Amount = CUSTOMER_INITIAL_YTD_PAYMENT, gh_Data = data \<rparr> })"

definition GenerateOrderLineCount :: "u64 \<Rightarrow> int \<Rightarrow> int \<Rightarrow> int \<Rightarrow> int" where
  "GenerateOrderLineCount seed warehouseId districtId customerId =
     generate (Fork (DistrictRng seed SaltOrderLine warehouseId districtId) (of_int customerId)) (draw MIN_ITEMS MAX_ITEMS)"

text \<open>The loop of the Fisher-Yates shuffle, from index \<open>i\<close> down to 1.\<close>

primrec shuffle_from :: "nat \<Rightarrow> int list \<Rightarrow> int list gen" where
  "shuffle_from 0 ids = State_Monad.return ids"
| "shuffle_from (Suc i) ids = do {
     j \<leftarrow> draw 0 (int (Suc i));
     shuffle_from i (ids[Suc i := ids ! nat j, nat j := ids ! Suc i]) }"

definition InitialOrderCustomerPermutation :: "u64 \<Rightarrow> int \<Rightarrow> int \<Rightarrow> int list" where
  "InitialOrderCustomerPermutation seed warehouseId districtId =
     generate (DistrictRng seed SaltOrder warehouseId districtId)
       (shuffle_from (nat (CUSTOMERS_PER_DISTRICT - 1)) [1..CUSTOMERS_PER_DISTRICT])"

definition GenerateOrder :: "u64 \<Rightarrow> int \<Rightarrow> int \<Rightarrow> int \<Rightarrow> int \<Rightarrow> GOrderRow" where
  "GenerateOrder seed warehouseId districtId orderId customerId =
     generate (Fork (DistrictRng seed SaltOrder warehouseId districtId) (of_int orderId)) (do {
       carrier \<leftarrow> (if orderId < FIRST_UNPROCESSED_O_ID
         then do { c \<leftarrow> draw 1 10; State_Monad.return (Some c) } else State_Monad.return None);
       State_Monad.return \<lparr> go_WarehouseId = warehouseId, go_DistrictId = districtId, go_Id = orderId, go_CustomerId = customerId,
         go_CarrierId = carrier, go_OlCnt = GenerateOrderLineCount seed warehouseId districtId customerId,
         go_AllLocal = 1, go_EntryUnix = LoadTimestampUnix seed (key_salt SaltOrder warehouseId districtId orderId) \<rparr> })"

definition GenerateNewOrder :: "int \<Rightarrow> int \<Rightarrow> int \<Rightarrow> GNewOrderRow" where
  "GenerateNewOrder warehouseId districtId orderId =
     \<lparr> gn_WarehouseId = warehouseId, gn_DistrictId = districtId, gn_OrderId = orderId \<rparr>"

definition order_line_gen :: "int \<Rightarrow> int \<Rightarrow> int \<Rightarrow> int option \<Rightarrow> int \<Rightarrow> GOrderLineRow gen" where
  "order_line_gen warehouseId districtId orderId deliveryUnix ol = do {
     itemId \<leftarrow> draw 1 ITEM_COUNT;
     amount \<leftarrow> (if deliveryUnix \<noteq> None then State_Monad.return 0 else draw64 1 999999);
     distInfo \<leftarrow> RandomAString 24 CHR ''a'';
     State_Monad.return \<lparr> gl_WarehouseId = warehouseId, gl_DistrictId = districtId, gl_OrderId = orderId, gl_Number = ol,
       gl_ItemId = itemId, gl_SupplyWarehouseId = warehouseId, gl_DeliveryUnix = deliveryUnix, gl_Quantity = 5,
       gl_Amount = TMoney amount, gl_DistInfo = distInfo \<rparr> }"

definition GenerateOrderLines :: "u64 \<Rightarrow> int \<Rightarrow> int \<Rightarrow> int \<Rightarrow> int \<Rightarrow> int option \<Rightarrow> GOrderLineRow list" where
  "GenerateOrderLines seed warehouseId districtId orderId olCnt deliveryUnix =
     generate (Fork (DistrictRng seed SaltOrderLine warehouseId districtId) (of_int orderId))
       (traverse_list (order_line_gen warehouseId districtId orderId deliveryUnix) [1..olCnt])"

section \<open>Facts about generated values\<close>

lemma generate_return [simp]: "generate rng (State_Monad.return x) = x"
  by (simp add: generate_def)

lemma generate_bind [simp]:
  "generate rng (State_Monad.bind g f) = generate (snd (run_state g rng)) (f (generate rng g))"
  by (simp add: generate_def split_beta)

lemma generate_pred: "pred_state P g \<Longrightarrow> P (generate rng g)"
  unfolding generate_def by (rule pred_state_run_state)

named_theorems gen_intros \<open>bounds of generated values\<close>

lemma pred_state_conv: "pred_state P g \<longleftrightarrow> (\<forall>rng. P (generate rng g))"
proof
  assume "pred_state P g"
  then show "\<forall>rng. P (generate rng g)" using generate_pred by blast
next
  assume a: "\<forall>rng. P (generate rng g)"
  show "pred_state P g"
  proof (rule pred_stateI)
    fix x rng rng' assume "run_state g rng = (x, rng')"
    with a show "P x" by (metis fst_conv generate_def)
  qed
qed

lemma generate_draw [gen_intros]:
  assumes "0 \<le> lo" "lo \<le> hi" "hi < 2 ^ 31"
  shows "lo \<le> generate rng (draw lo hi) \<and> generate rng (draw lo hi) \<le> hi"
  using RandomInt_bounds [OF assms] by (simp add: generate_def draw_def)

lemma to_int64_eq: "uint w < 2 ^ 63 \<Longrightarrow> to_int64 w = uint w"
  unfolding to_int64_def by (rule signed_take_bit_int_eq_self) (use uint_ge_0 [of w] in linarith)+

lemma generate_draw64 [gen_intros]:
  assumes "0 \<le> lo" "lo \<le> hi" "hi < 2 ^ 31"
  shows "lo \<le> generate rng (draw64 lo hi) \<and> generate rng (draw64 lo hi) \<le> hi"
proof -
  obtain n rng' where r: "RandomNumber rng (of_int lo) (of_int hi) = (n, rng')" by fastforce
  have u: "uint (of_int lo :: u64) = lo" "uint (of_int hi :: u64) = hi"
    using assms by (auto intro: uint_of_int_u64)
  then have "(of_int lo :: u64) \<le> of_int hi" using assms by (simp add: word_le_def)
  from RandomNumber_bounds [OF this, of rng] have "lo \<le> uint n" "uint n \<le> hi"
    using u r by (simp_all add: word_le_def)
  then show ?thesis using r assms(3) by (simp add: generate_def draw64_def to_int64_eq)
qed

lemma length_random_chars: "length (generate rng (random_chars n base hi)) = n"
  by (induction n arbitrary: rng) simp_all

lemma length_RandomAString: "length (generate rng (RandomAString len base)) = nat len"
  by (simp add: RandomAString_def length_random_chars)

lemma length_RandomAString_between:
  assumes "0 \<le> lo" "lo \<le> hi" "hi < 2 ^ 31"
  shows "nat lo \<le> length (generate rng (RandomAString_between lo hi base)) \<and>
    length (generate rng (RandomAString_between lo hi base)) \<le> nat hi"
  using generate_draw [OF assms, of rng] by (simp add: RandomAString_between_def length_RandomAString nat_mono)

lemma length_RandomNumericString: "length (generate rng (RandomNumericString len)) = nat len"
  by (simp add: RandomNumericString_def length_random_chars)

lemma length_RandomDataWithOriginalChance:
  assumes "8 \<le> lo" "lo \<le> hi" "hi < 2 ^ 31"
  shows "nat lo \<le> length (generate rng (RandomDataWithOriginalChance lf lo hi pct)) \<and>
    length (generate rng (RandomDataWithOriginalChance lf lo hi pct)) \<le> nat hi"
proof -
  let ?len = "generate rng (draw lo hi)" and ?r1 = "snd (run_state (draw lo hi) rng)"
  let ?r2 = "snd (run_state (draw 1 100) ?r1)"
  have len: "lo \<le> ?len \<and> ?len \<le> hi" using generate_draw [of lo hi rng] assms by simp
  have st: "0 \<le> generate ?r2 (draw 0 (?len - 8)) \<and> generate ?r2 (draw 0 (?len - 8)) \<le> ?len - 8"
    using generate_draw [of 0 "?len - 8" ?r2] len assms by simp
  have "length (generate rng (RandomDataWithOriginalChance lf lo hi pct)) = nat ?len"
    using st len assms by (auto simp: RandomDataWithOriginalChance_def length_RandomAString nat_diff_distrib Let_def)
  with len show ?thesis by (simp add: nat_mono)
qed

lemma traverse_list_generate:
  "list_all2 (\<lambda>x y. \<exists>r. y = generate r (f x)) xs (generate rng (traverse_list f xs))"
  by (induction xs arbitrary: rng) auto

lemma traverse_list_map:
  assumes "\<And>x r. h (generate r (f x)) = k x"
  shows "map h (generate rng (traverse_list f xs)) = map k xs"
  using assms by (induction xs arbitrary: rng) simp_all

lemma traverse_list_all:
  assumes "\<And>x r. P (generate r (f x))" "y \<in> set (generate rng (traverse_list f xs))"
  shows "P y"
  using assms(2) by (induction xs arbitrary: rng) (auto simp: assms(1))

section \<open>Generated rows\<close>

lemma LoadTimestampUnix_bounds:
  "LoadEpochUnix \<le> LoadTimestampUnix seed salt \<and> LoadTimestampUnix seed salt \<le> LoadEpochUnix + 604800"
  using generate_draw64 [of 0 604800] by (simp add: LoadTimestampUnix_def)

lemma GenerateItem_fields [simp]: "gi_Id (GenerateItem lf seed i) = i"
  by (simp add: GenerateItem_def)

lemma GenerateWarehouse_fields [simp]:
  "gw_Id (GenerateWarehouse seed w) = w" "gw_Ytd (GenerateWarehouse seed w) = WAREHOUSE_INITIAL_YTD"
  by (simp_all add: GenerateWarehouse_def)

lemma GenerateDistrict_fields [simp]:
  "gd_WarehouseId (GenerateDistrict seed w d) = w" "gd_Id (GenerateDistrict seed w d) = d"
  "gd_Ytd (GenerateDistrict seed w d) = DISTRICT_INITIAL_YTD"
  "gd_NextOrderId (GenerateDistrict seed w d) = CUSTOMERS_PER_DISTRICT + 1"
  by (simp_all add: GenerateDistrict_def)

lemma GenerateStock_fields [simp]:
  "gs_WarehouseId (GenerateStock lf seed w i) = w" "gs_ItemId (GenerateStock lf seed w i) = i"
  by (simp_all add: GenerateStock_def)

lemma GenerateHistory_fields [simp]:
  "gh_CustomerId (GenerateHistory seed w d c) = c" "gh_CustomerDistrictId (GenerateHistory seed w d c) = d"
  "gh_CustomerWarehouseId (GenerateHistory seed w d c) = w" "gh_DistrictId (GenerateHistory seed w d c) = d"
  "gh_WarehouseId (GenerateHistory seed w d c) = w" "gh_Amount (GenerateHistory seed w d c) = CUSTOMER_INITIAL_YTD_PAYMENT"
  by (simp_all add: GenerateHistory_def)

lemma GenerateOrderLineCount_bounds:
  "5 \<le> GenerateOrderLineCount seed w d c \<and> GenerateOrderLineCount seed w d c \<le> 15"
  using generate_draw [of 5 15] by (simp add: GenerateOrderLineCount_def MIN_ITEMS_def MAX_ITEMS_def)

lemma GenerateOrder_fields [simp]:
  "go_WarehouseId (GenerateOrder seed w d i c) = w" "go_DistrictId (GenerateOrder seed w d i c) = d"
  "go_Id (GenerateOrder seed w d i c) = i" "go_CustomerId (GenerateOrder seed w d i c) = c"
  "go_OlCnt (GenerateOrder seed w d i c) = GenerateOrderLineCount seed w d c"
  "go_CarrierId (GenerateOrder seed w d i c) = None \<longleftrightarrow> FIRST_UNPROCESSED_O_ID \<le> i"
  by (simp_all add: GenerateOrder_def)

lemma GenerateOrder_carrier: "go_CarrierId (GenerateOrder seed w d i c) = Some k \<Longrightarrow> 1 \<le> k \<and> k \<le> 10"
  using generate_draw [of 1 10] by (auto simp: GenerateOrder_def split: if_splits)

lemma order_line_fields [simp]:
  "gl_WarehouseId (generate rng (order_line_gen w d i t ol)) = w" "gl_DistrictId (generate rng (order_line_gen w d i t ol)) = d"
  "gl_OrderId (generate rng (order_line_gen w d i t ol)) = i" "gl_Number (generate rng (order_line_gen w d i t ol)) = ol"
  "gl_DeliveryUnix (generate rng (order_line_gen w d i t ol)) = t"
  "gl_Quantity (generate rng (order_line_gen w d i t ol)) = 5"
  "t \<noteq> None \<Longrightarrow> gl_Amount (generate rng (order_line_gen w d i t ol)) = TMoney 0"
  by (auto simp: order_line_gen_def)

lemma GenerateOrderLines_fields:
  assumes "l \<in> set (GenerateOrderLines seed w d i n t)"
  shows "gl_WarehouseId l = w" "gl_DistrictId l = d" "gl_OrderId l = i" "gl_DeliveryUnix l = t" "gl_Quantity l = 5"
    "t \<noteq> None \<Longrightarrow> gl_Amount l = TMoney 0"
  by (rule traverse_list_all [OF _ assms [unfolded GenerateOrderLines_def]]; simp)+

lemma GenerateOrderLines_numbers: "map gl_Number (GenerateOrderLines seed w d i n t) = [1..n]"
  unfolding GenerateOrderLines_def by (subst traverse_list_map [where k = id]) simp_all

lemma length_GenerateOrderLines: "length (GenerateOrderLines seed w d i n t) = nat n"
  using arg_cong [OF GenerateOrderLines_numbers, of length] by simp

lemma GenerateCustomer_total:
  assumes "1 \<le> c"
  shows "\<exists>row. GenerateCustomer seed w d c = Some row \<and> gc_WarehouseId row = w \<and> gc_DistrictId row = d \<and> gc_Id row = c \<and>
    gc_Balance row = CUSTOMER_INITIAL_BALANCE \<and> gc_YtdPayment row = CUSTOMER_INITIAL_YTD_PAYMENT"
proof (cases "c \<le> 1000")
  case True
  then obtain n where "GetLastName (c - 1) = Some n" using GetLastName_total [of "c - 1"] assms by auto
  with True show ?thesis by (simp add: GenerateCustomer_def)
next
  case False
  have "\<exists>n. fst (GetNonUniformRandomLastNameForLoad r) = Some n" for r
    using NonUniformRandom_bounds [of 255 C_LAST_LOAD_C 0 999 r]
    by (auto simp: GetNonUniformRandomLastNameForLoad_def C_LAST_LOAD_C_def split_beta intro!: GetLastName_total)
  then have "\<exists>n. generate r (State GetNonUniformRandomLastNameForLoad) = Some n" for r
    by (simp add: generate_def)
  then obtain n where "generate (snd (run_state (RandomAString_between 8 16 CHR ''a'')
      (Fork (DistrictRng seed SaltCustomer w d) (of_int c)))) (State GetNonUniformRandomLastNameForLoad) = Some n"
    by blast
  with False show ?thesis by (simp add: GenerateCustomer_def)
qed

section \<open>The initial permutation of customers\<close>

lemma shuffle_from_mset:
  "i < length ids \<Longrightarrow> length ids < 2 ^ 31 \<Longrightarrow> mset (generate rng (shuffle_from i ids)) = mset ids"
proof (induction i arbitrary: ids rng)
  case (Suc i)
  let ?j = "generate rng (draw 0 (int (Suc i)))"
  have "0 \<le> ?j \<and> ?j \<le> int (Suc i)" using generate_draw [of 0 "int (Suc i)" rng] Suc.prems by simp
  then have j: "nat ?j < length ids" using Suc.prems by linarith
  have "mset (ids[Suc i := ids ! nat ?j, nat ?j := ids ! Suc i]) = mset ids"
    using mset_swap [OF j Suc.prems(1)] by simp
  with Suc.IH [of "ids[Suc i := ids ! nat ?j, nat ?j := ids ! Suc i]"] Suc.prems show ?case by simp
qed simp

lemma permutation_mset: "mset (InitialOrderCustomerPermutation seed w d) = mset [1..3000]"
  using shuffle_from_mset [of 2999 "[1..3000]"]
  by (simp add: InitialOrderCustomerPermutation_def CUSTOMERS_PER_DISTRICT_def)

lemma permutation_facts:
  "length (InitialOrderCustomerPermutation seed w d) = 3000"
  "set (InitialOrderCustomerPermutation seed w d) = {1..3000}"
  "distinct (InitialOrderCustomerPermutation seed w d)"
proof -
  show "length (InitialOrderCustomerPermutation seed w d) = 3000"
    using arg_cong [OF permutation_mset, of size] by simp
  show "set (InitialOrderCustomerPermutation seed w d) = {1..3000}"
    using arg_cong [OF permutation_mset, of set_mset] by simp
  show "distinct (InitialOrderCustomerPermutation seed w d)"
    using mset_eq_imp_distinct_iff [OF permutation_mset] by simp
qed

section \<open>Generated rows fit the columns\<close>

lemma bounds_at [simp]:
  "length (generate rng (RandomAString_between 2 2 b)) = 2"
  "length (generate rng (RandomAString_between 6 10 b)) \<le> 10"
  "length (generate rng (RandomAString_between 8 16 b)) \<le> 16"
  "length (generate rng (RandomAString_between 10 20 b)) \<le> 20"
  "length (generate rng (RandomAString_between 12 24 b)) \<le> 24"
  "length (generate rng (RandomAString_between 14 24 b)) \<le> 24"
  "length (generate rng (RandomAString_between 300 500 b)) \<le> 500"
  "length (generate rng (RandomDataWithOriginalChance lf 26 50 10)) \<le> 50"
  using length_RandomAString_between [of 2 2 rng b] length_RandomAString_between [of 6 10 rng b]
    length_RandomAString_between [of 8 16 rng b] length_RandomAString_between [of 10 20 rng b]
    length_RandomAString_between [of 12 24 rng b] length_RandomAString_between [of 14 24 rng b]
    length_RandomAString_between [of 300 500 rng b] length_RandomDataWithOriginalChance [of 26 50 rng lf 10]
  by auto

lemma rate_bounds:
  "0 \<le> RateUnits (generate rng RandomTax) \<and> RateUnits (generate rng RandomTax) \<le> 2000"
  "0 \<le> RateUnits (generate rng RandomDiscount) \<and> RateUnits (generate rng RandomDiscount) \<le> 5000"
  using generate_draw64 [of 0 2000 rng] generate_draw64 [of 0 5000 rng] by (simp_all add: RandomTax_def RandomDiscount_def)

lemma item_columns:
  "length (gi_Name (GenerateItem lf seed i)) \<le> 24 \<and> length (gi_Data (GenerateItem lf seed i)) \<le> 50 \<and>
   100 \<le> MoneyUnits (gi_Price (GenerateItem lf seed i)) \<and> MoneyUnits (gi_Price (GenerateItem lf seed i)) \<le> 10000"
  using generate_draw64 [of 100 10000] by (simp add: GenerateItem_def)

lemma warehouse_columns:
  "length (gw_Name (GenerateWarehouse seed w)) \<le> 10 \<and> length (gw_Street1 (GenerateWarehouse seed w)) \<le> 20 \<and>
   length (gw_Street2 (GenerateWarehouse seed w)) \<le> 20 \<and> length (gw_City (GenerateWarehouse seed w)) \<le> 20 \<and>
   length (gw_State (GenerateWarehouse seed w)) = 2 \<and> length (gw_Zip (GenerateWarehouse seed w)) = 9 \<and>
   0 \<le> RateUnits (gw_Tax (GenerateWarehouse seed w)) \<and> RateUnits (gw_Tax (GenerateWarehouse seed w)) \<le> 2000"
  using rate_bounds by (simp add: GenerateWarehouse_def length_RandomNumericString)

lemma district_columns:
  "length (gd_Name (GenerateDistrict seed w d)) \<le> 10 \<and> length (gd_Street1 (GenerateDistrict seed w d)) \<le> 20 \<and>
   length (gd_Street2 (GenerateDistrict seed w d)) \<le> 20 \<and> length (gd_City (GenerateDistrict seed w d)) \<le> 20 \<and>
   length (gd_State (GenerateDistrict seed w d)) = 2 \<and> length (gd_Zip (GenerateDistrict seed w d)) = 9 \<and>
   0 \<le> RateUnits (gd_Tax (GenerateDistrict seed w d)) \<and> RateUnits (gd_Tax (GenerateDistrict seed w d)) \<le> 2000"
  using rate_bounds by (simp add: GenerateDistrict_def length_RandomNumericString)

lemma stock_columns:
  "10 \<le> gs_Quantity (GenerateStock lf seed w i) \<and> gs_Quantity (GenerateStock lf seed w i) \<le> 100 \<and>
   length (gs_Data (GenerateStock lf seed w i)) \<le> 50 \<and>
   map length (gs_Dist (GenerateStock lf seed w i)) = replicate 10 24"
proof -
  have "map length (generate r (traverse_list (\<lambda>i. RandomAString 24 CHR ''a'') [0..<nat DISTRICT_COUNT])) =
      map (\<lambda>i. 24) [0..<nat DISTRICT_COUNT]" for r
    by (rule traverse_list_map) (simp add: length_RandomAString)
  then show ?thesis
    using generate_draw [of 10 100] by (simp add: GenerateStock_def domain_constants map_replicate_const del: upt_rec_numeral)
qed

lemma length_token: "name_token i = Some s \<Longrightarrow> length s \<le> 5"
  using name_token_in [of i s] by (auto simp: NameTokens_def)

lemma length_GetLastName: "GetLastName n = Some s \<Longrightarrow> length s \<le> 15"
  by (auto simp: GetLastName_def split: option.splits dest!: length_token)

lemma customer_columns:
  assumes "GenerateCustomer seed w d c = Some row"
  shows "length (gc_First row) \<le> 16 \<and> length (gc_Last row) \<le> 16 \<and> length (gc_Street1 row) \<le> 20 \<and>
    length (gc_Street2 row) \<le> 20 \<and> length (gc_City row) \<le> 20 \<and> length (gc_State row) = 2 \<and> length (gc_Zip row) = 9 \<and>
    length (gc_Phone row) = 16 \<and> length (gc_Credit row) = 2 \<and> length (gc_Data row) \<le> 500 \<and>
    0 \<le> RateUnits (gc_Discount row) \<and> RateUnits (gc_Discount row) \<le> 5000"
proof -
  have l: "length n \<le> 16" if "generate r (State GetNonUniformRandomLastNameForLoad) = Some n" for r n
    using that length_GetLastName by (force simp: generate_def GetNonUniformRandomLastNameForLoad_def split_beta)
  have "length n \<le> 16" if "GetLastName m = Some n" for m n using length_GetLastName [OF that] by simp
  then show ?thesis
    using assms rate_bounds l
    by (auto simp: GenerateCustomer_def length_RandomNumericString split: if_splits)
qed

lemma history_columns: "length (gh_Data (GenerateHistory seed w d c)) \<le> 24"
  by (simp add: GenerateHistory_def)

lemma order_line_columns:
  "list_all (\<lambda>l. 1 \<le> gl_ItemId l \<and> gl_ItemId l \<le> ITEM_COUNT \<and> 0 \<le> MoneyUnits (gl_Amount l) \<and>
     MoneyUnits (gl_Amount l) \<le> 999999 \<and> length (gl_DistInfo l) = 24) (GenerateOrderLines seed w d i n t)"
  (is "list_all ?P _")
proof -
  have "?P (generate r (order_line_gen w d i t ol))" for r ol
  proof -
    have "1 \<le> generate q (draw 1 100000) \<and> generate q (draw 1 100000) \<le> 100000"
      "1 \<le> generate q (draw64 1 999999) \<and> generate q (draw64 1 999999) \<le> 999999" for q
      using generate_draw [of 1 100000 q] generate_draw64 [of 1 999999 q] by simp_all
    then have "0 \<le> generate q (draw64 1 999999) \<and> generate q (draw64 1 999999) \<le> 999999"
      "1 \<le> generate q (draw 1 100000) \<and> generate q (draw 1 100000) \<le> 100000" for q
      by (meson order_trans zero_le_one)+
    then show ?thesis by (simp add: order_line_gen_def length_RandomAString ITEM_COUNT_def)
  qed
  then have "?P l" if "l \<in> set (GenerateOrderLines seed w d i n t)" for l
    using traverse_list_all [of ?P "order_line_gen w d i t" l] that unfolding GenerateOrderLines_def by blast
  then show ?thesis unfolding list_all_iff by blast
qed

section \<open>Properties\<close>


text \<open>C19: the customers of the initial orders of a district are a permutation of all its customers, so
  every customer has exactly one initial order; an order gets exactly its announced number of
  lines, numbered from 1, delivered lines carry the entry date and the amount zero.\<close>

theorem initial_orders_permutation:
  "mset (InitialOrderCustomerPermutation seed w d) = mset [1..CUSTOMERS_PER_DISTRICT] \<and>
   map gl_Number (GenerateOrderLines seed w d i n t) = [1..n] \<and>
   list_all (\<lambda>l. gl_DeliveryUnix l = t \<and> (t = None \<or> gl_Amount l = TMoney 0)) (GenerateOrderLines seed w d i n t)"
  using permutation_mset [of seed w d] GenerateOrderLines_numbers [of seed w d i n t]
    GenerateOrderLines_fields(4,6) [of _ seed w d i n t]
  by (auto simp: list_all_iff CUSTOMERS_PER_DISTRICT_def)

end
