(* ===== verification/Time_Util.thy ===== *)
theory Time_Util
  imports Prelude
begin

text \<open>
  \<^verbatim>\<open>tpcc/runtime/time_util.cpp\<close>: reading and writing UTC timestamps, over the calendar functions
  \<^verbatim>\<open>gmtime_r\<close> and \<^verbatim>\<open>timegm\<close> of the C library (proleptic Gregorian calendar, no leap seconds). A point
  in time is its number of whole seconds since the epoch.
\<close>

section \<open>The calendar\<close>

record tm =
  tm_year :: int
  tm_mon :: int
  tm_mday :: int
  tm_hour :: int
  tm_min :: int
  tm_sec :: int

definition leap_year :: "int \<Rightarrow> bool" where
  "leap_year y \<longleftrightarrow> 4 dvd y \<and> (\<not> 100 dvd y \<or> 400 dvd y)"

definition month_lengths :: "int \<Rightarrow> int list" where
  "month_lengths y = [31, if leap_year y then 29 else 28, 31, 30, 31, 30, 31, 31, 30, 31, 30, 31]"

definition year_length :: "int \<Rightarrow> int" where
  "year_length y = (if leap_year y then 366 else 365)"

text \<open>The first day of a year, counted from 1970.\<close>

definition year_start :: "int \<Rightarrow> int" where
  "year_start y = 365 * (y - 1970) + ((y - 1) div 4 - (y - 1) div 100 + (y - 1) div 400) - 477"

function civil_year :: "int \<Rightarrow> int \<Rightarrow> int \<times> int" where
  "civil_year y n =
     (if n < 0 then civil_year (y - 1) (n + year_length (y - 1))
      else if n < year_length y then (y, n)
      else civil_year (y + 1) (n - year_length y))"
  by auto

termination
  by (relation "measure (\<lambda>(y, n). if n < 0 then nat (- n) else if n < year_length y then 0 else nat n)")
    (auto simp: year_length_def split: if_splits)

declare civil_year.simps [simp del]

fun month_of_day :: "int list \<Rightarrow> int \<Rightarrow> int \<Rightarrow> int \<times> int" where
  "month_of_day [] m n = (m, n)"
| "month_of_day (l # ls) m n = (if n < l then (m, n) else month_of_day ls (m + 1) (n - l))"

definition gmtime :: "int \<Rightarrow> tm" where
  "gmtime secs =
     (let (y, n) = civil_year 1970 (secs div 86400);
          (m, d) = month_of_day (month_lengths y) 0 n;
          r = secs mod 86400 in
      \<lparr> tm_year = y - 1900, tm_mon = m, tm_mday = d + 1,
        tm_hour = r div 3600, tm_min = (r mod 3600) div 60, tm_sec = r mod 60 \<rparr>)"

definition timegm :: "tm \<Rightarrow> int" where
  "timegm t =
     (year_start (tm_year t + 1900) + sum_list (take (nat (tm_mon t)) (month_lengths (tm_year t + 1900))) + tm_mday t - 1) * 86400
       + tm_hour t * 3600 + tm_min t * 60 + tm_sec t"

section \<open>Reading and writing\<close>

definition InvalidTimestamp :: "string \<Rightarrow> cxx_exc" where
  "InvalidTimestamp s = InvalidArgument (''invalid RFC3339 timestamp: '' @ s)"

definition IsDigitAt :: "string \<Rightarrow> nat \<Rightarrow> bool" where
  "IsDigitAt s pos \<longleftrightarrow> pos < length s \<and> is_digit (s ! pos)"

fun parse_digits :: "string \<Rightarrow> nat \<Rightarrow> nat \<Rightarrow> int \<Rightarrow> int result" where
  "parse_digits s pos 0 val = Inr val"
| "parse_digits s pos (Suc k) val =
     (if \<not> IsDigitAt s pos then Inl (InvalidTimestamp s)
      else parse_digits s (pos + 1) k (val * 10 + digit_val (s ! pos)))"

definition ParseDigits :: "string \<Rightarrow> nat \<Rightarrow> nat \<Rightarrow> int result" where
  "ParseDigits s pos len = parse_digits s pos len 0"

text \<open>The loop over the digits of the fraction.\<close>

function skip_fraction :: "string \<Rightarrow> nat \<Rightarrow> nat" where
  "skip_fraction s pos = (if IsDigitAt s pos then skip_fraction s (pos + 1) else pos)"
  by auto

termination
  by (relation "measure (\<lambda>(s, pos). length s - pos)") (auto simp: IsDigitAt_def)

declare skip_fraction.simps [simp del]

definition fraction_end :: "string \<Rightarrow> nat result" where
  "fraction_end s =
     (if s ! 19 = CHR ''.'' then
        if length s \<le> 20 \<or> \<not> IsDigitAt s 20
        then Inl (InvalidArgument (''invalid RFC3339 fractional seconds: '' @ s))
        else Inr (skip_fraction s 20)
      else Inr 19)"

definition ParseRfc3339Utc :: "string \<Rightarrow> int result" where
  "ParseRfc3339Utc s =
     (if length s < 20 \<or> s ! 4 \<noteq> CHR ''-'' \<or> s ! 7 \<noteq> CHR ''-'' \<or> s ! 10 \<noteq> CHR ''T'' \<or> s ! 13 \<noteq> CHR '':'' \<or> s ! 16 \<noteq> CHR '':''
      then Inl (InvalidTimestamp s)
      else
        bind_r (ParseDigits s 0 4) (\<lambda>year.
        bind_r (ParseDigits s 5 2) (\<lambda>month.
        bind_r (ParseDigits s 8 2) (\<lambda>day.
        bind_r (ParseDigits s 11 2) (\<lambda>hour.
        bind_r (ParseDigits s 14 2) (\<lambda>minute.
        bind_r (ParseDigits s 17 2) (\<lambda>second.
        bind_r (fraction_end s) (\<lambda>pos.
          if pos + 1 \<noteq> length s \<or> s ! pos \<noteq> CHR ''Z''
          then Inl (InvalidArgument (''RFC3339 timestamp must be UTC (Z): '' @ s))
          else if month < 1 \<or> month > 12 \<or> day < 1 \<or> day > 31 \<or> hour < 0 \<or> hour > 23 \<or>
              minute < 0 \<or> minute > 59 \<or> second < 0 \<or> second > 59
          then Inl (InvalidTimestamp s)
          else
            let t = \<lparr> tm_year = year - 1900, tm_mon = month - 1, tm_mday = day,
                      tm_hour = hour, tm_min = minute, tm_sec = second \<rparr>;
                secs = timegm t in
            if gmtime secs \<noteq> t then Inl (InvalidArgument (''invalid RFC3339 calendar date: '' @ s))
            else Inr secs))))))))"

text \<open>\<^verbatim>\<open>%m\<close>, \<^verbatim>\<open>%d\<close>, \<^verbatim>\<open>%H\<close>, \<^verbatim>\<open>%M\<close> and \<^verbatim>\<open>%S\<close> of \<^verbatim>\<open>put_time\<close>.\<close>

definition two_digits :: "int \<Rightarrow> string" where
  "two_digits n = (if n < 10 then ''0'' else []) @ show_int n"

definition put_date :: "tm \<Rightarrow> string" where
  "put_date t = show_int (tm_year t + 1900) @ ''-'' @ two_digits (tm_mon t + 1) @ ''-'' @ two_digits (tm_mday t)"

definition put_clock :: "tm \<Rightarrow> string" where
  "put_clock t = two_digits (tm_hour t) @ '':'' @ two_digits (tm_min t) @ '':'' @ two_digits (tm_sec t)"

definition FormatRfc3339Utc :: "int \<Rightarrow> string" where
  "FormatRfc3339Utc tt = (let t = gmtime tt in put_date t @ ''T'' @ put_clock t @ ''Z'')"

text \<open>\<^verbatim>\<open>FormatUnixTimestamp\<close> of the PostgreSQL loader.\<close>

definition FormatUnixTimestamp :: "int \<Rightarrow> string" where
  "FormatUnixTimestamp unixSeconds = (let t = gmtime unixSeconds in put_date t @ '' '' @ put_clock t)"

section \<open>The calendar functions are inverse\<close>

lemma div_step:
  fixes y k :: int
  assumes "0 < k"
  shows "y div k - (y - 1) div k = (if k dvd y then 1 else 0)"
proof (cases "k dvd y")
  case True
  then obtain q where q: "y = k * q" by blast
  have "(k * q - 1) div k = q - 1"
    using assms by (intro int_div_pos_eq [of _ _ _ "k - 1"]) (simp_all add: algebra_simps)
  with True q assms show ?thesis by simp
next
  case False
  then have "y mod k \<noteq> 0" by auto
  then have "1 \<le> y mod k" using assms by (metis pos_mod_sign le_neq_trans zless_imp_add1_zle add_0)
  then have "(y - 1) div k = y div k"
    by (intro int_div_pos_eq [of _ _ _ "y mod k - 1"])
      (use assms pos_mod_bound [of k y] mult_div_mod_eq [of k y] in linarith)+
  with False show ?thesis by simp
qed

lemma year_start_step: "year_start (y + 1) = year_start y + year_length y"
proof -
  have d: "100 dvd y \<Longrightarrow> 4 dvd y" "400 dvd y \<Longrightarrow> 100 dvd y" by presburger+
  have "year_start (y + 1) - year_start y =
      365 + ((y div 4 - (y - 1) div 4) - (y div 100 - (y - 1) div 100) + (y div 400 - (y - 1) div 400))"
    by (simp add: year_start_def)
  also have "\<dots> = year_length y"
    unfolding div_step [of 4 y, simplified] div_step [of 100 y, simplified] div_step [of 400 y, simplified]
      year_length_def leap_year_def
    using d by (cases "4 dvd y"; cases "100 dvd y"; cases "400 dvd y") simp_all
  finally show ?thesis by simp
qed

lemma year_start_step': "year_start (y - 1) + year_length (y - 1) = year_start y"
  using year_start_step [of "y - 1"] by simp

lemma civil_year_spec:
  "civil_year y n = (z, k) \<Longrightarrow> 0 \<le> k \<and> k < year_length z \<and> year_start z + k = year_start y + n"
proof (induction y n rule: civil_year.induct)
  case (1 y n)
  show ?case
    using 1 year_start_step [of y] year_start_step' [of y]
    by (auto simp: civil_year.simps [of y n] split: if_splits)
qed

lemma month_of_day_spec:
  "month_of_day ls m n = (j, k) \<Longrightarrow> 0 \<le> n \<Longrightarrow> n < sum_list ls \<Longrightarrow>
     m \<le> j \<and> j < m + int (length ls) \<and> 0 \<le> k \<and> k < ls ! nat (j - m) \<and> sum_list (take (nat (j - m)) ls) + k = n"
proof (induction ls m n arbitrary: j k rule: month_of_day.induct)
  case (1 m n)
  then show ?case by simp
next
  case (2 l ls m n)
  show ?case
  proof (cases "n < l")
    case True
    with 2 show ?thesis by auto
  next
    case False
    with 2 have r: "m + 1 \<le> j \<and> j < m + 1 + int (length ls) \<and> 0 \<le> k \<and> k < ls ! nat (j - (m + 1)) \<and>
        sum_list (take (nat (j - (m + 1))) ls) + k = n - l"
      by simp
    then have "nat (j - m) = Suc (nat (j - (m + 1)))" by arith
    with r show ?thesis by simp
  qed
qed

lemma sum_month_lengths: "sum_list (month_lengths y) = year_length y"
  by (simp add: month_lengths_def year_length_def)

lemma gmtime_fields:
  obtains y n m d where "civil_year 1970 (secs div 86400) = (y, n)" "month_of_day (month_lengths y) 0 n = (m, d)"
    "gmtime secs = \<lparr> tm_year = y - 1900, tm_mon = m, tm_mday = d + 1, tm_hour = (secs mod 86400) div 3600,
       tm_min = ((secs mod 86400) mod 3600) div 60, tm_sec = (secs mod 86400) mod 60 \<rparr>"
    "year_start y + n = secs div 86400" "0 \<le> n" "n < year_length y"
    "0 \<le> m" "m < 12" "0 \<le> d" "d < month_lengths y ! nat m" "sum_list (take (nat m) (month_lengths y)) + d = n"
proof -
  obtain y n where 1: "civil_year 1970 (secs div 86400) = (y, n)" by fastforce
  obtain m d where 2: "month_of_day (month_lengths y) 0 n = (m, d)" by fastforce
  have 0: "year_start 1970 = 0" by (simp add: year_start_def)
  have y: "year_start y + n = secs div 86400" "0 \<le> n" "n < year_length y"
    using civil_year_spec [OF 1] 0 by simp_all
  have m: "0 \<le> m \<and> m < 12 \<and> 0 \<le> d \<and> d < month_lengths y ! nat m \<and> sum_list (take (nat m) (month_lengths y)) + d = n"
    using month_of_day_spec [OF 2] y by (simp add: sum_month_lengths) (simp add: month_lengths_def)
  have "gmtime secs = \<lparr> tm_year = y - 1900, tm_mon = m, tm_mday = d + 1, tm_hour = (secs mod 86400) div 3600,
       tm_min = ((secs mod 86400) mod 3600) div 60, tm_sec = (secs mod 86400) mod 60 \<rparr>"
    by (simp add: gmtime_def Let_def 1 2)
  then show ?thesis by (rule that [OF 1 2 _ y]) (use m in blast)+
qed

lemma timegm_gmtime: "timegm (gmtime secs) = secs"
proof (rule gmtime_fields [of secs])
  fix y n m d
  assume g: "gmtime secs = \<lparr> tm_year = y - 1900, tm_mon = m, tm_mday = d + 1, tm_hour = (secs mod 86400) div 3600,
       tm_min = ((secs mod 86400) mod 3600) div 60, tm_sec = (secs mod 86400) mod 60 \<rparr>"
    and y: "year_start y + n = secs div 86400" "sum_list (take (nat m) (month_lengths y)) + d = n"
  define r where "r = secs mod 86400"
  have "r div 3600 * 3600 + r mod 3600 = r" "r mod 3600 div 60 * 60 + r mod 3600 mod 60 = r mod 3600" by simp_all
  moreover have "r mod 3600 mod 60 = r mod 60" by (simp add: mod_mod_cancel)
  ultimately have "r div 3600 * 3600 + r mod 3600 div 60 * 60 + r mod 60 = r" by linarith
  moreover have "secs div 86400 * 86400 + r = secs" by (simp add: r_def)
  moreover have "timegm (gmtime secs) = secs div 86400 * 86400 + r div 3600 * 3600 + r mod 3600 div 60 * 60 + r mod 60"
    unfolding g timegm_def r_def using y by simp
  ultimately show ?thesis by linarith
qed

lemma year_start_mono: "y \<le> z \<Longrightarrow> year_start y \<le> year_start z"
proof (induction z rule: int_ge_induct)
  case (step i)
  have "0 < year_length i" by (simp add: year_length_def)
  with step year_start_step [of i] show ?case by simp
qed simp

lemma gmtime_ranges:
  assumes "- 30610224000 \<le> secs" "secs < 253402300800"
  shows "1000 \<le> tm_year (gmtime secs) + 1900 \<and> tm_year (gmtime secs) + 1900 \<le> 9999 \<and>
    0 \<le> tm_mon (gmtime secs) \<and> tm_mon (gmtime secs) < 12 \<and> 1 \<le> tm_mday (gmtime secs) \<and> tm_mday (gmtime secs) \<le> 31 \<and>
    0 \<le> tm_hour (gmtime secs) \<and> tm_hour (gmtime secs) < 24 \<and> 0 \<le> tm_min (gmtime secs) \<and> tm_min (gmtime secs) < 60 \<and>
    0 \<le> tm_sec (gmtime secs) \<and> tm_sec (gmtime secs) < 60"
proof (rule gmtime_fields [of secs])
  fix y n m d
  assume g: "gmtime secs = \<lparr> tm_year = y - 1900, tm_mon = m, tm_mday = d + 1, tm_hour = (secs mod 86400) div 3600,
       tm_min = ((secs mod 86400) mod 3600) div 60, tm_sec = (secs mod 86400) mod 60 \<rparr>"
    and y: "year_start y + n = secs div 86400" "0 \<le> n" "n < year_length y"
    and m: "0 \<le> m" "m < 12" "0 \<le> d" "d < month_lengths y ! nat m"
  have e: "year_start 1000 = - 354285" "year_start 10000 = 2932897" by (simp_all add: year_start_def)
  have days: "- 354285 \<le> secs div 86400" "secs div 86400 < 2932897" using assms by linarith+
  have y2: "y < 10000"
  proof (rule ccontr)
    assume "\<not> y < 10000"
    then have "year_start 10000 \<le> year_start y" by (intro year_start_mono) simp
    with e y days show False by simp
  qed
  have y1: "1000 \<le> y"
  proof (rule ccontr)
    assume "\<not> 1000 \<le> y"
    then have "year_start (y + 1) \<le> year_start 1000" by (intro year_start_mono) simp
    with e y days year_start_step [of y] show False by simp
  qed
  have "nat m < 12" using m by simp
  then have ml: "month_lengths y ! nat m \<le> 31"
    by (auto simp: month_lengths_def less_Suc_eq numeral_eq_Suc)
  define r where "r = secs mod 86400"
  have "0 \<le> r" "r < 86400" by (simp_all add: r_def)
  then have r1: "0 \<le> r div 3600" "r div 3600 < 24" "0 \<le> r mod 60" "r mod 60 < 60" by simp_all
  have "0 \<le> r mod 3600" "r mod 3600 < 3600" by simp_all
  then have r2: "0 \<le> r mod 3600 div 60" "r mod 3600 div 60 < 60" by (simp_all add: pos_imp_zdiv_nonneg_iff)
  show ?thesis
    unfolding g tm.simps r_def [symmetric] using y1 y2 m ml r1 r2 by linarith
qed

section \<open>Reading what was written\<close>

lemma show_nat_two: "10 \<le> n \<Longrightarrow> n < 100 \<Longrightarrow> show_nat n = [digit_char (n div 10), digit_char (n mod 10)]"
  by (subst show_nat.simps) (simp add: length_show_nat_lt)

lemma show_nat_four:
  assumes "1000 \<le> n" "n < 10000"
  shows "show_nat n = [digit_char (n div 1000), digit_char (n div 100 mod 10), digit_char (n div 10 mod 10), digit_char (n mod 10)]"
proof -
  have "show_nat n = show_nat (n div 10) @ [digit_char (n mod 10)]" using assms by (subst show_nat.simps) simp
  also have "show_nat (n div 10) = show_nat (n div 10 div 10) @ [digit_char (n div 10 mod 10)]"
    using assms by (subst show_nat.simps) simp
  also have "show_nat (n div 10 div 10) = [digit_char (n div 1000), digit_char (n div 100 mod 10)]"
    using assms by (subst show_nat_two) (simp_all add: div_mult2_eq [symmetric])
  finally show ?thesis by simp
qed

lemma two_digits_list:
  assumes "0 \<le> n" "n < 100"
  shows "two_digits n = map digit_char [nat n div 10, nat n mod 10]"
proof (cases "n < 10")
  case True
  moreover from this have "nat n < 10" by simp
  moreover have "digit_char 0 = CHR ''0''" by code_simp
  ultimately show ?thesis using assms(1) by (simp add: two_digits_def show_int_def length_show_nat_lt)
next
  case False
  with assms show ?thesis by (simp add: two_digits_def show_int_def show_nat_two)
qed

lemma digits_value: "int (n div 10) * 10 + int (n mod 10) = int n"
  using int_div_mod_eq [of n 10] by simp

lemma nat_digits:
  assumes "0 \<le> n" "n < 100"
  shows "nat n div 10 < 10" "nat n mod 10 < 10" "int (nat n div 10) * 10 + int (nat n mod 10) = n"
  using assms digits_value [of "nat n"] by auto

lemma format_list:
  assumes "- 30610224000 \<le> tt" "tt < 253402300800"
  shows "\<exists>a b c d m1 m2 d1 d2 h1 h2 n1 n2 s1 s2.
    FormatRfc3339Utc tt = map digit_char [a, b, c, d] @ ''-'' @ map digit_char [m1, m2] @ ''-'' @ map digit_char [d1, d2] @ ''T'' @
      map digit_char [h1, h2] @ '':'' @ map digit_char [n1, n2] @ '':'' @ map digit_char [s1, s2] @ ''Z'' \<and>
    list_all (\<lambda>x. x < 10) [a, b, c, d, m1, m2, d1, d2, h1, h2, n1, n2, s1, s2] \<and>
    ((int a * 10 + int b) * 10 + int c) * 10 + int d = tm_year (gmtime tt) + 1900 \<and>
    int m1 * 10 + int m2 = tm_mon (gmtime tt) + 1 \<and> int d1 * 10 + int d2 = tm_mday (gmtime tt) \<and>
    int h1 * 10 + int h2 = tm_hour (gmtime tt) \<and> int n1 * 10 + int n2 = tm_min (gmtime tt) \<and>
    int s1 * 10 + int s2 = tm_sec (gmtime tt)"
proof -
  define t where "t = gmtime tt"
  note r = gmtime_ranges [OF assms, folded t_def]
  define y where "y = nat (tm_year t + 1900)"
  have y: "1000 \<le> y" "y < 10000" "int y = tm_year t + 1900" using r by (auto simp: y_def)
  have yd: "((int (y div 1000) * 10 + int (y div 100 mod 10)) * 10 + int (y div 10 mod 10)) * 10 + int (y mod 10) = int y"
    using digits_value [of y] digits_value [of "y div 10"] digits_value [of "y div 100"]
    by (simp add: div_mult2_eq [symmetric])
  have ys: "show_int (tm_year t + 1900) = map digit_char [y div 1000, y div 100 mod 10, y div 10 mod 10, y mod 10]"
    using show_nat_four [OF y(1,2)] r by (simp add: show_int_def y_def)
  have lt: "0 \<le> tm_mon t + 1" "tm_mon t + 1 < 100" "0 \<le> tm_mday t" "tm_mday t < 100" "0 \<le> tm_hour t" "tm_hour t < 100"
    "0 \<le> tm_min t" "tm_min t < 100" "0 \<le> tm_sec t" "tm_sec t < 100"
    using r by auto
  have f: "FormatRfc3339Utc tt = map digit_char [y div 1000, y div 100 mod 10, y div 10 mod 10, y mod 10] @ ''-'' @
      two_digits (tm_mon t + 1) @ ''-'' @ two_digits (tm_mday t) @ ''T'' @ two_digits (tm_hour t) @ '':'' @
      two_digits (tm_min t) @ '':'' @ two_digits (tm_sec t) @ ''Z''"
    by (simp add: FormatRfc3339Utc_def Let_def put_date_def put_clock_def t_def [symmetric] ys)
  show ?thesis
    unfolding t_def [symmetric] f two_digits_list [OF lt(1,2)] two_digits_list [OF lt(3,4)]
      two_digits_list [OF lt(5,6)] two_digits_list [OF lt(7,8)] two_digits_list [OF lt(9,10)]
  proof (intro exI conjI, rule refl)
    show "list_all (\<lambda>x. x < 10) [y div 1000, y div 100 mod 10, y div 10 mod 10, y mod 10,
        nat (tm_mon t + 1) div 10, nat (tm_mon t + 1) mod 10, nat (tm_mday t) div 10, nat (tm_mday t) mod 10,
        nat (tm_hour t) div 10, nat (tm_hour t) mod 10, nat (tm_min t) div 10, nat (tm_min t) mod 10,
        nat (tm_sec t) div 10, nat (tm_sec t) mod 10]"
      using less_mult_imp_div_less [of y 10 1000] y(2) nat_digits(1) [OF lt(1,2)] nat_digits(1) [OF lt(3,4)] nat_digits(1) [OF lt(5,6)] nat_digits(1) [OF lt(7,8)]
        nat_digits(1) [OF lt(9,10)] by simp
  qed (use y(3) yd in argo, (rule nat_digits, rule lt, rule lt)+)
qed

lemma format_parse:
  assumes "- 30610224000 \<le> tt" "tt < 253402300800"
  shows "ParseRfc3339Utc (FormatRfc3339Utc tt) = Inr tt"
proof -
  note r = gmtime_ranges [OF assms]
  obtain a b c d m1 m2 d1 d2 h1 h2 n1 n2 s1 s2 where
    f: "FormatRfc3339Utc tt = map digit_char [a, b, c, d] @ ''-'' @ map digit_char [m1, m2] @ ''-'' @ map digit_char [d1, d2] @ ''T'' @
      map digit_char [h1, h2] @ '':'' @ map digit_char [n1, n2] @ '':'' @ map digit_char [s1, s2] @ ''Z''"
    and d: "list_all (\<lambda>x. x < 10) [a, b, c, d, m1, m2, d1, d2, h1, h2, n1, n2, s1, s2]"
    and e: "((int a * 10 + int b) * 10 + int c) * 10 + int d = tm_year (gmtime tt) + 1900"
      "int m1 * 10 + int m2 = tm_mon (gmtime tt) + 1" "int d1 * 10 + int d2 = tm_mday (gmtime tt)"
      "int h1 * 10 + int h2 = tm_hour (gmtime tt)" "int n1 * 10 + int n2 = tm_min (gmtime tt)"
      "int s1 * 10 + int s2 = tm_sec (gmtime tt)"
    using format_list [OF assms] by blast
  define s where "s = FormatRfc3339Utc tt"
  have len: "length s = 20" and nth: "s ! 4 = CHR ''-''" "s ! 7 = CHR ''-''" "s ! 10 = CHR ''T''" "s ! 13 = CHR '':''"
    "s ! 16 = CHR '':''" "s ! 19 = CHR ''Z''"
    unfolding s_def f by simp_all
  have p: "ParseDigits s 0 4 = Inr (tm_year (gmtime tt) + 1900)" "ParseDigits s 5 2 = Inr (tm_mon (gmtime tt) + 1)"
    "ParseDigits s 8 2 = Inr (tm_mday (gmtime tt))" "ParseDigits s 11 2 = Inr (tm_hour (gmtime tt))"
    "ParseDigits s 14 2 = Inr (tm_min (gmtime tt))" "ParseDigits s 17 2 = Inr (tm_sec (gmtime tt))"
    unfolding s_def f ParseDigits_def e [symmetric] using d by (simp_all add: numeral_eq_Suc IsDigitAt_def)
  have "fraction_end s = Inr 19" using nth by (simp add: fraction_end_def)
  moreover have c: "\<lparr> tm_year = tm_year (gmtime tt), tm_mon = tm_mon (gmtime tt), tm_mday = tm_mday (gmtime tt),
     tm_hour = tm_hour (gmtime tt), tm_min = tm_min (gmtime tt), tm_sec = tm_sec (gmtime tt) \<rparr> = gmtime tt"
    by simp
  ultimately show ?thesis
    unfolding s_def [symmetric] using p len nth r by (simp add: ParseRfc3339Utc_def Let_def c timegm_gmtime)
qed

section \<open>Properties\<close>

text \<open>C22: reading back a written UTC timestamp gives the same second, for every second of the years
  1000 to 9999; no written timestamp is rejected by the format, range or calendar checks.\<close>

theorem timestamp_roundtrip:
  assumes "- 30610224000 \<le> tt" "tt < 253402300800"
  shows "ParseRfc3339Utc (FormatRfc3339Utc tt) = Inr tt"
  using format_parse [OF assms] .

theorem timestamp_roundtrip_witness:
  "FormatRfc3339Utc 1583020799 = ''2020-02-29T23:59:59Z'' \<and> ParseRfc3339Utc ''2020-02-29T23:59:59Z'' = Inr 1583020799"
proof -
  have "FormatRfc3339Utc 1583020799 = ''2020-02-29T23:59:59Z''" by code_simp
  with timestamp_roundtrip [of 1583020799] show ?thesis by simp
qed

end
