(* ===== verification/Pg_Load.thy ===== *)
theory Pg_Load
  imports Pg_Checks Generator Time_Util
begin

text \<open>
  The PostgreSQL loader: \<^verbatim>\<open>tpcc/dbms/pgsql/load_batch.cpp\<close>, \<^verbatim>\<open>tpcc/loader/put_batch.h\<close>, the work
  distribution of \<^verbatim>\<open>import.cpp\<close> and \<^verbatim>\<open>tpcc/runtime/warehouse_range.cpp\<close>. A load is a chain of statements on
  the session of the adapter; a \<^verbatim>\<open>COPY\<close> stream is one statement that raises a unique violation when a
  row repeats a key. Logging and progress counters are left out.
\<close>

section \<open>Rows as the columns store them\<close>

definition item_of :: "GItemRow \<Rightarrow> item_row" where
  "item_of r = \<lparr> i_id = gi_Id r, i_name = gi_Name r, i_price = MoneyUnits (gi_Price r), i_data = gi_Data r,
     i_im_id = gi_ImageId r \<rparr>"

definition warehouse_of :: "GWarehouseRow \<Rightarrow> warehouse_row" where
  "warehouse_of r = \<lparr> w_id = gw_Id r, w_ytd = MoneyUnits (gw_Ytd r), w_tax = RateUnits (gw_Tax r), w_name = gw_Name r,
     w_street_1 = gw_Street1 r, w_street_2 = gw_Street2 r, w_city = gw_City r, w_state = gw_State r, w_zip = gw_Zip r \<rparr>"

definition district_of :: "GDistrictRow \<Rightarrow> district_row" where
  "district_of r = \<lparr> d_w_id = gd_WarehouseId r, d_id = gd_Id r, d_ytd = MoneyUnits (gd_Ytd r), d_tax = RateUnits (gd_Tax r),
     d_next_o_id = gd_NextOrderId r, d_name = gd_Name r, d_street_1 = gd_Street1 r, d_street_2 = gd_Street2 r,
     d_city = gd_City r, d_state = gd_State r, d_zip = gd_Zip r \<rparr>"

text \<open>The column \<^verbatim>\<open>s_ytd\<close> is \<^verbatim>\<open>decimal(8, 0)\<close>: whole units.\<close>

definition stock_of :: "GStockRow \<Rightarrow> stock_row" where
  "stock_of r = \<lparr> s_w_id = gs_WarehouseId r, s_i_id = gs_ItemId r, s_quantity = gs_Quantity r,
     s_ytd = MoneyUnits (gs_Ytd r) div 100, s_order_cnt = gs_OrderCount r, s_remote_cnt = gs_RemoteCount r,
     s_data = gs_Data r, s_dist = gs_Dist r \<rparr>"

definition customer_of :: "GCustomerRow \<Rightarrow> customer_row" where
  "customer_of r = \<lparr> c_w_id = gc_WarehouseId r, c_d_id = gc_DistrictId r, c_id = gc_Id r,
     c_discount = RateUnits (gc_Discount r), c_credit = gc_Credit r, c_last = gc_Last r, c_first = gc_First r,
     c_credit_lim = MoneyUnits (gc_CreditLimit r), c_balance = MoneyUnits (gc_Balance r),
     c_ytd_payment = MoneyUnits (gc_YtdPayment r), c_payment_cnt = gc_PaymentCount r, c_delivery_cnt = gc_DeliveryCount r,
     c_street_1 = gc_Street1 r, c_street_2 = gc_Street2 r, c_city = gc_City r, c_state = gc_State r, c_zip = gc_Zip r,
     c_phone = gc_Phone r, c_since = FormatUnixTimestamp (gc_SinceUnix r), c_middle = gc_Middle r, c_data = gc_Data r \<rparr>"

definition history_of :: "GHistoryRow \<Rightarrow> history_row" where
  "history_of r = \<lparr> h_c_id = gh_CustomerId r, h_c_d_id = gh_CustomerDistrictId r, h_c_w_id = gh_CustomerWarehouseId r,
     h_d_id = gh_DistrictId r, h_w_id = gh_WarehouseId r, h_date = FormatUnixTimestamp (gh_DateUnix r),
     h_amount = MoneyUnits (gh_Amount r), h_data = gh_Data r \<rparr>"

definition oorder_of :: "GOrderRow \<Rightarrow> oorder_row" where
  "oorder_of r = \<lparr> o_w_id = go_WarehouseId r, o_d_id = go_DistrictId r, o_id = go_Id r, o_c_id = go_CustomerId r,
     o_carrier_id = go_CarrierId r, o_ol_cnt = go_OlCnt r, o_all_local = go_AllLocal r,
     o_entry_d = FormatUnixTimestamp (go_EntryUnix r) \<rparr>"

definition new_order_of :: "GNewOrderRow \<Rightarrow> new_order_row" where
  "new_order_of r = \<lparr> no_w_id = gn_WarehouseId r, no_d_id = gn_DistrictId r, no_o_id = gn_OrderId r \<rparr>"

definition order_line_of :: "GOrderLineRow \<Rightarrow> order_line_row" where
  "order_line_of r = \<lparr> ol_w_id = gl_WarehouseId r, ol_d_id = gl_DistrictId r, ol_o_id = gl_OrderId r,
     ol_number = gl_Number r, ol_i_id = gl_ItemId r,
     ol_delivery_d = map_option FormatUnixTimestamp (gl_DeliveryUnix r), ol_amount = MoneyUnits (gl_Amount r),
     ol_supply_w_id = gl_SupplyWarehouseId r, ol_quantity = gl_Quantity r, ol_dist_info = gl_DistInfo r \<rparr>"

section \<open>COPY\<close>

fun copy_rows :: "('r \<Rightarrow> 'k) \<Rightarrow> 'r list \<Rightarrow> 'r list \<Rightarrow> 'r list option" where
  "copy_rows key [] t = Some t"
| "copy_rows key (r # rs) t = (case insert_row key r t of None \<Rightarrow> None | Some t' \<Rightarrow> copy_rows key rs t')"

definition copied :: "('r list \<Rightarrow> pg_db) \<Rightarrow> 'r list option \<Rightarrow> pqxx_exc + unit \<times> pg_db" where
  "copied put t = (case t of None \<Rightarrow> Inl UniqueViolation | Some rows \<Rightarrow> Inr ((), put rows))"

definition copy_warehouse :: "warehouse_row list \<Rightarrow> (pg_db, unit) io" where
  "copy_warehouse rs = exec_sql (\<lambda>db. copied (\<lambda>t. db \<lparr> warehouse := t \<rparr>) (copy_rows w_id rs (warehouse db)))"

definition copy_district :: "district_row list \<Rightarrow> (pg_db, unit) io" where
  "copy_district rs = exec_sql (\<lambda>db. copied (\<lambda>t. db \<lparr> district := t \<rparr>) (copy_rows d_key rs (district db)))"

definition copy_stock :: "stock_row list \<Rightarrow> (pg_db, unit) io" where
  "copy_stock rs = exec_sql (\<lambda>db. copied (\<lambda>t. db \<lparr> stock := t \<rparr>) (copy_rows s_key rs (stock db)))"

definition copy_customer :: "customer_row list \<Rightarrow> (pg_db, unit) io" where
  "copy_customer rs = exec_sql (\<lambda>db. copied (\<lambda>t. db \<lparr> customer := t \<rparr>) (copy_rows c_key rs (customer db)))"

definition copy_history :: "history_row list \<Rightarrow> (pg_db, unit) io" where
  "copy_history rs = exec_sql (\<lambda>db. Inr ((), db \<lparr> history := history db @ rs \<rparr>))"

definition copy_oorder :: "oorder_row list \<Rightarrow> (pg_db, unit) io" where
  "copy_oorder rs = exec_sql (\<lambda>db. copied (\<lambda>t. db \<lparr> oorder := t \<rparr>) (copy_rows o_key rs (oorder db)))"

definition copy_new_order :: "new_order_row list \<Rightarrow> (pg_db, unit) io" where
  "copy_new_order rs = exec_sql (\<lambda>db. copied (\<lambda>t. db \<lparr> new_order := t \<rparr>) (copy_rows no_key rs (new_order db)))"

definition copy_order_line :: "order_line_row list \<Rightarrow> (pg_db, unit) io" where
  "copy_order_line rs = exec_sql (\<lambda>db. copied (\<lambda>t. db \<lparr> order_line := t \<rparr>) (copy_rows ol_key rs (order_line db)))"

section \<open>Populating a warehouse\<close>

definition DEFAULT_LOAD_BATCH_ROWS :: int where
  "DEFAULT_LOAD_BATCH_ROWS = 2000"

definition EffectiveLoadBatchRows :: "int \<Rightarrow> int" where
  "EffectiveLoadBatchRows batchRows = (if batchRows > 0 then batchRows else DEFAULT_LOAD_BATCH_ROWS)"

text \<open>The loop \<^verbatim>\<open>for (start = 1; start <= last; start += chunk)\<close> with the end of each chunk.\<close>

function load_chunks :: "int \<Rightarrow> int \<Rightarrow> int \<Rightarrow> (int \<times> int) list result" where
  "load_chunks start lst chunk =
     (if start \<le> lst \<and> 1 \<le> chunk
      then bind_r (i32 (start + chunk)) (\<lambda>nxt.
             map_r (\<lambda>cs. (start, min (nxt - 1) lst) # cs) (load_chunks (start + chunk) lst chunk))
      else Inr [])"
  by auto

termination
  by (relation "measure (\<lambda>(s, l, c). nat (l + 1 - s))") auto

declare load_chunks.simps [simp del]

definition in_chunks :: "int \<Rightarrow> int \<Rightarrow> int \<Rightarrow> (int list \<Rightarrow> (pg_db, unit) io) \<Rightarrow> (pg_db, unit) io" where
  "in_chunks start lst batchRows copy =
     Then (of_result (load_chunks start lst (EffectiveLoadBatchRows batchRows))) (\<lambda>chunks.
       ThenFold chunks () (\<lambda>_ (s, e). copy [s..e]))"

definition CopyWarehouse :: "u64 \<Rightarrow> int \<Rightarrow> (pg_db, unit) io" where
  "CopyWarehouse seed wh = copy_warehouse [warehouse_of (GenerateWarehouse seed wh)]"

definition CopyDistricts :: "u64 \<Rightarrow> int \<Rightarrow> (pg_db, unit) io" where
  "CopyDistricts seed wh =
     copy_district (map (\<lambda>d. district_of (GenerateDistrict seed wh d)) [DISTRICT_LOW_ID..DISTRICT_HIGH_ID])"

definition CopyStock :: "bool \<Rightarrow> u64 \<Rightarrow> int \<Rightarrow> int \<Rightarrow> (pg_db, unit) io" where
  "CopyStock left_first seed wh batchRows =
     in_chunks 1 ITEM_COUNT batchRows (\<lambda>ids. copy_stock (map (\<lambda>i. stock_of (GenerateStock left_first seed wh i)) ids))"

definition CopyCustomers :: "u64 \<Rightarrow> int \<Rightarrow> int \<Rightarrow> int \<Rightarrow> (pg_db, unit) io" where
  "CopyCustomers seed wh dst batchRows =
     in_chunks 1 CUSTOMERS_PER_DISTRICT batchRows (\<lambda>ids.
       case those (map (\<lambda>cid. GenerateCustomer seed wh dst cid) ids) of
         None \<Rightarrow> of_result (Inl SignedOverflow)
       | Some rows \<Rightarrow> copy_customer (map customer_of rows))"

definition CopyHistory :: "u64 \<Rightarrow> int \<Rightarrow> int \<Rightarrow> (pg_db, unit) io" where
  "CopyHistory seed wh dst =
     copy_history (map (\<lambda>cid. history_of (GenerateHistory seed wh dst cid)) [1..CUSTOMERS_PER_DISTRICT])"

text \<open>The order \<open>oid\<close> of a district and its lines.\<close>

definition initial_order :: "u64 \<Rightarrow> int \<Rightarrow> int \<Rightarrow> int \<Rightarrow> GOrderRow" where
  "initial_order seed wh dst oid =
     GenerateOrder seed wh dst oid (InitialOrderCustomerPermutation seed wh dst ! nat (oid - 1))"

definition initial_lines :: "u64 \<Rightarrow> int \<Rightarrow> int \<Rightarrow> int \<Rightarrow> GOrderLineRow list" where
  "initial_lines seed wh dst oid =
     (let order = initial_order seed wh dst oid in
      GenerateOrderLines seed wh dst oid (go_OlCnt order)
        (if oid < FIRST_UNPROCESSED_O_ID then Some (go_EntryUnix order) else None))"

definition CopyOrders :: "u64 \<Rightarrow> int \<Rightarrow> int \<Rightarrow> (pg_db, unit) io" where
  "CopyOrders seed wh dst =
     Then (copy_oorder (map (\<lambda>oid. oorder_of (initial_order seed wh dst oid)) [1..CUSTOMERS_PER_DISTRICT])) (\<lambda>_.
     Then (copy_new_order (map (\<lambda>oid. new_order_of (GenerateNewOrder wh dst oid)) [FIRST_UNPROCESSED_O_ID..CUSTOMERS_PER_DISTRICT])) (\<lambda>_.
       copy_order_line (map order_line_of (concat (map (initial_lines seed wh dst) [1..CUSTOMERS_PER_DISTRICT])))))"

definition DeleteWarehouseChildren :: "int \<Rightarrow> (pg_db, unit) io" where
  "DeleteWarehouseChildren w =
     Then (exec_sql (\<lambda>db. Inr ((), db \<lparr> order_line := filter (\<lambda>l. ol_w_id l \<noteq> w) (order_line db) \<rparr>))) (\<lambda>_.
     Then (exec_sql (\<lambda>db. Inr ((), db \<lparr> new_order := filter (\<lambda>n. no_w_id n \<noteq> w) (new_order db) \<rparr>))) (\<lambda>_.
     Then (exec_sql (\<lambda>db. Inr ((), db \<lparr> oorder := filter (\<lambda>x. o_w_id x \<noteq> w) (oorder db) \<rparr>))) (\<lambda>_.
     Then (exec_sql (\<lambda>db. Inr ((), db \<lparr> history := filter (\<lambda>h. \<not> (h_w_id h = w \<or> h_c_w_id h = w)) (history db) \<rparr>))) (\<lambda>_.
     Then (exec_sql (\<lambda>db. Inr ((), db \<lparr> customer := filter (\<lambda>c. c_w_id c \<noteq> w) (customer db) \<rparr>))) (\<lambda>_.
     Then (exec_sql (\<lambda>db. Inr ((), db \<lparr> district := filter (\<lambda>d. d_w_id d \<noteq> w) (district db) \<rparr>))) (\<lambda>_.
     Then (exec_sql (\<lambda>db. Inr ((), db \<lparr> stock := filter (\<lambda>s. s_w_id s \<noteq> w) (stock db) \<rparr>))) (\<lambda>_.
       exec_sql (\<lambda>db. Inr ((), db \<lparr> warehouse := filter (\<lambda>r. w_id r \<noteq> w) (warehouse db) \<rparr>)))))))))"

definition PopulateWarehouse :: "bool \<Rightarrow> u64 \<Rightarrow> int \<Rightarrow> int \<Rightarrow> (pg_db, unit) io" where
  "PopulateWarehouse left_first seed warehouseId batchRows =
     Then (CopyWarehouse seed warehouseId) (\<lambda>_.
     Then (CopyDistricts seed warehouseId) (\<lambda>_.
     Then (CopyStock left_first seed warehouseId batchRows) (\<lambda>_.
       ThenFold [DISTRICT_LOW_ID..DISTRICT_HIGH_ID] () (\<lambda>_ d.
         Then (CopyCustomers seed warehouseId d batchRows) (\<lambda>_.
         Then (CopyHistory seed warehouseId d) (\<lambda>_.
           CopyOrders seed warehouseId d))))))"

section \<open>Idempotent batches\<close>

definition contains_text :: "string \<Rightarrow> string \<Rightarrow> bool" where
  "contains_text needle hay \<longleftrightarrow> list_ex (\<lambda>i. take (length needle) (drop i hay) = needle) [0..<Suc (length hay)]"

definition IsDuplicateKeyError :: "pqxx_exc \<Rightarrow> bool" where
  "IsDuplicateKeyError ex \<longleftrightarrow>
     (case ex of SqlError st m \<Rightarrow> st = ''23505'' | TransactionRollback st m \<Rightarrow> st = ''23505'' | _ \<Rightarrow> False) \<or>
     contains_text ''duplicate key value violates unique constraint'' (what_of ex)"

datatype EPutBatchOutcome = PutCompleted | PutOutcomeUnknown | PutFailed

record TPutBatchResult =
  pb_Outcome :: EPutBatchOutcome
  pb_NativeCode :: string
  pb_Message :: string

definition OkResult :: TPutBatchResult where
  "OkResult = \<lparr> pb_Outcome = PutCompleted, pb_NativeCode = [], pb_Message = [] \<rparr>"

definition FailResult :: "pqxx_exc \<Rightarrow> TPutBatchResult" where
  "FailResult ex = \<lparr> pb_Outcome = PutFailed, pb_NativeCode = [], pb_Message = what_of ex \<rparr>"

text \<open>A \<^verbatim>\<open>pqxx::work\<close> around a chain: committed at the end, aborted by its destructor when the chain
  raises.\<close>

definition load_txn :: "(pg_db, unit) io \<Rightarrow> (pg_db, unit) io" where
  "load_txn body s =
     (case body (s \<lparr> ss_txn := None \<rparr>) of
        (Inl e, s1) \<Rightarrow> (Inl e, (case ss_txn s1 of None \<Rightarrow> s1 | Some t \<Rightarrow> (pqxx_abort s1) \<lparr> ss_txn := None \<rparr>))
      | (Inr u, s1) \<Rightarrow>
          (case ss_txn s1 of
             None \<Rightarrow> (Inr (), s1)
           | Some t \<Rightarrow> (case pqxx_commit t s1 of (r, s2) \<Rightarrow> (r, s2 \<lparr> ss_txn := None \<rparr>))))"

text \<open>\<^verbatim>\<open>INSERT INTO item ... ON CONFLICT (i_id) DO UPDATE\<close> of the staged rows; the server refuses to
  update a row twice.\<close>

definition upsert_item :: "item_row \<Rightarrow> item_row list \<Rightarrow> item_row list" where
  "upsert_item r t = (if i_id r \<in> i_id ` set t then map (\<lambda>x. if i_id x = i_id r then r else x) t else t @ [r])"

definition upsert_items :: "item_row list \<Rightarrow> (pg_db, unit) io" where
  "upsert_items rs = exec_sql (\<lambda>db.
     if \<not> distinct (map i_id rs)
     then Inl (SqlError ''21000'' ''ON CONFLICT DO UPDATE command cannot affect row a second time'')
     else Inr ((), db \<lparr> item := fold upsert_item rs (item db) \<rparr>))"

text \<open>The staging table is private to the transaction: it is the value threaded through the chunks.\<close>

definition LoadItems :: "bool \<Rightarrow> u64 \<Rightarrow> int \<Rightarrow> (pg_db, unit) io" where
  "LoadItems left_first seed batchRows =
     Then (exec_sql (\<lambda>db. Inr ((), db))) (\<lambda>_.
     Then (of_result (load_chunks 1 ITEM_COUNT (EffectiveLoadBatchRows batchRows))) (\<lambda>chunks.
     Then (ThenFold chunks [] (\<lambda>staged (s, e).
       exec_sql (\<lambda>db. Inr (staged @ map (\<lambda>i. item_of (GenerateItem left_first seed i)) [s..e], db)))) (\<lambda>staged.
       upsert_items staged)))"

definition PutItemsIdempotent :: "bool \<Rightarrow> u64 \<Rightarrow> int \<Rightarrow> pg_db PgSession \<Rightarrow> TPutBatchResult \<times> pg_db PgSession" where
  "PutItemsIdempotent left_first seed batchRows conn =
     (case load_txn (LoadItems left_first seed batchRows) conn of
        (Inr u, conn1) \<Rightarrow> (OkResult, conn1)
      | (Inl ex, conn1) \<Rightarrow> (FailResult ex, conn1))"

definition PutWarehouseIdempotent :: "bool \<Rightarrow> u64 \<Rightarrow> int \<Rightarrow> int \<Rightarrow> pg_db PgSession \<Rightarrow> TPutBatchResult \<times> pg_db PgSession" where
  "PutWarehouseIdempotent left_first seed warehouseId batchRows conn =
     (case load_txn (PopulateWarehouse left_first seed warehouseId batchRows) conn of
        (Inr u, conn1) \<Rightarrow> (OkResult, conn1)
      | (Inl ex, conn1) \<Rightarrow>
          if \<not> IsDuplicateKeyError ex then (FailResult ex, conn1)
          else
            (case load_txn (Then (DeleteWarehouseChildren warehouseId)
                     (\<lambda>_. PopulateWarehouse left_first seed warehouseId batchRows)) conn1 of
               (Inr u, conn2) \<Rightarrow> (OkResult, conn2)
             | (Inl ex2, conn2) \<Rightarrow> (FailResult ex2, conn2)))"

record TLoadKeyRange =
  kr_Table :: string
  kr_Begin :: int
  kr_End :: int

fun put_warehouses :: "bool \<Rightarrow> u64 \<Rightarrow> int list \<Rightarrow> pg_db PgSession \<Rightarrow> TPutBatchResult \<times> pg_db PgSession" where
  "put_warehouses left_first seed [] conn = (OkResult, conn)"
| "put_warehouses left_first seed (wh # whs) conn =
     (case PutWarehouseIdempotent left_first seed (to_int32 (of_int wh)) 0 conn of
        (result, conn1) \<Rightarrow>
          if pb_Outcome result \<noteq> PutCompleted then (result, conn1) else put_warehouses left_first seed whs conn1)"

definition PutBatch :: "bool \<Rightarrow> u64 \<Rightarrow> TLoadKeyRange \<Rightarrow> string list \<Rightarrow> pg_db PgSession \<Rightarrow> TPutBatchResult \<times> pg_db PgSession" where
  "PutBatch left_first seed keyRange rows conn =
     (if rows \<noteq> [] then
        (\<lparr> pb_Outcome = PutFailed, pb_NativeCode = [],
           pb_Message = ''TPgLoadAdapter does not yet accept pre-serialized rows; '' @
             ''pass an empty row list to regenerate from seed'' \<rparr>, conn)
      else if kr_Table keyRange = ''item'' then PutItemsIdempotent left_first seed 0 conn
      else if kr_Table keyRange = ''warehouse'' then
        if kr_Begin keyRange \<ge> kr_End keyRange then
          (\<lparr> pb_Outcome = PutFailed, pb_NativeCode = [], pb_Message = ''empty warehouse key range'' \<rparr>, conn)
        else put_warehouses left_first seed [kr_Begin keyRange..kr_End keyRange - 1] conn
      else (\<lparr> pb_Outcome = PutFailed, pb_NativeCode = [],
              pb_Message = ''unsupported PutBatch table '' @ [CHR 0x27] @ kr_Table keyRange @ [CHR 0x27] \<rparr>, conn))"

section \<open>Warehouse ranges and loader threads\<close>

record TWarehouseRange =
  wr_Start :: int
  wr_End :: int

fun CountWarehouses :: "TWarehouseRange list \<Rightarrow> nat result" where
  "CountWarehouses [] = Inr 0"
| "CountWarehouses (r # rs) =
     (if wr_End r \<le> wr_Start r then Inl (RuntimeError ''invalid warehouse range'')
      else bind_r (i32 (wr_End r - wr_Start r)) (\<lambda>d. map_r (\<lambda>n. nat d + n) (CountWarehouses rs)))"

definition WarehouseInRanges :: "int \<Rightarrow> TWarehouseRange list \<Rightarrow> bool" where
  "WarehouseInRanges warehouseId ranges \<longleftrightarrow> list_ex (\<lambda>r. warehouseId \<ge> wr_Start r \<and> warehouseId < wr_End r) ranges"

definition format_range :: "TWarehouseRange \<Rightarrow> string" where
  "format_range r = ''['' @ show_int (wr_Start r) @ '','' @ show_int (wr_End r) @ '')''"

fun FormatWarehouseRanges :: "TWarehouseRange list \<Rightarrow> string" where
  "FormatWarehouseRanges [] = ''[]''"
| "FormatWarehouseRanges [r] = format_range r"
| "FormatWarehouseRanges (r # rs) = format_range r @ '','' @ FormatWarehouseRanges rs"

definition RangeStartInclusive :: "TWarehouseRange \<Rightarrow> int" where
  "RangeStartInclusive r = wr_Start r"

definition RangeEndInclusive :: "TWarehouseRange \<Rightarrow> int result" where
  "RangeEndInclusive r = i32 (wr_End r - 1)"

definition warehouse_ids :: "TWarehouseRange list \<Rightarrow> int list" where
  "warehouse_ids ranges = concat (map (\<lambda>r. [wr_Start r..wr_End r - 1]) ranges)"

record TImportConfig =
  im_WarehouseRanges :: "TWarehouseRange list"
  im_WarehouseCount :: nat
  im_LoadThreadCount :: nat
  im_Seed :: u64
  im_BatchRows :: int
  im_OwnsGlobalData :: bool

definition MAX_LOADER_THREADS :: nat where
  "MAX_LOADER_THREADS = 100"

definition import_ranges :: "TImportConfig \<Rightarrow> TWarehouseRange list result" where
  "import_ranges config =
     (if im_WarehouseRanges config = [] then
        if im_WarehouseCount config = 0 then Inl (RuntimeError ''Warehouse count must be greater than zero'')
        else map_r (\<lambda>e. [\<lparr> wr_Start = 1, wr_End = e \<rparr>]) (i32 (to_int32 (of_nat (im_WarehouseCount config)) + 1))
      else Inr (im_WarehouseRanges config))"

definition import_threads :: "TImportConfig \<Rightarrow> nat \<Rightarrow> nat \<Rightarrow> nat" where
  "import_threads config cpus assigned =
     (let t = (if im_LoadThreadCount config = 0 then min assigned (min cpus MAX_LOADER_THREADS) else im_LoadThreadCount config)
      in min (max t 1) assigned)"

text \<open>The warehouses of thread \<open>tid\<close>.\<close>

definition thread_share :: "nat \<Rightarrow> int list \<Rightarrow> nat \<Rightarrow> int list" where
  "thread_share threadCount ids tid =
     (let begin' = tid * length ids div threadCount; end' = (tid + 1) * length ids div threadCount in
      take (end' - begin') (drop begin' ids))"

section \<open>Effect of a chain of statements\<close>

lemma copy_rows_result:
  "copy_rows key rs t =
     (if distinct (map key rs) \<and> set (map key rs) \<inter> set (map key t) = {} then Some (t @ rs) else None)"
proof (induction rs arbitrary: t)
  case (Cons r rs)
  show ?case
  proof (cases "key r \<in> set (map key t)")
    case True
    then show ?thesis by (auto simp: insert_row_def)
  next
    case False
    then have "copy_rows key (r # rs) t = copy_rows key rs (t @ [r])" by (simp add: insert_row_def)
    also have "\<dots> = (if distinct (map key rs) \<and> set (map key rs) \<inter> set (map key (t @ [r])) = {} then Some ((t @ [r]) @ rs) else None)"
      by (rule Cons)
    finally show ?thesis using False by auto
  qed
qed simp

definition effect :: "pg_db \<Rightarrow> (pg_db, 'a) io \<Rightarrow> pg_db \<Rightarrow> pqxx_exc + 'a \<times> pg_db" where
  "effect d m w = (case m (clean d w) of (Inl e, s) \<Rightarrow> Inl e | (Inr a, s) \<Rightarrow> Inr (a, the (view s)))"

definition idle :: "pg_db \<Rightarrow> pg_db PgSession" where
  "idle d = \<lparr> ss_disk = d, ss_txn = None, ss_open = True, ss_broken = False, ss_shutdown = False, ss_script = [] \<rparr>"

text \<open>On a session that is served, a chain that returns ends again on such a session, and a chain that
  raises leaves the connection usable unless it raised for a broken connection.\<close>

definition local_io :: "(pg_db, 'a) io \<Rightarrow> bool" where
  "local_io m \<longleftrightarrow>
     (\<forall>d w a s. m (clean d w) = (Inr a, s) \<longrightarrow> (\<exists>w'. s = clean d w')) \<and>
     (\<forall>d w e s. m (clean d w) = (Inl e, s) \<longrightarrow> IsBrokenConnectionException e \<or> s \<lparr> ss_txn := None \<rparr> = idle d)"

lemma local_Inr: "local_io m \<Longrightarrow> m (clean d w) = (Inr a, s) \<Longrightarrow> \<exists>w'. s = clean d w'"
  unfolding local_io_def by blast

named_theorems local_intros \<open>chains of statements are local\<close>

lemma local_exec [local_intros]: "local_io (exec_sql stmt)"
proof -
  have "(raise_in e (Some TxFailed) (clean d w) = (Inl e', s)) \<Longrightarrow> IsBrokenConnectionException e' \<or> s \<lparr> ss_txn := None \<rparr> = idle d" for d w e e' s
    by (auto simp: raise_in_def MarkException_def clean_def idle_def split: if_splits)
  then show ?thesis unfolding local_io_def exec_sql_clean
    by (auto split: sum.splits simp: raise_in_def)
qed

lemma local_ready [local_intros]: "local_io (MakeReadyFuture a)" "local_io (Pair (Inr a))"
  by (auto simp: local_io_def)

lemma local_of_result [local_intros]: "local_io (of_result r)"
  by (auto simp: local_io_def of_result_def clean_def idle_def split: sum.splits)

lemma local_Then [local_intros]:
  assumes m: "local_io m" and k: "\<And>x. local_io (k x)"
  shows "local_io (Then m k)"
proof -
  have "(\<forall>a s. Then m k (clean d w) = (Inr a, s) \<longrightarrow> (\<exists>w'. s = clean d w')) \<and>
      (\<forall>e s. Then m k (clean d w) = (Inl e, s) \<longrightarrow> IsBrokenConnectionException e \<or> s \<lparr> ss_txn := None \<rparr> = idle d)" for d w
  proof -
    obtain x s1 where x: "m (clean d w) = (x, s1)" by fastforce
    show ?thesis
    proof (cases x)
      case (Inl e)
      with m x show ?thesis by (auto simp: Then_def local_io_def)
    next
      case (Inr a)
      then obtain w' where "s1 = clean d w'" using local_Inr [OF m] x by blast
      with Inr x k [of a] show ?thesis by (auto simp: Then_def local_io_def)
    qed
  qed
  then show ?thesis unfolding local_io_def by blast
qed

lemma local_ThenFold [local_intros]: "(\<And>acc x. local_io (step acc x)) \<Longrightarrow> local_io (ThenFold xs acc step)"
  by (induction xs arbitrary: acc) (simp_all add: local_intros)

lemma local_cases [local_intros]:
  "local_io m \<Longrightarrow> (\<And>x. local_io (k x)) \<Longrightarrow> local_io (case y of None \<Rightarrow> m | Some x \<Rightarrow> k x)"
  by (cases y) simp_all

lemma local_case_pair: "(\<And>x y. local_io (h x y)) \<Longrightarrow> local_io (case p of (x, y) \<Rightarrow> h x y)"
  by (cases p) simp

lemma effect_exec [simp]: "effect d (exec_sql stmt) w = stmt w"
  by (simp add: effect_def raise_in_def split: sum.split)

lemma effect_ready [simp]: "effect d (MakeReadyFuture a) w = Inr (a, w)"
  by (simp add: effect_def)

lemma effect_of_result [simp]:
  "effect d (of_result r) w = (case r of Inl e \<Rightarrow> Inl (StdException ''undefined behaviour'') | Inr a \<Rightarrow> Inr (a, w))"
  by (simp add: effect_def of_result_def split: sum.split)

lemma effect_Then:
  assumes "local_io m"
  shows "effect d (Then m k) w = bind_r (effect d m w) (\<lambda>(a, w'). effect d (k a) w')"
proof -
  obtain x s where x: "m (clean d w) = (x, s)" by fastforce
  show ?thesis
  proof (cases x)
    case (Inl e)
    with x show ?thesis by (simp add: effect_def Then_def)
  next
    case (Inr a)
    then obtain w' where "s = clean d w'" using local_Inr [OF assms] x by blast
    with x Inr show ?thesis by (simp add: effect_def Then_def)
  qed
qed

lemma faithful_case_sum [faithful_intros]:
  "(\<And>e. faithful (f e)) \<Longrightarrow> (\<And>x. faithful (g x)) \<Longrightarrow> faithful (case r of Inl e \<Rightarrow> f e | Inr x \<Rightarrow> g x)"
  by (cases r) simp_all

lemma faithful_case_pair: "(\<And>x y. faithful (k x y)) \<Longrightarrow> faithful (case p of (x, y) \<Rightarrow> k x y)"
  by (cases p) simp

lemmas copy_defs =
  copy_warehouse_def copy_district_def copy_stock_def copy_customer_def copy_history_def copy_oorder_def
  copy_new_order_def copy_order_line_def

lemma faithful_copies [faithful_intros]:
  "faithful (copy_warehouse ws)" "faithful (copy_district ds)" "faithful (copy_stock ss)" "faithful (copy_customer cs)"
  "faithful (copy_history hs)" "faithful (copy_oorder os)" "faithful (copy_new_order ns)" "faithful (copy_order_line ls)"
  by (simp_all add: copy_defs faithful_exec_sql)

lemma faithful_in_chunks [faithful_intros]: "(\<And>ids. faithful (copy ids)) \<Longrightarrow> faithful (in_chunks s l b copy)"
  unfolding in_chunks_def by (intro faithful_intros faithful_case_pair)

lemma faithful_populate:
  "faithful (CopyWarehouse seed w)" "faithful (CopyDistricts seed w)" "faithful (CopyStock lf seed w b)"
  "faithful (CopyCustomers seed w d b)" "faithful (CopyHistory seed w d)" "faithful (CopyOrders seed w d)"
  "faithful (DeleteWarehouseChildren w)" "faithful (PopulateWarehouse lf seed w b)" "faithful (LoadItems lf seed b)"
  unfolding CopyWarehouse_def CopyDistricts_def CopyStock_def CopyCustomers_def CopyHistory_def CopyOrders_def
    DeleteWarehouseChildren_def PopulateWarehouse_def LoadItems_def upsert_items_def
  by (intro faithful_intros faithful_exec_sql faithful_case_pair)+

lemma local_copies [local_intros]:
  "local_io (copy_warehouse ws)" "local_io (copy_district ds)" "local_io (copy_stock ss)" "local_io (copy_customer cs)"
  "local_io (copy_history hs)" "local_io (copy_oorder os)" "local_io (copy_new_order ns)" "local_io (copy_order_line ls)"
  by (simp_all add: copy_defs local_exec)

lemma local_in_chunks [local_intros]: "(\<And>ids. local_io (copy ids)) \<Longrightarrow> local_io (in_chunks s l b copy)"
  unfolding in_chunks_def by (intro local_intros local_case_pair)

lemma local_populate:
  "local_io (CopyWarehouse seed w)" "local_io (CopyDistricts seed w)" "local_io (CopyStock lf seed w b)"
  "local_io (CopyCustomers seed w d b)" "local_io (CopyHistory seed w d)" "local_io (CopyOrders seed w d)"
  "local_io (DeleteWarehouseChildren w)" "local_io (PopulateWarehouse lf seed w b)" "local_io (LoadItems lf seed b)"
  unfolding CopyWarehouse_def CopyDistricts_def CopyStock_def CopyCustomers_def CopyHistory_def CopyOrders_def
    DeleteWarehouseChildren_def PopulateWarehouse_def LoadItems_def upsert_items_def
  by (intro local_intros local_case_pair)+

section \<open>Transactions of the loader\<close>

lemma abort_keeps:
  "ss_disk (pqxx_abort s) = ss_disk s \<and> (no_lost_effect (ss_script s) \<longrightarrow> no_lost_effect (ss_script (pqxx_abort s)))"
proof -
  obtain r s1 where n: "next_reply s = (r, s1)" by fastforce
  from next_reply_facts [OF this] show ?thesis by (simp add: pqxx_abort_def n split: reply.split)
qed

lemma commit_script:
  "no_lost_effect (ss_script s) \<Longrightarrow> no_lost_effect (ss_script (snd (pqxx_commit t s)))"
proof -
  assume a: "no_lost_effect (ss_script s)"
  obtain r s1 where n: "next_reply s = (r, s1)" by fastforce
  from next_reply_facts [OF this] a show ?thesis by (simp add: pqxx_commit_def n Let_def split: reply.split txn.split)
qed

lemma load_txn_cases:
  assumes f: "faithful body" and r: "load_txn body s = (x, s')" and n: "no_lost_effect (ss_script s)"
  shows "no_lost_effect (ss_script s') \<and> ss_txn s' = None \<and>
    (case x of Inl e \<Rightarrow> ss_disk s' = ss_disk s
     | Inr u \<Rightarrow> effect (ss_disk s) body (ss_disk s) = Inr ((), ss_disk s'))"
proof -
  let ?s = "s \<lparr> ss_txn := None \<rparr>"
  obtain y s1 where b: "body ?s = (y, s1)" by fastforce
  have d: "ss_disk s1 = ss_disk s" "no_lost_effect (ss_script s1)" using faithful_disk [OF f b] n by simp_all
  have v: "view ?s = Some (ss_disk s)" by (simp add: view_def)
  show ?thesis
  proof (cases y)
    case (Inl e)
    with b r d abort_keeps [of s1] show ?thesis by (auto simp: load_txn_def split: option.splits)
  next
    case (Inr u)
    obtain w' where w': "view s1 = Some w'" "body (clean (ss_disk s) (ss_disk s)) = (Inr u, clean (ss_disk s) w')"
      using faithful_view [OF f] b Inr v by blast
    then have e: "effect (ss_disk s) body (ss_disk s) = Inr ((), w')" by (simp add: effect_def)
    show ?thesis
    proof (cases "ss_txn s1")
      case None
      with w'(1) d have "w' = ss_disk s1" by (simp add: view_def)
      with None Inr b r d e show ?thesis by (auto simp: load_txn_def)
    next
      case (Some t)
      obtain z s2 where c: "pqxx_commit t s1 = (z, s2)" by fastforce
      have x: "x = z" "s' = s2 \<lparr> ss_txn := None \<rparr>" using r b Inr Some c by (auto simp: load_txn_def)
      have "no_lost_effect (ss_script s2)"
        using commit_script [of s1 t] c d(2) by simp
      with pqxx_commit_cases [OF c Some] w'(1) d e x show ?thesis by (cases z) auto
    qed
  qed
qed

text \<open>With every request served, a transaction does what its chain does.\<close>

lemma load_txn_served:
  assumes l: "local_io body" and i: "body (idle d) = body (clean d d)"
  shows "effect d body d = Inr (u, d') \<Longrightarrow> load_txn body (idle d) = (Inr (), idle d')"
    "effect d body d = Inl e \<Longrightarrow> \<not> IsBrokenConnectionException e \<Longrightarrow> load_txn body (idle d) = (Inl e, idle d)"
proof -
  have s: "(idle d) \<lparr> ss_txn := None \<rparr> = idle d" by (simp add: idle_def)
  obtain y s1 where b: "body (clean d d) = (y, s1)" by fastforce
  show "load_txn body (idle d) = (Inr (), idle d')" if e: "effect d body d = Inr (u, d')"
  proof -
    obtain v where y: "y = Inr v" using e b by (cases y) (simp_all add: effect_def)
    then obtain w' where "s1 = clean d w'" using local_Inr [OF l] b by blast
    with b i s y e show ?thesis
      by (simp add: load_txn_def effect_def) (simp add: clean_def idle_def pqxx_commit_def next_reply_def)
  qed
  show "load_txn body (idle d) = (Inl e, idle d)" if e: "effect d body d = Inl e" "\<not> IsBrokenConnectionException e"
  proof -
    have y: "y = Inl e" using e b by (cases y) (simp_all add: effect_def)
    then have "s1 \<lparr> ss_txn := None \<rparr> = idle d" using l b e(2) unfolding local_io_def by blast
    then have s1: "s1 = (idle d) \<lparr> ss_txn := ss_txn s1 \<rparr>" by (cases s1) (simp add: idle_def)
    show ?thesis
    proof (cases "ss_txn s1")
      case None
      with s1 have s1': "s1 = idle d" by (simp add: idle_def)
      have "ss_txn (idle d) = None" by (simp add: idle_def)
      with b i s y s1' show ?thesis by (simp only: load_txn_def s prod.case sum.case option.case)
    next
      case (Some t)
      have "(pqxx_abort s1) \<lparr> ss_txn := None \<rparr> = idle d"
        by (subst s1) (simp add: idle_def pqxx_abort_def next_reply_def)
      with Some b i s y show ?thesis by (simp add: load_txn_def)
    qed
  qed
qed

lemma exec_sql_idle: "exec_sql stmt (idle d) = exec_sql stmt (clean d d)"
  by (simp add: exec_sql_def idle_def clean_def next_reply_def CheckShutdown_def raise_in_def MarkException_def split: sum.split)

lemma Then_idle: "m (idle d) = m (clean d d) \<Longrightarrow> Then m k (idle d) = Then m k (clean d d)"
  by (simp add: Then_def)

lemma starts_idle:
  "PopulateWarehouse lf seed w b (idle d) = PopulateWarehouse lf seed w b (clean d d)"
  "Then (DeleteWarehouseChildren w) k (idle d) = Then (DeleteWarehouseChildren w) k (clean d d)"
  "LoadItems lf seed b (idle d) = LoadItems lf seed b (clean d d)"
  unfolding PopulateWarehouse_def CopyWarehouse_def copy_warehouse_def DeleteWarehouseChildren_def LoadItems_def
  by (intro Then_idle exec_sql_idle)+

section \<open>Generated tables of a warehouse\<close>

definition gen_districts :: "u64 \<Rightarrow> int \<Rightarrow> district_row list" where
  "gen_districts seed w = map (\<lambda>d. district_of (GenerateDistrict seed w d)) [DISTRICT_LOW_ID..DISTRICT_HIGH_ID]"

definition gen_stock :: "bool \<Rightarrow> u64 \<Rightarrow> int \<Rightarrow> stock_row list" where
  "gen_stock lf seed w = map (\<lambda>i. stock_of (GenerateStock lf seed w i)) [1..ITEM_COUNT]"

definition gen_customers :: "u64 \<Rightarrow> int \<Rightarrow> int \<Rightarrow> customer_row list" where
  "gen_customers seed w d = map (\<lambda>c. customer_of (the (GenerateCustomer seed w d c))) [1..CUSTOMERS_PER_DISTRICT]"

definition gen_history :: "u64 \<Rightarrow> int \<Rightarrow> int \<Rightarrow> history_row list" where
  "gen_history seed w d = map (\<lambda>c. history_of (GenerateHistory seed w d c)) [1..CUSTOMERS_PER_DISTRICT]"

definition gen_orders :: "u64 \<Rightarrow> int \<Rightarrow> int \<Rightarrow> oorder_row list" where
  "gen_orders seed w d = map (\<lambda>i. oorder_of (initial_order seed w d i)) [1..CUSTOMERS_PER_DISTRICT]"

definition gen_new_orders :: "int \<Rightarrow> int \<Rightarrow> new_order_row list" where
  "gen_new_orders w d = map (\<lambda>i. new_order_of (GenerateNewOrder w d i)) [FIRST_UNPROCESSED_O_ID..CUSTOMERS_PER_DISTRICT]"

definition gen_lines :: "u64 \<Rightarrow> int \<Rightarrow> int \<Rightarrow> order_line_row list" where
  "gen_lines seed w d = map order_line_of (concat (map (initial_lines seed w d) [1..CUSTOMERS_PER_DISTRICT]))"

definition add_district :: "u64 \<Rightarrow> int \<Rightarrow> int \<Rightarrow> pg_db \<Rightarrow> pg_db" where
  "add_district seed w d db = db \<lparr> customer := customer db @ gen_customers seed w d, history := history db @ gen_history seed w d,
     oorder := oorder db @ gen_orders seed w d, new_order := new_order db @ gen_new_orders w d,
     order_line := order_line db @ gen_lines seed w d \<rparr>"

definition add_warehouse :: "bool \<Rightarrow> u64 \<Rightarrow> int \<Rightarrow> pg_db \<Rightarrow> pg_db" where
  "add_warehouse lf seed w db =
     fold (add_district seed w) [DISTRICT_LOW_ID..DISTRICT_HIGH_ID]
       (db \<lparr> warehouse := warehouse db @ [warehouse_of (GenerateWarehouse seed w)],
             district := district db @ gen_districts seed w, stock := stock db @ gen_stock lf seed w \<rparr>)"

definition delete_warehouse :: "int \<Rightarrow> pg_db \<Rightarrow> pg_db" where
  "delete_warehouse w db = db \<lparr>
     order_line := filter (\<lambda>l. ol_w_id l \<noteq> w) (order_line db), new_order := filter (\<lambda>n. no_w_id n \<noteq> w) (new_order db),
     oorder := filter (\<lambda>x. o_w_id x \<noteq> w) (oorder db), history := filter (\<lambda>h. \<not> (h_w_id h = w \<or> h_c_w_id h = w)) (history db),
     customer := filter (\<lambda>c. c_w_id c \<noteq> w) (customer db), district := filter (\<lambda>d. d_w_id d \<noteq> w) (district db),
     stock := filter (\<lambda>s. s_w_id s \<noteq> w) (stock db), warehouse := filter (\<lambda>r. w_id r \<noteq> w) (warehouse db) \<rparr>"

section \<open>Chunks\<close>

lemma load_chunks_cover:
  assumes "1 \<le> chunk" "lst + chunk < 2 ^ 31" "1 \<le> start"
  shows "\<exists>cs. load_chunks start lst chunk = Inr cs \<and> concat (map (\<lambda>(s, e). [s..e]) cs) = [start..lst]"
  using assms
proof (induction start lst chunk rule: load_chunks.induct)
  case (1 start lst chunk)
  show ?case
  proof (cases "start \<le> lst")
    case False
    then show ?thesis by (subst load_chunks.simps) simp
  next
    case True
    then have ok: "i32 (start + chunk) = Inr (start + chunk)" using "1.prems" by (intro i32_in) (simp add: in_i32_def)
    obtain cs where cs: "load_chunks (start + chunk) lst chunk = Inr cs" "concat (map (\<lambda>(s, e). [s..e]) cs) = [start + chunk..lst]"
      using "1.IH" True "1.prems" by auto
    have split: "[start..min (start + chunk - 1) lst] @ [start + chunk..lst] = [start..lst]"
    proof (cases "start + chunk - 1 \<le> lst")
      case T: True
      then show ?thesis using upto_split2 [of start "start + chunk - 1" lst] "1.prems" by (simp add: min_def)
    next
      case F: False
      then show ?thesis by (simp add: min_def)
    qed
    show ?thesis using True "1.prems" ok cs split by (subst load_chunks.simps) simp
  qed
qed

definition batch_ok :: "int \<Rightarrow> bool" where
  "batch_ok batchRows \<longleftrightarrow> batchRows < 2 ^ 31 - ITEM_COUNT"

lemma effective_ok:
  assumes "batch_ok b"
  shows "1 \<le> EffectiveLoadBatchRows b" "ITEM_COUNT + EffectiveLoadBatchRows b < 2 ^ 31" "CUSTOMERS_PER_DISTRICT + EffectiveLoadBatchRows b < 2 ^ 31"
  using assms by (auto simp: batch_ok_def EffectiveLoadBatchRows_def DEFAULT_LOAD_BATCH_ROWS_def ITEM_COUNT_def CUSTOMERS_PER_DISTRICT_def)

text \<open>A chain that has the effect \<open>f\<close> when \<open>P\<close> holds, and otherwise raises a unique violation.\<close>

definition loads :: "(pg_db, unit) io \<Rightarrow> (pg_db \<Rightarrow> bool) \<Rightarrow> (pg_db \<Rightarrow> pg_db) \<Rightarrow> bool" where
  "loads m P f \<longleftrightarrow> local_io m \<and> (\<forall>d w. effect d m w = (if P w then Inr ((), f w) else Inl UniqueViolation))"

lemma loads_Then:
  assumes "loads m P f" "loads k Q g"
  shows "loads (Then m (\<lambda>_. k)) (\<lambda>w. P w \<and> Q (f w)) (\<lambda>w. g (f w))"
proof -
  have "local_io (Then m (\<lambda>_. k))" using assms by (intro local_Then) (simp_all add: loads_def)
  then show ?thesis using assms by (simp add: effect_Then loads_def)
qed

fun chain :: "('x \<Rightarrow> pg_db \<Rightarrow> bool) \<Rightarrow> ('x \<Rightarrow> pg_db \<Rightarrow> pg_db) \<Rightarrow> 'x list \<Rightarrow> pg_db \<Rightarrow> bool" where
  "chain P f [] w \<longleftrightarrow> True"
| "chain P f (x # xs) w \<longleftrightarrow> P x w \<and> chain P f xs (f x w)"

lemma loads_fold:
  assumes "\<And>x. x \<in> set xs \<Longrightarrow> loads (step x) (P x) (f x)"
  shows "loads (ThenFold xs () (\<lambda>_. step)) (chain P f xs) (fold f xs)"
  using assms
proof (induction xs)
  case Nil
  show ?case by (simp add: loads_def local_ready effect_def)
next
  case (Cons x xs)
  have "loads (Then (step x) (\<lambda>_. ThenFold xs () (\<lambda>_. step))) (\<lambda>w. P x w \<and> chain P f xs (f x w)) (\<lambda>w. fold f xs (f x w))"
    by (rule loads_Then) (use Cons in simp_all)
  then show ?case by (simp add: comp_def fun_eq_iff [symmetric])
qed

definition fresh :: "('r \<Rightarrow> 'k) \<Rightarrow> 'r list \<Rightarrow> 'r list \<Rightarrow> bool" where
  "fresh key rs t \<longleftrightarrow> distinct (map key rs) \<and> set (map key rs) \<inter> set (map key t) = {}"

lemma fresh_append: "fresh key (rs @ qs) t \<longleftrightarrow> fresh key rs t \<and> fresh key qs (t @ rs)"
  by (auto simp: fresh_def)

lemma fresh_Nil [simp]: "fresh key [] t"
  by (simp add: fresh_def)

section \<open>Populating appends the generated tables\<close>

lemma loads_copies:
  "loads (copy_warehouse ws) (\<lambda>db. fresh w_id ws (warehouse db)) (\<lambda>db. db \<lparr> warehouse := warehouse db @ ws \<rparr>)"
  "loads (copy_district ds) (\<lambda>db. fresh d_key ds (district db)) (\<lambda>db. db \<lparr> district := district db @ ds \<rparr>)"
  "loads (copy_stock ss) (\<lambda>db. fresh s_key ss (stock db)) (\<lambda>db. db \<lparr> stock := stock db @ ss \<rparr>)"
  "loads (copy_customer cs) (\<lambda>db. fresh c_key cs (customer db)) (\<lambda>db. db \<lparr> customer := customer db @ cs \<rparr>)"
  "loads (copy_history hs) (\<lambda>db. True) (\<lambda>db. db \<lparr> history := history db @ hs \<rparr>)"
  "loads (copy_oorder os) (\<lambda>db. fresh o_key os (oorder db)) (\<lambda>db. db \<lparr> oorder := oorder db @ os \<rparr>)"
  "loads (copy_new_order ns) (\<lambda>db. fresh no_key ns (new_order db)) (\<lambda>db. db \<lparr> new_order := new_order db @ ns \<rparr>)"
  "loads (copy_order_line ls) (\<lambda>db. fresh ol_key ls (order_line db)) (\<lambda>db. db \<lparr> order_line := order_line db @ ls \<rparr>)"
  unfolding loads_def copy_defs
  by (simp_all add: copied_def copy_rows_result fresh_def local_exec)

lemma effect_in_chunks:
  assumes "1 \<le> EffectiveLoadBatchRows b" "l + EffectiveLoadBatchRows b < 2 ^ 31"
  obtains cs where "concat (map (\<lambda>(s, e). [s..e]) cs) = [1..l]"
    "\<And>d w copy. effect d (in_chunks 1 l b copy) w = effect d (ThenFold cs () (\<lambda>_ (s, e). copy [s..e])) w"
proof -
  obtain cs where "load_chunks 1 l (EffectiveLoadBatchRows b) = Inr cs" "concat (map (\<lambda>(s, e). [s..e]) cs) = [1..l]"
    using load_chunks_cover [OF assms] by auto
  then show ?thesis
    by (intro that [of cs]) (simp_all add: in_chunks_def effect_Then local_of_result)
qed

lemma chunks_stock:
  "fold (\<lambda>(s, e) db. db \<lparr> stock := stock db @ map f [s..e] \<rparr>) cs db =
     db \<lparr> stock := stock db @ map f (concat (map (\<lambda>(s, e). [s..e]) cs)) \<rparr>"
  "chain (\<lambda>(s, e) db. fresh s_key (map f [s..e]) (stock db)) (\<lambda>(s, e) db. db \<lparr> stock := stock db @ map f [s..e] \<rparr>) cs db \<longleftrightarrow>
     fresh s_key (map f (concat (map (\<lambda>(s, e). [s..e]) cs))) (stock db)"
  by (induction cs arbitrary: db) (auto simp: fresh_append)

lemma chunks_customer:
  "fold (\<lambda>(s, e) db. db \<lparr> customer := customer db @ map f [s..e] \<rparr>) cs db =
     db \<lparr> customer := customer db @ map f (concat (map (\<lambda>(s, e). [s..e]) cs)) \<rparr>"
  "chain (\<lambda>(s, e) db. fresh c_key (map f [s..e]) (customer db)) (\<lambda>(s, e) db. db \<lparr> customer := customer db @ map f [s..e] \<rparr>) cs db \<longleftrightarrow>
     fresh c_key (map f (concat (map (\<lambda>(s, e). [s..e]) cs))) (customer db)"
  by (induction cs arbitrary: db) (auto simp: fresh_append)

lemma loads_stock:
  assumes "batch_ok b"
  shows "loads (CopyStock lf seed w b) (\<lambda>db. fresh s_key (gen_stock lf seed w) (stock db))
    (\<lambda>db. db \<lparr> stock := stock db @ gen_stock lf seed w \<rparr>)"
proof -
  obtain cs where cs: "concat (map (\<lambda>(s, e). [s..e]) cs) = [1..ITEM_COUNT]"
    "\<And>d v copy. effect d (in_chunks 1 ITEM_COUNT b copy) v = effect d (ThenFold cs () (\<lambda>_ (s, e). copy [s..e])) v"
    using effect_in_chunks [OF effective_ok(1,2) [OF assms]] by metis
  let ?f = "\<lambda>i. stock_of (GenerateStock lf seed w i)"
  have "loads (ThenFold cs () (\<lambda>_ (s, e). copy_stock (map ?f [s..e])))
      (chain (\<lambda>(s, e) db. fresh s_key (map ?f [s..e]) (stock db)) (\<lambda>(s, e) db. db \<lparr> stock := stock db @ map ?f [s..e] \<rparr>) cs)
      (fold (\<lambda>(s, e) db. db \<lparr> stock := stock db @ map ?f [s..e] \<rparr>) cs)"
    by (rule loads_fold) (auto simp: loads_copies)
  then show ?thesis
    unfolding loads_def chunks_stock cs(1) CopyStock_def cs(2) gen_stock_def [symmetric]
    using local_populate(3) [of lf seed w b] by (simp add: CopyStock_def)
qed

lemma those_map_Some: "(\<And>x. x \<in> set xs \<Longrightarrow> f x = Some (g x)) \<Longrightarrow> those (map f xs) = Some (map g xs)"
  by (induction xs) simp_all

lemma loads_customers:
  assumes "batch_ok b"
  shows "loads (CopyCustomers seed w dd b) (\<lambda>db. fresh c_key (gen_customers seed w dd) (customer db))
    (\<lambda>db. db \<lparr> customer := customer db @ gen_customers seed w dd \<rparr>)"
proof -
  obtain cs where cs: "concat (map (\<lambda>(s, e). [s..e]) cs) = [1..CUSTOMERS_PER_DISTRICT]"
    "\<And>d v copy. effect d (in_chunks 1 CUSTOMERS_PER_DISTRICT b copy) v = effect d (ThenFold cs () (\<lambda>_ (s, e). copy [s..e])) v"
    using effect_in_chunks [OF effective_ok(1,3) [OF assms]] by metis
  let ?f = "\<lambda>c. customer_of (the (GenerateCustomer seed w dd c))"
  let ?copy = "\<lambda>ids. case those (map (\<lambda>cid. GenerateCustomer seed w dd cid) ids) of
         None \<Rightarrow> of_result (Inl SignedOverflow) | Some rows \<Rightarrow> copy_customer (map customer_of rows)"
  have step: "loads (case x of (s, e) \<Rightarrow> ?copy [s..e]) (case x of (s, e) \<Rightarrow> \<lambda>db. fresh c_key (map ?f [s..e]) (customer db))
      (case x of (s, e) \<Rightarrow> \<lambda>db. db \<lparr> customer := customer db @ map ?f [s..e] \<rparr>)" if x: "x \<in> set cs" for x
  proof -
    obtain s e where se: "x = (s, e)" by fastforce
    have "set [s..e] \<subseteq> set [1..CUSTOMERS_PER_DISTRICT]" unfolding cs(1) [symmetric] using x se by force
    then have "\<forall>c \<in> set [s..e]. 1 \<le> c" by auto
    then have "those (map (GenerateCustomer seed w dd) [s..e]) = Some (map (\<lambda>c. the (GenerateCustomer seed w dd c)) [s..e])"
      using GenerateCustomer_total [of _ seed w dd] by (intro those_map_Some) fastforce
    with se show ?thesis using loads_copies(4) [of "map ?f [s..e]"] by (simp add: comp_def)
  qed
  have "loads (ThenFold cs () (\<lambda>_ (s, e). ?copy [s..e]))
      (chain (\<lambda>(s, e) db. fresh c_key (map ?f [s..e]) (customer db)) (\<lambda>(s, e) db. db \<lparr> customer := customer db @ map ?f [s..e] \<rparr>) cs)
      (fold (\<lambda>(s, e) db. db \<lparr> customer := customer db @ map ?f [s..e] \<rparr>) cs)"
    by (rule loads_fold) (rule step)
  then show ?thesis
    unfolding loads_def chunks_customer cs(1) CopyCustomers_def cs(2) gen_customers_def [symmetric]
    using local_populate(4) [of seed w dd b] by (simp add: CopyCustomers_def)
qed

definition district_fresh :: "u64 \<Rightarrow> int \<Rightarrow> int \<Rightarrow> pg_db \<Rightarrow> bool" where
  "district_fresh seed w d db \<longleftrightarrow> fresh c_key (gen_customers seed w d) (customer db) \<and>
     fresh o_key (gen_orders seed w d) (oorder db) \<and> fresh no_key (gen_new_orders w d) (new_order db) \<and>
     fresh ol_key (gen_lines seed w d) (order_line db)"

lemma loads_cong: "loads m P f \<Longrightarrow> P = Q \<Longrightarrow> f = g \<Longrightarrow> loads m Q g"
  by simp

lemma loads_district:
  assumes "batch_ok b"
  shows "loads (Then (CopyCustomers seed w d b) (\<lambda>_. Then (CopyHistory seed w d) (\<lambda>_. CopyOrders seed w d)))
    (district_fresh seed w d) (add_district seed w d)"
  unfolding CopyHistory_def CopyOrders_def
  by (rule loads_cong [OF loads_Then [OF loads_customers [OF assms] loads_Then [OF loads_copies(5)
        loads_Then [OF loads_copies(6) loads_Then [OF loads_copies(7) loads_copies(8)]]]]])
    (simp_all add: fun_eq_iff add_district_def district_fresh_def gen_history_def gen_orders_def gen_new_orders_def gen_lines_def)

definition add_top :: "bool \<Rightarrow> u64 \<Rightarrow> int \<Rightarrow> pg_db \<Rightarrow> pg_db" where
  "add_top lf seed w db = db \<lparr> warehouse := warehouse db @ [warehouse_of (GenerateWarehouse seed w)],
     district := district db @ gen_districts seed w, stock := stock db @ gen_stock lf seed w \<rparr>"

definition warehouse_fresh :: "bool \<Rightarrow> u64 \<Rightarrow> int \<Rightarrow> pg_db \<Rightarrow> bool" where
  "warehouse_fresh lf seed w db \<longleftrightarrow> fresh w_id [warehouse_of (GenerateWarehouse seed w)] (warehouse db) \<and>
     fresh d_key (gen_districts seed w) (district db) \<and> fresh s_key (gen_stock lf seed w) (stock db) \<and>
     chain (district_fresh seed w) (add_district seed w) [DISTRICT_LOW_ID..DISTRICT_HIGH_ID] (add_top lf seed w db)"

lemma loads_warehouse:
  assumes "batch_ok b"
  shows "loads (PopulateWarehouse lf seed w b) (warehouse_fresh lf seed w) (add_warehouse lf seed w)"
  unfolding PopulateWarehouse_def CopyWarehouse_def CopyDistricts_def
  by (rule loads_cong [OF loads_Then [OF loads_copies(1) loads_Then [OF loads_copies(2)
        loads_Then [OF loads_stock [OF assms] loads_fold [OF loads_district [OF assms]]]]]])
    (simp_all add: fun_eq_iff add_warehouse_def warehouse_fresh_def add_top_def gen_districts_def)

section \<open>Populating an absent warehouse succeeds\<close>

definition warehouse_absent :: "int \<Rightarrow> pg_db \<Rightarrow> bool" where
  "warehouse_absent w db \<longleftrightarrow> (\<forall>r \<in> set (warehouse db). w_id r \<noteq> w) \<and> (\<forall>r \<in> set (district db). d_w_id r \<noteq> w) \<and>
     (\<forall>r \<in> set (stock db). s_w_id r \<noteq> w) \<and> (\<forall>r \<in> set (customer db). c_w_id r \<noteq> w) \<and>
     (\<forall>r \<in> set (history db). h_w_id r \<noteq> w \<and> h_c_w_id r \<noteq> w) \<and> (\<forall>r \<in> set (oorder db). o_w_id r \<noteq> w) \<and>
     (\<forall>r \<in> set (new_order db). no_w_id r \<noteq> w) \<and> (\<forall>r \<in> set (order_line db). ol_w_id r \<noteq> w)"

definition district_absent :: "int \<Rightarrow> int \<Rightarrow> pg_db \<Rightarrow> bool" where
  "district_absent w d db \<longleftrightarrow> (\<forall>r \<in> set (customer db). (c_w_id r, c_d_id r) \<noteq> (w, d)) \<and>
     (\<forall>r \<in> set (oorder db). (o_w_id r, o_d_id r) \<noteq> (w, d)) \<and> (\<forall>r \<in> set (new_order db). (no_w_id r, no_d_id r) \<noteq> (w, d)) \<and>
     (\<forall>r \<in> set (order_line db). (ol_w_id r, ol_d_id r) \<noteq> (w, d))"

lemma customer_row_facts:
  assumes "1 \<le> c"
  shows "c_w_id (customer_of (the (GenerateCustomer seed w d c))) = w" "c_d_id (customer_of (the (GenerateCustomer seed w d c))) = d"
    "c_id (customer_of (the (GenerateCustomer seed w d c))) = c"
    "c_balance (customer_of (the (GenerateCustomer seed w d c))) = - 1000"
    "c_ytd_payment (customer_of (the (GenerateCustomer seed w d c))) = 1000"
  using GenerateCustomer_total [OF assms, of seed w d]
  by (auto simp: customer_of_def CUSTOMER_INITIAL_BALANCE_def CUSTOMER_INITIAL_YTD_PAYMENT_def Money_Scale_def)

lemma gen_keys:
  "map d_key (gen_districts seed w) = map (\<lambda>d. (w, d)) [DISTRICT_LOW_ID..DISTRICT_HIGH_ID]"
  "map s_key (gen_stock lf seed w) = map (\<lambda>i. (w, i)) [1..ITEM_COUNT]"
  "map c_key (gen_customers seed w d) = map (\<lambda>c. (w, d, c)) [1..CUSTOMERS_PER_DISTRICT]"
  "map o_key (gen_orders seed w d) = map (\<lambda>i. (w, d, i)) [1..CUSTOMERS_PER_DISTRICT]"
  "map no_key (gen_new_orders w d) = map (\<lambda>i. (w, d, i)) [FIRST_UNPROCESSED_O_ID..CUSTOMERS_PER_DISTRICT]"
  by (simp_all add: gen_districts_def gen_stock_def gen_customers_def gen_orders_def gen_new_orders_def d_key_def district_of_def
      s_key_def stock_of_def c_key_def customer_row_facts o_key_def oorder_of_def initial_order_def no_key_def new_order_of_def
      GenerateNewOrder_def)

definition line_keys :: "u64 \<Rightarrow> int \<Rightarrow> int \<Rightarrow> int \<Rightarrow> ((int \<times> int \<times> int) \<times> int) list" where
  "line_keys seed w d i = map (\<lambda>n. ((w, d, i), n)) [1..go_OlCnt (initial_order seed w d i)]"

lemma initial_lines_keys: "map (\<lambda>l. ol_key (order_line_of l)) (initial_lines seed w d i) = line_keys seed w d i"
proof -
  have "(ol_key (order_line_of l)) = ((w, d, i), gl_Number l)" if "l \<in> set (initial_lines seed w d i)" for l
    using that GenerateOrderLines_fields(1-3) unfolding initial_lines_def Let_def ol_key_def ol_order_def order_line_of_def by auto
  then have "map (\<lambda>l. ol_key (order_line_of l)) (initial_lines seed w d i) = map (\<lambda>l. ((w, d, i), gl_Number l)) (initial_lines seed w d i)"
    by simp
  also have "\<dots> = map (\<lambda>n. ((w, d, i), n)) (map gl_Number (initial_lines seed w d i))" by simp
  finally show ?thesis
    unfolding initial_lines_def Let_def GenerateOrderLines_numbers line_keys_def by simp
qed

lemma gen_lines_keys: "map ol_key (gen_lines seed w d) = concat (map (line_keys seed w d) [1..CUSTOMERS_PER_DISTRICT])"
  by (simp add: gen_lines_def map_concat comp_def initial_lines_keys del: upto.simps)

lemma distinct_line_keys: "distinct xs \<Longrightarrow> distinct (concat (map (line_keys seed w d) xs))"
  by (induction xs) (auto simp: line_keys_def distinct_map inj_on_def)

lemma gen_keys_distinct:
  "distinct (map d_key (gen_districts seed w))" "distinct (map s_key (gen_stock lf seed w))"
  "distinct (map c_key (gen_customers seed w d))" "distinct (map o_key (gen_orders seed w d))"
  "distinct (map no_key (gen_new_orders w d))" "distinct (map ol_key (gen_lines seed w d))"
  unfolding gen_keys gen_lines_keys by (simp_all add: distinct_map inj_on_def distinct_line_keys)

lemma gen_lines_order: "l \<in> set (gen_lines seed w d) \<Longrightarrow> ol_w_id l = w \<and> ol_d_id l = d"
proof -
  assume "l \<in> set (gen_lines seed w d)"
  then have "ol_key l \<in> set (concat (map (line_keys seed w d) [1..CUSTOMERS_PER_DISTRICT]))" unfolding gen_lines_keys [symmetric] by simp
  then show ?thesis by (auto simp: line_keys_def ol_key_def ol_order_def)
qed

lemma gen_rows_home:
  "r \<in> set (gen_districts seed w) \<Longrightarrow> d_w_id r = w" "s \<in> set (gen_stock lf seed w) \<Longrightarrow> s_w_id s = w"
  "c \<in> set (gen_customers seed w d) \<Longrightarrow> c_w_id c = w \<and> c_d_id c = d"
  "x \<in> set (gen_orders seed w d) \<Longrightarrow> o_w_id x = w \<and> o_d_id x = d"
  "n \<in> set (gen_new_orders w d) \<Longrightarrow> no_w_id n = w \<and> no_d_id n = d"
  "h \<in> set (gen_history seed w d) \<Longrightarrow> h_w_id h = w \<and> h_c_w_id h = w \<and> h_d_id h = d \<and> h_c_d_id h = d"
  by (auto simp: gen_districts_def gen_stock_def gen_customers_def gen_orders_def gen_new_orders_def gen_history_def
      district_of_def stock_of_def customer_row_facts oorder_of_def initial_order_def new_order_of_def GenerateNewOrder_def
      history_of_def)

lemma freshI: "distinct (map key rs) \<Longrightarrow> (\<And>r q. r \<in> set rs \<Longrightarrow> q \<in> set t \<Longrightarrow> key r \<noteq> key q) \<Longrightarrow> fresh key rs t"
  by (auto simp: fresh_def)

lemma district_absentD:
  assumes "district_absent w d db"
  shows "q1 \<in> set (customer db) \<Longrightarrow> (c_w_id q1, c_d_id q1) \<noteq> (w, d)" "q2 \<in> set (oorder db) \<Longrightarrow> (o_w_id q2, o_d_id q2) \<noteq> (w, d)"
    "q3 \<in> set (new_order db) \<Longrightarrow> (no_w_id q3, no_d_id q3) \<noteq> (w, d)"
    "q4 \<in> set (order_line db) \<Longrightarrow> (ol_w_id q4, ol_d_id q4) \<noteq> (w, d)"
  using assms unfolding district_absent_def by blast+

lemma district_absent_fresh:
  assumes "district_absent w d db"
  shows "district_fresh seed w d db"
  unfolding district_fresh_def
proof (intro conjI freshI)
  show "c_key r \<noteq> c_key q" if "r \<in> set (gen_customers seed w d)" "q \<in> set (customer db)" for r q
    using district_absentD(1) [OF assms that(2)] gen_rows_home(3) [OF that(1)] by (auto simp: c_key_def)
  show "o_key r \<noteq> o_key q" if "r \<in> set (gen_orders seed w d)" "q \<in> set (oorder db)" for r q
    using district_absentD(2) [OF assms that(2)] gen_rows_home(4) [OF that(1)] by (auto simp: o_key_def)
  show "no_key r \<noteq> no_key q" if "r \<in> set (gen_new_orders w d)" "q \<in> set (new_order db)" for r q
    using district_absentD(3) [OF assms that(2)] gen_rows_home(5) [OF that(1)] by (auto simp: no_key_def)
  show "ol_key r \<noteq> ol_key q" if "r \<in> set (gen_lines seed w d)" "q \<in> set (order_line db)" for r q
    using district_absentD(4) [OF assms that(2)] gen_lines_order [OF that(1)] by (auto simp: ol_key_def ol_order_def)
qed (simp_all add: gen_keys_distinct)

lemma district_absent_other:
  assumes "district_absent w e db" "d \<noteq> e"
  shows "district_absent w e (add_district seed w d db)"
  using assms gen_rows_home(3,4) [of _ seed w d] gen_rows_home(5) [of _ w d] gen_lines_order [of _ seed w d]
  by (simp add: district_absent_def add_district_def ball_Un)

lemma chain_districts:
  "distinct ds \<Longrightarrow> \<forall>d \<in> set ds. district_absent w d db \<Longrightarrow> chain (district_fresh seed w) (add_district seed w) ds db"
proof (induction ds arbitrary: db)
  case (Cons d ds)
  have "\<forall>e \<in> set ds. district_absent w e (add_district seed w d db)"
    using Cons.prems by (auto intro: district_absent_other)
  with Cons show ?case by (simp add: district_absent_fresh)
qed simp

lemma warehouse_absentD:
  assumes "warehouse_absent w db"
  shows "q1 \<in> set (warehouse db) \<Longrightarrow> w_id q1 \<noteq> w" "q2 \<in> set (district db) \<Longrightarrow> d_w_id q2 \<noteq> w" "q3 \<in> set (stock db) \<Longrightarrow> s_w_id q3 \<noteq> w"
    "district_absent w d (add_top lf seed w db)"
  using assms unfolding warehouse_absent_def district_absent_def add_top_def by auto

lemma warehouse_absent_fresh:
  assumes "warehouse_absent w db"
  shows "warehouse_fresh lf seed w db"
  unfolding warehouse_fresh_def
proof (intro conjI freshI)
  show "w_id r \<noteq> w_id q" if "r \<in> set [warehouse_of (GenerateWarehouse seed w)]" "q \<in> set (warehouse db)" for r q
    using warehouse_absentD(1) [OF assms that(2)] that(1) by (simp add: warehouse_of_def)
  show "d_key r \<noteq> d_key q" if "r \<in> set (gen_districts seed w)" "q \<in> set (district db)" for r q
    using warehouse_absentD(2) [OF assms that(2)] gen_rows_home(1) [OF that(1)] by (simp add: d_key_def)
  show "s_key r \<noteq> s_key q" if "r \<in> set (gen_stock lf seed w)" "q \<in> set (stock db)" for r q
    using warehouse_absentD(3) [OF assms that(2)] gen_rows_home(2) [OF that(1)] by (simp add: s_key_def)
  show "chain (district_fresh seed w) (add_district seed w) [DISTRICT_LOW_ID..DISTRICT_HIGH_ID] (add_top lf seed w db)"
    using warehouse_absentD(4) [OF assms] by (intro chain_districts) simp_all
qed (simp_all add: gen_keys_distinct)

lemma delete_absent: "warehouse_absent w (delete_warehouse w db)"
  by (simp add: warehouse_absent_def delete_warehouse_def)

lemma warehouse_fresh_row: "warehouse_fresh lf seed w db \<Longrightarrow> \<forall>r \<in> set (warehouse db). w_id r \<noteq> w"
  by (auto simp: warehouse_fresh_def fresh_def warehouse_of_def)

section \<open>Loading a warehouse\<close>

lemma effect_delete: "effect d (Then (DeleteWarehouseChildren w) k) db = effect d (k ()) (delete_warehouse w db)"
  by (simp add: effect_Then local_populate(7))
    (simp add: DeleteWarehouseChildren_def effect_Then local_exec delete_warehouse_def)

lemma duplicate_key: "IsDuplicateKeyError UniqueViolation"
  by (simp add: IsDuplicateKeyError_def UniqueViolation_def)

lemma put_warehouse_served:
  assumes "batch_ok b"
  shows "PutWarehouseIdempotent lf seed w b (idle db) =
    (OkResult, idle (add_warehouse lf seed w (if warehouse_fresh lf seed w db then db else delete_warehouse w db)))"
proof -
  let ?add = "add_warehouse lf seed w"
  have e: "effect db (PopulateWarehouse lf seed w b) db' = (if warehouse_fresh lf seed w db' then Inr ((), ?add db') else Inl UniqueViolation)" for db db'
    using loads_warehouse [OF assms, of lf seed w] by (simp add: loads_def)
  have nb: "\<not> IsBrokenConnectionException UniqueViolation" by (simp add: UniqueViolation_def)
  show ?thesis
  proof (cases "warehouse_fresh lf seed w db")
    case True
    then have "load_txn (PopulateWarehouse lf seed w b) (idle db) = (Inr (), idle (?add db))"
      by (intro load_txn_served(1) local_populate starts_idle) (simp add: e)
    with True show ?thesis by (simp add: PutWarehouseIdempotent_def)
  next
    case False
    then have 1: "load_txn (PopulateWarehouse lf seed w b) (idle db) = (Inl UniqueViolation, idle db)"
      by (intro load_txn_served(2) local_populate starts_idle) (simp_all add: e nb)
    have "load_txn (Then (DeleteWarehouseChildren w) (\<lambda>_. PopulateWarehouse lf seed w b)) (idle db)
        = (Inr (), idle (?add (delete_warehouse w db)))"
      by (intro load_txn_served(1) local_Then local_populate starts_idle)
        (simp add: effect_delete e warehouse_absent_fresh [OF delete_absent])
    with False 1 show ?thesis by (simp add: PutWarehouseIdempotent_def duplicate_key)
  qed
qed

text \<open>Whatever the server answers, a completed load has put the generated rows of the warehouse in place
  of the old ones, and a failed one has changed nothing.\<close>

lemma put_warehouse_cases:
  assumes b: "batch_ok b" and r: "PutWarehouseIdempotent lf seed w b conn = (res, conn')" and n: "no_lost_effect (ss_script conn)"
  shows "no_lost_effect (ss_script conn') \<and>
    (if pb_Outcome res = PutCompleted
     then ss_disk conn' = add_warehouse lf seed w (ss_disk conn) \<and> warehouse_fresh lf seed w (ss_disk conn) \<or>
       ss_disk conn' = add_warehouse lf seed w (delete_warehouse w (ss_disk conn))
     else ss_disk conn' = ss_disk conn)"
proof -
  let ?add = "add_warehouse lf seed w"
  have e: "effect db (PopulateWarehouse lf seed w b) db' = (if warehouse_fresh lf seed w db' then Inr ((), ?add db') else Inl UniqueViolation)" for db db'
    using loads_warehouse [OF b, of lf seed w] by (simp add: loads_def)
  obtain x conn1 where 1: "load_txn (PopulateWarehouse lf seed w b) conn = (x, conn1)" by fastforce
  note c1 = load_txn_cases [OF faithful_populate(8) 1 n]
  show ?thesis
  proof (cases x)
    case (Inr u)
    with r 1 have "res = OkResult" "conn' = conn1" by (simp_all add: PutWarehouseIdempotent_def)
    with c1 Inr e [of "ss_disk conn" "ss_disk conn"] show ?thesis by (auto simp: OkResult_def split: if_splits)
  next
    case (Inl ex)
    with c1 have k: "no_lost_effect (ss_script conn1)" "ss_disk conn1 = ss_disk conn" by simp_all
    show ?thesis
    proof (cases "IsDuplicateKeyError ex")
      case False
      with r 1 Inl have "res = FailResult ex" "conn' = conn1" by (simp_all add: PutWarehouseIdempotent_def)
      with k show ?thesis by (simp add: FailResult_def)
    next
      case True
      obtain y conn2 where 2: "load_txn (Then (DeleteWarehouseChildren w) (\<lambda>_. PopulateWarehouse lf seed w b)) conn1 = (y, conn2)"
        by fastforce
      have "faithful (Then (DeleteWarehouseChildren w) (\<lambda>_. PopulateWarehouse lf seed w b))"
        by (intro faithful_Then faithful_populate)
      note c2 = load_txn_cases [OF this 2 k(1)]
      show ?thesis
      proof (cases y)
        case y: (Inr u)
        have "res = OkResult" "conn' = conn2" using r 1 2 Inl True y by (simp_all add: PutWarehouseIdempotent_def)
        moreover have "ss_disk conn2 = ?add (delete_warehouse w (ss_disk conn))"
          using c2 y k(2) by (simp add: effect_delete e warehouse_absent_fresh [OF delete_absent])
        ultimately show ?thesis using c2 by (simp add: OkResult_def)
      next
        case y: (Inl ex2)
        have "res = FailResult ex2" "conn' = conn2" using r 1 2 Inl True y by (simp_all add: PutWarehouseIdempotent_def)
        with c2 y k show ?thesis by (simp add: FailResult_def)
      qed
    qed
  qed
qed

lemma fold_districts:
  "fold (add_district seed w) ds db = db \<lparr> customer := customer db @ concat (map (gen_customers seed w) ds),
     history := history db @ concat (map (gen_history seed w) ds), oorder := oorder db @ concat (map (gen_orders seed w) ds),
     new_order := new_order db @ concat (map (gen_new_orders w) ds), order_line := order_line db @ concat (map (gen_lines seed w) ds) \<rparr>"
  by (induction ds arbitrary: db) (simp_all add: add_district_def)

lemma add_warehouse_eq:
  "add_warehouse lf seed w db = db \<lparr> warehouse := warehouse db @ [warehouse_of (GenerateWarehouse seed w)],
     district := district db @ gen_districts seed w, stock := stock db @ gen_stock lf seed w,
     customer := customer db @ concat (map (gen_customers seed w) [DISTRICT_LOW_ID..DISTRICT_HIGH_ID]),
     history := history db @ concat (map (gen_history seed w) [DISTRICT_LOW_ID..DISTRICT_HIGH_ID]),
     oorder := oorder db @ concat (map (gen_orders seed w) [DISTRICT_LOW_ID..DISTRICT_HIGH_ID]),
     new_order := new_order db @ concat (map (gen_new_orders w) [DISTRICT_LOW_ID..DISTRICT_HIGH_ID]),
     order_line := order_line db @ concat (map (gen_lines seed w) [DISTRICT_LOW_ID..DISTRICT_HIGH_ID]) \<rparr>"
  unfolding add_warehouse_def fold_districts by simp

lemma filter_concat_all: "(\<And>d x. x \<in> set (g d) \<Longrightarrow> \<not> P x) \<Longrightarrow> filter P (concat (map g ds)) = []"
  by (induction ds) (simp_all add: filter_empty_conv)

lemma gen_filtered:
  "filter (\<lambda>r. d_w_id r \<noteq> w) (gen_districts seed w) = []" "filter (\<lambda>r. s_w_id r \<noteq> w) (gen_stock lf seed w) = []"
  "filter (\<lambda>r. c_w_id r \<noteq> w) (concat (map (gen_customers seed w) ds)) = []"
  "filter (\<lambda>r. \<not> (h_w_id r = w \<or> h_c_w_id r = w)) (concat (map (gen_history seed w) ds)) = []"
  "filter (\<lambda>r. o_w_id r \<noteq> w) (concat (map (gen_orders seed w) ds)) = []"
  "filter (\<lambda>r. no_w_id r \<noteq> w) (concat (map (gen_new_orders w) ds)) = []"
  "filter (\<lambda>r. ol_w_id r \<noteq> w) (concat (map (gen_lines seed w) ds)) = []"
  using gen_rows_home(1) [of _ seed w] gen_rows_home(2) [of _ lf seed w] gen_rows_home(3,4,6) [of _ seed w]
    gen_rows_home(5) [of _ w] gen_lines_order [of _ seed w]
  by (auto intro!: filter_concat_all simp: filter_empty_conv)

lemma filter_absent:
  assumes "warehouse_absent w db"
  shows "filter (\<lambda>l. ol_w_id l \<noteq> w) (order_line db) = order_line db" "filter (\<lambda>n. no_w_id n \<noteq> w) (new_order db) = new_order db"
    "filter (\<lambda>x. o_w_id x \<noteq> w) (oorder db) = oorder db"
    "filter (\<lambda>h. \<not> (h_w_id h = w \<or> h_c_w_id h = w)) (history db) = history db"
    "filter (\<lambda>c. c_w_id c \<noteq> w) (customer db) = customer db" "filter (\<lambda>d. d_w_id d \<noteq> w) (district db) = district db"
    "filter (\<lambda>s. s_w_id s \<noteq> w) (stock db) = stock db" "filter (\<lambda>r. w_id r \<noteq> w) (warehouse db) = warehouse db"
  using assms unfolding warehouse_absent_def by (auto simp: filter_id_conv)

lemma delete_add:
  assumes "warehouse_absent w db"
  shows "delete_warehouse w (add_warehouse lf seed w db) = db"
  by (simp add: delete_warehouse_def add_warehouse_eq filter_absent [OF assms] gen_filtered warehouse_of_def del: de_Morgan_disj)

lemma add_not_fresh: "\<not> warehouse_fresh lf seed w (add_warehouse lf seed w db)"
  using warehouse_fresh_row [of lf seed w "add_warehouse lf seed w db"] by (auto simp: add_warehouse_eq warehouse_of_def)

definition empty_db :: pg_db where
  "empty_db = \<lparr> warehouse = [], item = [], stock = [], district = [], customer = [], history = [], oorder = [],
     new_order = [], order_line = [], current_timestamp = ''2026-01-01 00:00:00'', collation_key = id \<rparr>"





section \<open>Threads share the warehouses\<close>

lemma concat_slices:
  assumes "mono f" "f 0 = (0 :: nat)"
  shows "concat (map (\<lambda>k. take (f (Suc k) - f k) (drop (f k) xs)) [0..<n]) = take (f n) xs"
proof (induction n)
  case (Suc n)
  have "f n \<le> f (Suc n)" using assms(1) by (simp add: mono_def)
  then have "take (f n) xs @ take (f (Suc n) - f n) (drop (f n) xs) = take (f (Suc n)) xs"
    by (metis le_add_diff_inverse take_add)
  with Suc show ?case by simp
qed (simp add: assms)

lemma shares_cover:
  assumes "0 < n"
  shows "concat (map (thread_share n ids) [0..<n]) = ids"
proof -
  have "mono (\<lambda>k. k * length ids div n)" by (auto intro!: monoI div_le_mono mult_le_mono1)
  note concat_slices [OF this, of ids n]
  moreover have "thread_share n ids = (\<lambda>k. take (Suc k * length ids div n - k * length ids div n) (drop (k * length ids div n) ids))"
    by (simp add: fun_eq_iff thread_share_def Let_def)
  ultimately show ?thesis using assms by simp
qed

lemma count_ids: "CountWarehouses ranges = Inr n \<Longrightarrow> length (warehouse_ids ranges) = n"
  by (induction ranges arbitrary: n) (auto simp: warehouse_ids_def bind_r_def map_r_def i32_def split: if_splits sum.splits)

lemma count_positive: "CountWarehouses ranges = Inr n \<Longrightarrow> ranges \<noteq> [] \<Longrightarrow> 0 < n"
  by (cases ranges) (auto simp: bind_r_def map_r_def i32_def split: if_splits sum.splits)

end
