(* ===== verification/Pg_Population.thy ===== *)
theory Pg_Population
  imports Pg_Runs Pg_Load
begin

text \<open>
  The database that the loader produces passes every check of \<^verbatim>\<open>tpcc-check --after-import\<close>. The rows of each
  warehouse are characterised table by table; each check is then a computation on the generated rows.
\<close>

section \<open>A loaded warehouse\<close>

abbreviation all_districts :: "int list" where
  "all_districts \<equiv> [DISTRICT_LOW_ID..DISTRICT_HIGH_ID]"

definition rows_of :: "('r \<Rightarrow> int) \<Rightarrow> int \<Rightarrow> 'r list \<Rightarrow> 'r list" where
  "rows_of f w t = filter (\<lambda>r. f r = w) t"

definition holds_warehouse :: "bool \<Rightarrow> u64 \<Rightarrow> int \<Rightarrow> pg_db \<Rightarrow> bool" where
  "holds_warehouse lf seed w db \<longleftrightarrow>
     rows_of w_id w (warehouse db) = [warehouse_of (GenerateWarehouse seed w)] \<and>
     rows_of d_w_id w (district db) = gen_districts seed w \<and> rows_of s_w_id w (stock db) = gen_stock lf seed w \<and>
     rows_of c_w_id w (customer db) = concat (map (gen_customers seed w) all_districts) \<and>
     rows_of h_w_id w (history db) = concat (map (gen_history seed w) all_districts) \<and>
     rows_of h_c_w_id w (history db) = concat (map (gen_history seed w) all_districts) \<and>
     rows_of o_w_id w (oorder db) = concat (map (gen_orders seed w) all_districts) \<and>
     rows_of no_w_id w (new_order db) = concat (map (gen_new_orders w) all_districts) \<and>
     rows_of ol_w_id w (order_line db) = concat (map (gen_lines seed w) all_districts)"

lemma rows_of_append [simp]: "rows_of f w (xs @ ys) = rows_of f w xs @ rows_of f w ys"
  by (simp add: rows_of_def)

lemma rows_of_all: "(\<And>r. r \<in> set t \<Longrightarrow> f r = w) \<Longrightarrow> rows_of f w t = t"
  by (simp add: rows_of_def filter_id_conv)

lemma rows_of_none: "(\<And>r. r \<in> set t \<Longrightarrow> f r \<noteq> w) \<Longrightarrow> rows_of f w t = []"
  by (simp add: rows_of_def filter_empty_conv)

lemma gen_all_home:
  "r \<in> set (concat (map (gen_customers seed w) ds)) \<Longrightarrow> c_w_id r = w"
  "h \<in> set (concat (map (gen_history seed w) ds)) \<Longrightarrow> h_w_id h = w \<and> h_c_w_id h = w"
  "x \<in> set (concat (map (gen_orders seed w) ds)) \<Longrightarrow> o_w_id x = w"
  "n \<in> set (concat (map (gen_new_orders w) ds)) \<Longrightarrow> no_w_id n = w"
  "l \<in> set (concat (map (gen_lines seed w) ds)) \<Longrightarrow> ol_w_id l = w"
  using gen_rows_home(3,4,6) [of _ seed w] gen_rows_home(5) [of _ w] gen_lines_order [of _ seed w] by auto

lemma gen_rows_of:
  "rows_of w_id v [warehouse_of (GenerateWarehouse seed w)] = (if v = w then [warehouse_of (GenerateWarehouse seed w)] else [])"
  "rows_of d_w_id v (gen_districts seed w) = (if v = w then gen_districts seed w else [])"
  "rows_of s_w_id v (gen_stock lf seed w) = (if v = w then gen_stock lf seed w else [])"
  "rows_of c_w_id v (concat (map (gen_customers seed w) ds)) = (if v = w then concat (map (gen_customers seed w) ds) else [])"
  "rows_of h_w_id v (concat (map (gen_history seed w) ds)) = (if v = w then concat (map (gen_history seed w) ds) else [])"
  "rows_of h_c_w_id v (concat (map (gen_history seed w) ds)) = (if v = w then concat (map (gen_history seed w) ds) else [])"
  "rows_of o_w_id v (concat (map (gen_orders seed w) ds)) = (if v = w then concat (map (gen_orders seed w) ds) else [])"
  "rows_of no_w_id v (concat (map (gen_new_orders w) ds)) = (if v = w then concat (map (gen_new_orders w) ds) else [])"
  "rows_of ol_w_id v (concat (map (gen_lines seed w) ds)) = (if v = w then concat (map (gen_lines seed w) ds) else [])"
  using gen_rows_home(1) [of _ seed w] gen_rows_home(2) [of _ lf seed w] gen_all_home(1,2,3,5) [of _ seed w ds] gen_all_home(4) [of _ w ds]
  by (auto intro!: rows_of_all rows_of_none simp: warehouse_of_def)

lemma absent_rows:
  assumes "warehouse_absent w db"
  shows "rows_of w_id w (warehouse db) = []" "rows_of d_w_id w (district db) = []" "rows_of s_w_id w (stock db) = []"
    "rows_of c_w_id w (customer db) = []" "rows_of h_w_id w (history db) = []" "rows_of h_c_w_id w (history db) = []"
    "rows_of o_w_id w (oorder db) = []" "rows_of no_w_id w (new_order db) = []" "rows_of ol_w_id w (order_line db) = []"
  using assms unfolding warehouse_absent_def by (auto intro!: rows_of_none)

lemma add_holds:
  assumes "warehouse_absent w db"
  shows "holds_warehouse lf seed w (add_warehouse lf seed w db)"
  by (simp add: holds_warehouse_def add_warehouse_eq absent_rows [OF assms] gen_rows_of)

lemma add_keeps_other:
  assumes "holds_warehouse lf seed v db" "v \<noteq> w"
  shows "holds_warehouse lf seed v (add_warehouse lf' seed' w db)"
  using assms by (simp add: holds_warehouse_def add_warehouse_eq gen_rows_of)

lemma rows_of_filter: "(\<And>r. f r = v \<Longrightarrow> P r) \<Longrightarrow> rows_of f v (filter P t) = rows_of f v t"
  by (auto simp: rows_of_def filter_filter intro!: filter_cong)

lemma rows_of_filter': "\<forall>r \<in> set (rows_of f v t). P r \<Longrightarrow> rows_of f v (filter P t) = rows_of f v t"
  by (auto simp: rows_of_def filter_filter intro!: filter_cong)

lemma delete_keeps_other:
  assumes h: "holds_warehouse lf seed v db" and "v \<noteq> w"
  shows "holds_warehouse lf seed v (delete_warehouse w db)"
proof -
  have "\<forall>r \<in> set (rows_of h_w_id v (history db)). \<not> (h_w_id r = w \<or> h_c_w_id r = w)"
    "\<forall>r \<in> set (rows_of h_c_w_id v (history db)). \<not> (h_w_id r = w \<or> h_c_w_id r = w)"
    using h gen_all_home(2) [of _ seed v all_districts] \<open>v \<noteq> w\<close> unfolding holds_warehouse_def by (metis)+
  note r = rows_of_filter' [OF this(1)] rows_of_filter' [OF this(2)]
  show ?thesis
    using assms unfolding holds_warehouse_def delete_warehouse_def by (simp add: r rows_of_filter del: de_Morgan_disj)
qed

text \<open>A warehouse that is either not there at all or has its row: what atomic loads leave behind.\<close>

definition all_or_none :: "int \<Rightarrow> pg_db \<Rightarrow> bool" where
  "all_or_none w db \<longleftrightarrow> warehouse_absent w db \<or> w \<in> w_id ` set (warehouse db)"

lemma delete_none: "warehouse_absent w db \<Longrightarrow> delete_warehouse w db = db"
  by (simp add: delete_warehouse_def filter_absent del: de_Morgan_disj)

definition reload_warehouse :: "bool \<Rightarrow> u64 \<Rightarrow> int \<Rightarrow> pg_db \<Rightarrow> pg_db" where
  "reload_warehouse lf seed w db = add_warehouse lf seed w (delete_warehouse w db)"

lemma put_warehouse_reloads:
  assumes "batch_ok b" "PutWarehouseIdempotent lf seed w b conn = (res, conn')" "no_lost_effect (ss_script conn)"
    "all_or_none w (ss_disk conn)"
  shows "ss_disk conn' = (if pb_Outcome res = PutCompleted then reload_warehouse lf seed w (ss_disk conn) else ss_disk conn)"
proof -
  have "warehouse_fresh lf seed w (ss_disk conn) \<Longrightarrow> warehouse_absent w (ss_disk conn)"
    using assms(4) warehouse_fresh_row by (fastforce simp: all_or_none_def)
  then show ?thesis
    using put_warehouse_cases [OF assms(1-3)] by (auto simp: reload_warehouse_def delete_none split: if_splits)
qed

lemma reload_holds: "holds_warehouse lf seed w (reload_warehouse lf seed w db)"
  unfolding reload_warehouse_def by (rule add_holds [OF delete_absent])

lemma reload_keeps_other:
  "holds_warehouse lf seed v db \<Longrightarrow> v \<noteq> w \<Longrightarrow> holds_warehouse lf seed v (reload_warehouse lf' seed' w db)"
  unfolding reload_warehouse_def by (intro add_keeps_other delete_keeps_other)

lemma add_absent_other: "warehouse_absent v db \<Longrightarrow> v \<noteq> w \<Longrightarrow> warehouse_absent v (add_warehouse lf seed w db)"
  using gen_rows_home(1) [of _ seed w] gen_rows_home(2) [of _ lf seed w] gen_all_home(1,2,3,5) [of _ seed w all_districts]
    gen_all_home(4) [of _ w all_districts]
  unfolding warehouse_absent_def add_warehouse_eq by (simp add: ball_Un warehouse_of_def del: set_concat)

lemma delete_absent_other: "warehouse_absent v db \<Longrightarrow> warehouse_absent v (delete_warehouse w db)"
  by (simp add: warehouse_absent_def delete_warehouse_def)

lemma reload_fields:
  "w_id ` set (warehouse (reload_warehouse lf seed w db)) = insert w (w_id ` set (warehouse db))"
  "d_w_id ` set (district (reload_warehouse lf seed w db)) = insert w (d_w_id ` set (district db))"
  "item (reload_warehouse lf seed w db) = item db"
proof -
  have "d_w_id ` set (gen_districts seed w) = {w}"
    by (simp add: gen_districts_def district_of_def image_image image_constant_conv DISTRICT_LOW_ID_def DISTRICT_HIGH_ID_def)
  then show "d_w_id ` set (district (reload_warehouse lf seed w db)) = insert w (d_w_id ` set (district db))"
    by (auto simp: reload_warehouse_def add_warehouse_eq delete_warehouse_def image_Un)
qed (auto simp: reload_warehouse_def add_warehouse_eq delete_warehouse_def warehouse_of_def)

lemma reload_all_or_none:
  assumes "all_or_none v db"
  shows "all_or_none v (reload_warehouse lf seed w db)"
proof (cases "v = w \<or> v \<in> w_id ` set (warehouse db)")
  case True
  then show ?thesis unfolding all_or_none_def reload_fields by blast
next
  case False
  then have "warehouse_absent v db" "v \<noteq> w" using assms by (auto simp: all_or_none_def)
  then show ?thesis unfolding all_or_none_def reload_warehouse_def by (blast intro: add_absent_other delete_absent_other)
qed

lemma distinct_concat_keys:
  assumes "distinct ds" "\<And>d. distinct (map key (g d))" "\<And>d x. x \<in> set (g d) \<Longrightarrow> h (key x) = d"
  shows "distinct (map key (concat (map g ds)))"
  using assms(1)
proof (induction ds)
  case (Cons d ds)
  have "key x \<noteq> key y" if x: "x \<in> set (g d)" and y: "y \<in> set (concat (map g ds))" for x y
  proof -
    obtain e where e: "e \<in> set ds" "y \<in> set (g e)" using y by auto
    then have "h (key y) = e" "h (key x) = d" using assms(3) x by blast+
    with e(1) Cons.prems show ?thesis by auto
  qed
  then have "set (map key (g d)) \<inter> set (map key (concat (map g ds))) = {}" by (force simp del: set_concat)
  with Cons assms(2) show ?case by simp
qed simp

lemma gen_all_distinct:
  "distinct (map c_key (concat (map (gen_customers seed w) all_districts)))"
  "distinct (map o_key (concat (map (gen_orders seed w) all_districts)))"
  "distinct (map no_key (concat (map (gen_new_orders w) all_districts)))"
  "distinct (map ol_key (concat (map (gen_lines seed w) all_districts)))"
  using gen_rows_home(3,4) [of _ seed w] gen_rows_home(5) [of _ w] gen_lines_order [of _ seed w]
  by (auto intro!: distinct_concat_keys [where h = "\<lambda>k. fst (snd k)"] distinct_concat_keys [where h = "\<lambda>k. fst (snd (fst k))"]
      simp: gen_keys_distinct c_key_def o_key_def no_key_def ol_key_def ol_order_def)

lemma distinct_keys_append:
  assumes "distinct (map key t)" "distinct (map key g)" "\<And>x. x \<in> set g \<Longrightarrow> f (key x) = w" "\<And>x. x \<in> set t \<Longrightarrow> f (key x) \<noteq> w"
  shows "distinct (map key (t @ g))"
  using assms by fastforce

lemma absent_keys:
  assumes "warehouse_absent w db"
  shows "q1 \<in> set (district db) \<Longrightarrow> fst (d_key q1) \<noteq> w" "q2 \<in> set (stock db) \<Longrightarrow> fst (s_key q2) \<noteq> w"
    "q3 \<in> set (customer db) \<Longrightarrow> fst (c_key q3) \<noteq> w" "q4 \<in> set (oorder db) \<Longrightarrow> fst (o_key q4) \<noteq> w"
    "q5 \<in> set (new_order db) \<Longrightarrow> fst (no_key q5) \<noteq> w" "q6 \<in> set (order_line db) \<Longrightarrow> fst (fst (ol_key q6)) \<noteq> w"
    "q7 \<in> set (warehouse db) \<Longrightarrow> w_id q7 \<noteq> w"
  using assms by (simp_all add: warehouse_absent_def d_key_def s_key_def c_key_def o_key_def no_key_def ol_key_def ol_order_def)

lemma gen_key_home:
  "r1 \<in> set (gen_districts seed w) \<Longrightarrow> fst (d_key r1) = w" "r2 \<in> set (gen_stock lf seed w) \<Longrightarrow> fst (s_key r2) = w"
  "r3 \<in> set (concat (map (gen_customers seed w) ds)) \<Longrightarrow> fst (c_key r3) = w"
  "r4 \<in> set (concat (map (gen_orders seed w) ds)) \<Longrightarrow> fst (o_key r4) = w"
  "r5 \<in> set (concat (map (gen_new_orders w) ds)) \<Longrightarrow> fst (no_key r5) = w"
  "r6 \<in> set (concat (map (gen_lines seed w) ds)) \<Longrightarrow> fst (fst (ol_key r6)) = w"
  using gen_rows_home(1) [of r1 seed w] gen_rows_home(2) [of r2 lf seed w] gen_all_home(1) [of r3 seed w ds] gen_all_home(3) [of r4 seed w ds]
    gen_all_home(5) [of r6 seed w ds] gen_all_home(4) [of r5 w ds]
  by (simp_all add: d_key_def s_key_def c_key_def o_key_def no_key_def ol_key_def ol_order_def del: set_concat)

lemma add_primary_keys:
  assumes p: "primary_keys db" and a: "warehouse_absent w db"
  shows "primary_keys (add_warehouse lf seed w db)"
proof -
  have k: "distinct (map d_key (district db))" "distinct (map s_key (stock db))" "distinct (map c_key (customer db))"
    "distinct (map o_key (oorder db))" "distinct (map no_key (new_order db))" "distinct (map ol_key (order_line db))"
    "distinct (map w_id (warehouse db))"
    using p by (simp_all add: primary_keys_def)
  note d = distinct_keys_append [where f = fst and w = w] and d' = distinct_keys_append [where f = "\<lambda>k. fst (fst k)" and w = w]
  have "distinct (map d_key (district db @ gen_districts seed w))" "distinct (map s_key (stock db @ gen_stock lf seed w))"
    "distinct (map c_key (customer db @ concat (map (gen_customers seed w) all_districts)))"
    "distinct (map o_key (oorder db @ concat (map (gen_orders seed w) all_districts)))"
    "distinct (map no_key (new_order db @ concat (map (gen_new_orders w) all_districts)))"
    "distinct (map ol_key (order_line db @ concat (map (gen_lines seed w) all_districts)))"
    by (rule d [OF k(1) gen_keys_distinct(1) gen_key_home(1) absent_keys(1) [OF a]] d [OF k(2) gen_keys_distinct(2) gen_key_home(2) absent_keys(2) [OF a]]
        d [OF k(3) gen_all_distinct(1) gen_key_home(3) absent_keys(3) [OF a]] d [OF k(4) gen_all_distinct(2) gen_key_home(4) absent_keys(4) [OF a]]
        d [OF k(5) gen_all_distinct(3) gen_key_home(5) absent_keys(5) [OF a]] d' [OF k(6) gen_all_distinct(4) gen_key_home(6) absent_keys(6) [OF a]];
        assumption)+
  moreover have "distinct (map w_id (warehouse db @ [warehouse_of (GenerateWarehouse seed w)]))"
    using k(7) absent_keys(7) [OF a] by (auto simp: warehouse_of_def)
  ultimately show ?thesis
    using p unfolding primary_keys_def add_warehouse_eq by simp
qed

lemma reload_primary_keys:
  assumes "primary_keys db"
  shows "primary_keys (reload_warehouse lf seed w db)"
proof -
  have "primary_keys (delete_warehouse w db)"
    using assms by (simp add: primary_keys_def delete_warehouse_def distinct_map_filter)
  then show ?thesis unfolding reload_warehouse_def by (rule add_primary_keys [OF _ delete_absent])
qed

section \<open>Rows of a loaded warehouse\<close>

lemma filter_concat_key:
  assumes "distinct ks" "\<And>k x. x \<in> set (g k) \<Longrightarrow> f x = k"
  shows "filter (\<lambda>x. f x = k) (concat (map g ks)) = (if k \<in> set ks then g k else [])"
  using assms(1)
proof (induction ks)
  case (Cons a ks)
  have "filter (\<lambda>x. f x = k) (g a) = (if k = a then g a else [])"
    using assms(2) by (auto simp: filter_empty_conv filter_id_conv)
  with Cons show ?case by auto
qed simp

lemma rows_pair: "filter (\<lambda>x. (f x, g x) = (w, d)) t = filter (\<lambda>x. g x = d) (rows_of f w t)"
  by (simp add: rows_of_def filter_filter)

lemma in_range_self [simp]: "in_range w w v \<longleftrightarrow> v = w"
  by (auto simp: in_range_def)

lemma rows_of_fold: "filter (\<lambda>r. f r = w) t = rows_of f w t"
  by (simp add: rows_of_def)

lemma rows_of_mem: "r \<in> set t \<Longrightarrow> f r = w \<Longrightarrow> r \<in> set (rows_of f w t)"
  by (simp add: rows_of_def)

lemma all_districts_facts: "distinct all_districts" "set all_districts = {DISTRICT_LOW_ID..DISTRICT_HIGH_ID}"
  "length all_districts = nat DISTRICT_COUNT"
  by (simp_all add: DISTRICT_LOW_ID_def DISTRICT_HIGH_ID_def DISTRICT_COUNT_def)

lemma initial_line_facts:
  assumes "l \<in> set (initial_lines seed w d i)"
  shows "ol_o_id (order_line_of l) = i"
    "ol_delivery_d (order_line_of l) =
      (if i < FIRST_UNPROCESSED_O_ID then Some (o_entry_d (oorder_of (initial_order seed w d i))) else None)"
    "i < FIRST_UNPROCESSED_O_ID \<Longrightarrow> ol_amount (order_line_of l) = 0"
  using assms GenerateOrderLines_fields [of l seed w d i]
  unfolding initial_lines_def Let_def by (auto simp: order_line_of_def oorder_of_def split: if_splits)

lemma initial_order_facts:
  "o_w_id (oorder_of (initial_order seed w d i)) = w" "o_d_id (oorder_of (initial_order seed w d i)) = d"
  "o_id (oorder_of (initial_order seed w d i)) = i"
  "o_carrier_id (oorder_of (initial_order seed w d i)) = None \<longleftrightarrow> FIRST_UNPROCESSED_O_ID \<le> i"
  "o_ol_cnt (oorder_of (initial_order seed w d i)) = int (length (initial_lines seed w d i))"
  "5 \<le> o_ol_cnt (oorder_of (initial_order seed w d i))"
proof -
  have "5 \<le> go_OlCnt (initial_order seed w d i)"
    unfolding initial_order_def using GenerateOrderLineCount_bounds by simp
  then show "o_ol_cnt (oorder_of (initial_order seed w d i)) = int (length (initial_lines seed w d i))"
    "5 \<le> o_ol_cnt (oorder_of (initial_order seed w d i))"
    by (simp_all add: oorder_of_def initial_lines_def Let_def length_GenerateOrderLines)
qed (simp_all add: oorder_of_def initial_order_def)

lemma gen_lines_concat: "gen_lines seed w d = concat (map (\<lambda>i. map order_line_of (initial_lines seed w d i)) [1..CUSTOMERS_PER_DISTRICT])"
  by (simp add: gen_lines_def map_concat comp_def)

lemma held_tables:
  assumes "holds_warehouse lf seed w db"
  shows "filter (\<lambda>x. (o_w_id x, o_d_id x) = (w, d)) (oorder db) = (if d \<in> set all_districts then gen_orders seed w d else [])"
    "filter (\<lambda>n. (no_w_id n, no_d_id n) = (w, d)) (new_order db) = (if d \<in> set all_districts then gen_new_orders w d else [])"
    "filter (\<lambda>l. (ol_w_id l, ol_d_id l) = (w, d)) (order_line db) = (if d \<in> set all_districts then gen_lines seed w d else [])"
    "filter (\<lambda>h. (h_w_id h, h_d_id h) = (w, d)) (history db) = (if d \<in> set all_districts then gen_history seed w d else [])"
    "filter (\<lambda>h. (h_c_w_id h, h_c_d_id h) = (w, d)) (history db) = (if d \<in> set all_districts then gen_history seed w d else [])"
  using assms gen_rows_home(4,6) [of _ seed w] gen_rows_home(5) [of _ w] gen_lines_order [of _ seed w]
  unfolding rows_pair holds_warehouse_def by (simp_all add: filter_concat_key all_districts_facts(1))

lemma held_order_lines:
  assumes "holds_warehouse lf seed w db"
  shows "filter (\<lambda>l. ol_order l = (w, d, i)) (order_line db) =
    (if d \<in> set all_districts \<and> i \<in> {1..CUSTOMERS_PER_DISTRICT} then map order_line_of (initial_lines seed w d i) else [])"
proof -
  have "filter (\<lambda>l. ol_order l = (w, d, i)) (order_line db) =
      filter (\<lambda>l. ol_o_id l = i) (filter (\<lambda>l. (ol_w_id l, ol_d_id l) = (w, d)) (order_line db))"
    by (simp add: ol_order_def filter_filter conj_assoc)
  also have "\<dots> = filter (\<lambda>l. ol_o_id l = i) (if d \<in> set all_districts then gen_lines seed w d else [])"
    unfolding held_tables [OF assms] ..
  finally have "filter (\<lambda>l. ol_order l = (w, d, i)) (order_line db) =
      filter (\<lambda>l. ol_o_id l = i) (if d \<in> set all_districts then gen_lines seed w d else [])" .
  moreover have "filter (\<lambda>l. ol_o_id l = i) (gen_lines seed w d) =
      (if i \<in> set [1..CUSTOMERS_PER_DISTRICT] then map order_line_of (initial_lines seed w d i) else [])"
    unfolding gen_lines_concat by (rule filter_concat_key) (auto simp: initial_line_facts)
  ultimately show ?thesis by simp
qed

lemma held_order_rows:
  assumes "holds_warehouse lf seed w db" "x \<in> set (oorder db)" "o_w_id x = w"
  shows "o_d_id x \<in> set all_districts \<and> o_id x \<in> {1..CUSTOMERS_PER_DISTRICT} \<and> x = oorder_of (initial_order seed w (o_d_id x) (o_id x))"
proof -
  have "x \<in> set (concat (map (gen_orders seed w) all_districts))"
    using assms rows_of_mem [of x "oorder db" o_w_id w] by (simp add: holds_warehouse_def)
  then show ?thesis by (auto simp: gen_orders_def initial_order_facts)
qed

lemma held_order_exists:
  assumes "holds_warehouse lf seed w db" "d \<in> set all_districts" "i \<in> {1..CUSTOMERS_PER_DISTRICT}"
  shows "oorder_of (initial_order seed w d i) \<in> set (oorder db)"
proof -
  have "oorder_of (initial_order seed w d i) \<in> set (filter (\<lambda>x. (o_w_id x, o_d_id x) = (w, d)) (oorder db))"
    unfolding held_tables [OF assms(1)] using assms(2,3) by (simp add: gen_orders_def)
  then show ?thesis by simp
qed

lemma held_new_order_rows:
  assumes "holds_warehouse lf seed w db" "n \<in> set (new_order db)" "no_w_id n = w"
  shows "no_d_id n \<in> set all_districts \<and> no_o_id n \<in> {FIRST_UNPROCESSED_O_ID..CUSTOMERS_PER_DISTRICT}"
proof -
  have "n \<in> set (concat (map (gen_new_orders w) all_districts))"
    using assms rows_of_mem [of n "new_order db" no_w_id w] by (simp add: holds_warehouse_def)
  then show ?thesis by (auto simp: gen_new_orders_def new_order_of_def GenerateNewOrder_def)
qed

lemma held_new_order_exists:
  assumes "holds_warehouse lf seed w db" "d \<in> set all_districts" "i \<in> {FIRST_UNPROCESSED_O_ID..CUSTOMERS_PER_DISTRICT}"
  shows "(w, d, i) \<in> no_key ` set (new_order db)"
proof -
  have "new_order_of (GenerateNewOrder w d i) \<in> set (filter (\<lambda>n. (no_w_id n, no_d_id n) = (w, d)) (new_order db))"
    unfolding held_tables [OF assms(1)] using assms(2,3) by (simp add: gen_new_orders_def)
  then show ?thesis by (intro image_eqI [of _ _ "new_order_of (GenerateNewOrder w d i)"])
      (auto simp: no_key_def new_order_of_def GenerateNewOrder_def)
qed

lemma held_lines:
  assumes "holds_warehouse lf seed w db" "l \<in> set (order_line db)" "ol_w_id l = w"
  shows "ol_d_id l \<in> set all_districts \<and> ol_o_id l \<in> {1..CUSTOMERS_PER_DISTRICT} \<and>
    l \<in> order_line_of ` set (initial_lines seed w (ol_d_id l) (ol_o_id l))"
proof -
  have "l \<in> set (filter (\<lambda>l'. ol_order l' = (w, ol_d_id l, ol_o_id l)) (order_line db))"
    using assms(2,3) by (simp add: ol_order_def)
  then show ?thesis unfolding held_order_lines [OF assms(1)] by (simp split: if_splits)
qed

lemma held_line_facts:
  assumes "holds_warehouse lf seed w db" "l \<in> set (order_line db)" "ol_w_id l = w"
  shows "ol_delivery_d l =
      (if ol_o_id l < FIRST_UNPROCESSED_O_ID then Some (o_entry_d (oorder_of (initial_order seed w (ol_d_id l) (ol_o_id l)))) else None)"
    "ol_o_id l < FIRST_UNPROCESSED_O_ID \<Longrightarrow> ol_amount l = 0"
  using held_lines [OF assms] initial_line_facts(2,3) by (metis (lifting) imageE)+

section \<open>Cardinality of a loaded warehouse\<close>

lemma extrema:
  assumes "set xs = {a..b}" "a \<le> b"
  shows "min_of xs = Some a" "max_of xs = Some b"
proof -
  have ne: "xs \<noteq> []" using assms by auto
  have "Min (set xs) = a" "Max (set xs) = b" unfolding assms(1) using assms(2) by (auto intro: Min_eqI Max_eqI)
  with ne show "min_of xs = Some a" "max_of xs = Some b" by (simp_all add: min_of_def max_of_def)
qed

lemma length_concat_const: "(\<And>x. length (g x) = k) \<Longrightarrow> length (concat (map g xs)) = length xs * k"
  by (induction xs) simp_all

lemma keys_concat:
  assumes "\<And>d. map key (g d) = map (\<lambda>i. (w, d, i)) is"
  shows "key ` set (concat (map g ds)) = {w} \<times> set ds \<times> set is"
proof -
  have "key ` set (g d) = (\<lambda>i. (w, d, i)) ` set is" for d using arg_cong [OF assms, of set d] by simp
  then have "key ` (\<Union>d \<in> set ds. set (g d)) = (\<Union>d \<in> set ds. (\<lambda>i. (w, d, i)) ` set is)" by (simp add: image_UN)
  then show ?thesis by auto
qed

lemma projections:
  assumes "key ` S = {w} \<times> A \<times> B" "A \<noteq> {}" "B \<noteq> {}"
  shows "(\<lambda>x. fst (key x)) ` S = {w}" "(\<lambda>x. fst (snd (key x))) ` S = A" "(\<lambda>x. snd (snd (key x))) ` S = B"
proof -
  have "(\<lambda>x. fst (key x)) ` S = fst ` key ` S" "(\<lambda>x. fst (snd (key x))) ` S = fst ` snd ` key ` S"
    "(\<lambda>x. snd (snd (key x))) ` S = snd ` snd ` key ` S"
    by (simp_all add: image_image)
  then show "(\<lambda>x. fst (key x)) ` S = {w}" "(\<lambda>x. fst (snd (key x))) ` S = A" "(\<lambda>x. snd (snd (key x))) ` S = B"
    using assms by (simp_all add: Sigma_empty_iff)
qed

lemma ids_nonempty: "set all_districts \<noteq> {}" "set [1..CUSTOMERS_PER_DISTRICT] \<noteq> {}"
  "set [FIRST_UNPROCESSED_O_ID..CUSTOMERS_PER_DISTRICT] \<noteq> {}" "set [1..ITEM_COUNT] \<noteq> {}"
  "DISTRICT_LOW_ID \<le> DISTRICT_HIGH_ID" "1 \<le> CUSTOMERS_PER_DISTRICT" "FIRST_UNPROCESSED_O_ID \<le> CUSTOMERS_PER_DISTRICT" "1 \<le> ITEM_COUNT"
  by (simp_all only: set_upto atLeastatMost_empty_iff2)
    (simp_all add: DISTRICT_LOW_ID_def DISTRICT_HIGH_ID_def CUSTOMERS_PER_DISTRICT_def FIRST_UNPROCESSED_O_ID_def ITEM_COUNT_def)

lemma table_shape:
  assumes "\<And>d. map key (g d) = map (\<lambda>i. (w, d, i)) [a..b]" "a \<le> b"
  defines "rows \<equiv> concat (map g all_districts)"
  shows "int (length rows) = (w - w + 1) * (b - a + 1) * DISTRICT_COUNT"
    "min_of (map (\<lambda>x. fst (key x)) rows) = Some w" "max_of (map (\<lambda>x. fst (key x)) rows) = Some w"
    "min_of (map (\<lambda>x. fst (snd (key x))) rows) = Some DISTRICT_LOW_ID"
    "max_of (map (\<lambda>x. fst (snd (key x))) rows) = Some DISTRICT_HIGH_ID"
    "min_of (map (\<lambda>x. snd (snd (key x))) rows) = Some a" "max_of (map (\<lambda>x. snd (snd (key x))) rows) = Some b"
proof -
  have len: "length (g d) = nat (b - a + 1)" for d using arg_cong [OF assms(1), of length d] by simp
  have "length rows = nat DISTRICT_COUNT * nat (b - a + 1)"
    unfolding rows_def using length_concat_const [of g, OF len] all_districts_facts(3) by simp
  then show "int (length rows) = (w - w + 1) * (b - a + 1) * DISTRICT_COUNT" using assms(2)
    by (simp add: DISTRICT_COUNT_def DISTRICT_LOW_ID_def DISTRICT_HIGH_ID_def)
  have "[a..b] \<noteq> []" using assms(2) by (simp add: upto_Nil2)
  then have ne: "set [a..b] \<noteq> {}" by (simp only: set_empty not_False_eq_True)
  have k: "key ` set rows = {w} \<times> set all_districts \<times> set [a..b]"
    unfolding rows_def by (rule keys_concat [OF assms(1)])
  note pr = projections [OF k ids_nonempty(1) ne]
  show "min_of (map (\<lambda>x. fst (key x)) rows) = Some w" "max_of (map (\<lambda>x. fst (key x)) rows) = Some w"
    "min_of (map (\<lambda>x. fst (snd (key x))) rows) = Some DISTRICT_LOW_ID"
    "max_of (map (\<lambda>x. fst (snd (key x))) rows) = Some DISTRICT_HIGH_ID"
    "min_of (map (\<lambda>x. snd (snd (key x))) rows) = Some a" "max_of (map (\<lambda>x. snd (snd (key x))) rows) = Some b"
    using extrema [of "map (\<lambda>x. fst (key x)) rows" w w] extrema [of "map (\<lambda>x. fst (snd (key x))) rows" DISTRICT_LOW_ID DISTRICT_HIGH_ID]
      extrema [of "map (\<lambda>x. snd (snd (key x))) rows" a b]
    by (simp_all add: pr assms(2) ids_nonempty(5))
qed

lemma held_cardinality:
  assumes h: "holds_warehouse lf seed w db"
  shows "BaseCheckCustomerTable w w db" "BaseCheckStockTable w w db" "BaseCheckOorderTable w w db"
    "BaseCheckNewOrderTable w w db" "BaseCheckHistoryTable w w db"
proof -
  show "BaseCheckCustomerTable w w db"
    using h table_shape [of c_key "gen_customers seed w" w 1 CUSTOMERS_PER_DISTRICT, OF gen_keys(3) ids_nonempty(6)]
    by (simp add: BaseCheckCustomerTable_def rows_of_fold holds_warehouse_def Let_def c_key_def)
  show "BaseCheckOorderTable w w db"
    using h table_shape [of o_key "gen_orders seed w" w 1 CUSTOMERS_PER_DISTRICT, OF gen_keys(4) ids_nonempty(6)]
    by (simp add: BaseCheckOorderTable_def rows_of_fold holds_warehouse_def Let_def o_key_def)
  show "BaseCheckNewOrderTable w w db"
    using h table_shape [of no_key "gen_new_orders w" w FIRST_UNPROCESSED_O_ID CUSTOMERS_PER_DISTRICT, OF gen_keys(5) ids_nonempty(7)]
    by (simp add: BaseCheckNewOrderTable_def rows_of_fold holds_warehouse_def Let_def no_key_def)
  have "map (\<lambda>h. (h_c_w_id h, h_c_d_id h, h_c_id h)) (gen_history seed w d) = map (\<lambda>i. (w, d, i)) [1..CUSTOMERS_PER_DISTRICT]" for d
    by (simp add: gen_history_def history_of_def)
  from table_shape [of "\<lambda>h. (h_c_w_id h, h_c_d_id h, h_c_id h)" "gen_history seed w" w, OF this ids_nonempty(6)]
  show "BaseCheckHistoryTable w w db"
    using h by (simp add: BaseCheckHistoryTable_def rows_of_fold holds_warehouse_def Let_def)
  have ks: "s_w_id ` set (gen_stock lf seed w) = {w}" "s_i_id ` set (gen_stock lf seed w) = {1..ITEM_COUNT}"
    using ids_nonempty(8) by (auto simp: gen_stock_def stock_of_def image_image)
  have "int (length (gen_stock lf seed w)) = ITEM_COUNT" using ids_nonempty(8) by (simp add: gen_stock_def)
  moreover have "length (remdups (map s_w_id (gen_stock lf seed w))) = 1" by (simp add: length_remdups_card_conv ks)
  moreover have "min_of (map s_w_id (gen_stock lf seed w)) = Some w" "max_of (map s_w_id (gen_stock lf seed w)) = Some w"
    "min_of (map s_i_id (gen_stock lf seed w)) = Some 1" "max_of (map s_i_id (gen_stock lf seed w)) = Some ITEM_COUNT"
    using extrema [of "map s_w_id (gen_stock lf seed w)" w w] extrema [of "map s_i_id (gen_stock lf seed w)" 1 ITEM_COUNT]
    by (simp_all add: ks ids_nonempty(8))
  ultimately show "BaseCheckStockTable w w db"
    using h by (simp add: BaseCheckStockTable_def rows_of_fold holds_warehouse_def Let_def)
qed

lemma initial_lines_nonempty: "initial_lines seed w d i \<noteq> []"
  using initial_order_facts(5,6) [of seed w d i] by auto

lemma gen_lines_orders: "ol_o_id ` set (gen_lines seed w d) = {1..CUSTOMERS_PER_DISTRICT}"
proof -
  have "ol_o_id ` order_line_of ` set (initial_lines seed w d i) = {i}" for i
    using initial_lines_nonempty [of seed w d i] by (auto simp: initial_line_facts image_iff) (metis list.set_intros(1) neq_Nil_conv)
  then show ?thesis unfolding gen_lines_concat by (simp add: image_UN)
qed

lemma held_order_line_cardinality:
  assumes h: "holds_warehouse lf seed w db"
  shows "BaseCheckOrderLineTable w w db"
proof -
  let ?rows = "concat (map (gen_lines seed w) all_districts)"
  let ?count = "\<lambda>k. int (length (remdups (map ol_o_id (filter (\<lambda>l. (ol_w_id l, ol_d_id l) = k) ?rows))))"
  have at: "filter (\<lambda>l. (ol_w_id l, ol_d_id l) = (w, d)) ?rows = (if d \<in> set all_districts then gen_lines seed w d else [])" for d
    unfolding rows_pair gen_rows_of
    using filter_concat_key [OF all_districts_facts(1), of "gen_lines seed w" ol_d_id d] gen_lines_order [of _ seed w] by simp
  have ne: "set (gen_lines seed w d) \<noteq> {}" for d using gen_lines_orders [of seed w d] ids_nonempty(6) by auto
  have "(\<lambda>l. (ol_w_id l, ol_d_id l)) ` set (gen_lines seed w d) = {(w, d)}" for d
    using ne [of d] gen_lines_order [of _ seed w d] by (auto simp: image_iff ex_in_conv)
  then have g: "(\<lambda>l. (ol_w_id l, ol_d_id l)) ` set ?rows = {w} \<times> set all_districts" by (simp add: image_UN) auto
  then have "length (remdups (map (\<lambda>l. (ol_w_id l, ol_d_id l)) ?rows)) = card ({w} \<times> set all_districts)"
    by (simp only: length_remdups_card_conv set_map)
  also have "\<dots> = nat DISTRICT_COUNT"
    using distinct_card [OF all_districts_facts(1)] all_districts_facts(3) by (simp only: card_cartesian_product_singleton)
  finally have groups: "int (length (remdups (map (\<lambda>l. (ol_w_id l, ol_d_id l)) ?rows))) = (w - w + 1) * DISTRICT_COUNT"
    by (simp add: DISTRICT_COUNT_def DISTRICT_LOW_ID_def DISTRICT_HIGH_ID_def)
  have "?count k = CUSTOMERS_PER_DISTRICT" if kk: "k \<in> {w} \<times> set all_districts" for k
  proof -
    obtain d where k: "k = (w, d)" "d \<in> set all_districts" using kk by auto
    have "length (remdups (map ol_o_id (gen_lines seed w d))) = nat CUSTOMERS_PER_DISTRICT"
      by (simp add: length_remdups_card_conv gen_lines_orders)
    with k(2) ids_nonempty(6) show ?thesis unfolding k(1) at by simp
  qed
  then have "?count ` set (remdups (map (\<lambda>l. (ol_w_id l, ol_d_id l)) ?rows)) = {CUSTOMERS_PER_DISTRICT}"
    using ids_nonempty(1) unfolding set_remdups set_map g by (auto simp: image_iff)
  then have "set (map ?count (remdups (map (\<lambda>l. (ol_w_id l, ol_d_id l)) ?rows))) = {CUSTOMERS_PER_DISTRICT..CUSTOMERS_PER_DISTRICT}"
    by (simp only: set_map atLeastAtMost_singleton)
  from extrema [OF this order_refl] groups show ?thesis
    using h by (simp only: BaseCheckOrderLineTable_def Let_def in_range_self rows_of_fold holds_warehouse_def simp_thms)
qed

section \<open>Consistency of a loaded warehouse\<close>

lemma sum_list_const: "(\<And>x. x \<in> set xs \<Longrightarrow> f x = (c :: int)) \<Longrightarrow> sum_list (map f xs) = int (length xs) * c"
  by (induction xs) (simp_all add: algebra_simps)

lemma gen_history_sums:
  "sum_list (map h_amount (gen_history seed w d)) = CUSTOMERS_PER_DISTRICT * 1000"
  "sum_list (map h_amount (concat (map (gen_history seed w) all_districts))) = MoneyUnits WAREHOUSE_INITIAL_YTD"
proof -
  have a: "h \<in> set (gen_history seed w d) \<Longrightarrow> h_amount h = 1000" for h d
    by (auto simp: gen_history_def history_of_def CUSTOMER_INITIAL_YTD_PAYMENT_def Money_Scale_def)
  show s: "sum_list (map h_amount (gen_history seed w d)) = CUSTOMERS_PER_DISTRICT * 1000" for d
    using sum_list_const [of "gen_history seed w d" h_amount 1000, OF a] ids_nonempty(6) by (simp add: gen_history_def)
  have "sum_list (map h_amount (concat (map (gen_history seed w) ds))) = int (length ds) * (CUSTOMERS_PER_DISTRICT * 1000)" for ds
    by (induction ds) (simp_all add: s algebra_simps)
  then show "sum_list (map h_amount (concat (map (gen_history seed w) all_districts))) = MoneyUnits WAREHOUSE_INITIAL_YTD"
    by (simp add: WAREHOUSE_INITIAL_YTD_def Money_Scale_def CUSTOMERS_PER_DISTRICT_def DISTRICT_LOW_ID_def DISTRICT_HIGH_ID_def)
qed

lemma held_warehouse_row:
  assumes "holds_warehouse lf seed w db" "r \<in> set (warehouse db)" "w_id r = w"
  shows "w_ytd r = MoneyUnits WAREHOUSE_INITIAL_YTD"
proof -
  have "r \<in> set (rows_of w_id w (warehouse db))" using assms by (simp add: rows_of_def)
  with assms(1) show ?thesis by (simp add: holds_warehouse_def warehouse_of_def)
qed

lemma held_district_row:
  assumes "holds_warehouse lf seed w db" "r \<in> set (district db)" "d_w_id r = w"
  shows "d_id r \<in> set all_districts" "d_ytd r = MoneyUnits DISTRICT_INITIAL_YTD" "d_next_o_id r = CUSTOMERS_PER_DISTRICT + 1"
proof -
  have "r \<in> set (rows_of d_w_id w (district db))" using assms by (simp add: rows_of_def)
  with assms(1) have "r \<in> set (gen_districts seed w)" by (simp add: holds_warehouse_def)
  then show "d_id r \<in> set all_districts" "d_ytd r = MoneyUnits DISTRICT_INITIAL_YTD" "d_next_o_id r = CUSTOMERS_PER_DISTRICT + 1"
    by (auto simp: gen_districts_def district_of_def)
qed

lemma held_district_orders:
  assumes "holds_warehouse lf seed w db"
  shows "district_orders db (w, d) = (if d \<in> set all_districts then [1..CUSTOMERS_PER_DISTRICT] else [])"
    "district_new_orders db (w, d) = (if d \<in> set all_districts then [FIRST_UNPROCESSED_O_ID..CUSTOMERS_PER_DISTRICT] else [])"
proof -
  have "map o_id (gen_orders seed w d) = [1..CUSTOMERS_PER_DISTRICT]" by (simp add: gen_orders_def comp_def initial_order_facts)
  then show "district_orders db (w, d) = (if d \<in> set all_districts then [1..CUSTOMERS_PER_DISTRICT] else [])"
    unfolding district_orders_def held_tables [OF assms] by simp
  have "map no_o_id (gen_new_orders w d) = [FIRST_UNPROCESSED_O_ID..CUSTOMERS_PER_DISTRICT]"
    by (simp add: gen_new_orders_def comp_def new_order_of_def GenerateNewOrder_def)
  then show "district_new_orders db (w, d) = (if d \<in> set all_districts then [FIRST_UNPROCESSED_O_ID..CUSTOMERS_PER_DISTRICT] else [])"
    unfolding district_new_orders_def held_tables [OF assms] by simp
qed

lemma held_3322: "holds_warehouse lf seed w db \<Longrightarrow> ConsistencyCheck3322 w w db"
  unfolding check3322_iff
proof (intro ballI impI)
  fix r assume h: "holds_warehouse lf seed w db" and r: "r \<in> set (district db)" "in_range w w (d_w_id r)"
  have "d_w_id r = w" using r by simp
  note d = held_district_row [OF h r(1) this]
  have k: "d_key r = (w, d_id r)" using r by (simp add: d_key_def)
  have "max_of [1..CUSTOMERS_PER_DISTRICT] = Some CUSTOMERS_PER_DISTRICT"
    "max_of [FIRST_UNPROCESSED_O_ID..CUSTOMERS_PER_DISTRICT] = Some CUSTOMERS_PER_DISTRICT"
    by (rule extrema(2) [OF set_upto]; simp add: ids_nonempty)+
  with d show "max_of (district_orders db (d_key r)) = Some (d_next_o_id r - 1) \<and>
      (district_new_orders db (d_key r) = [] \<or> max_of (district_new_orders db (d_key r)) = Some (d_next_o_id r - 1))"
    unfolding k held_district_orders [OF h] by simp
qed

lemma held_3323: "holds_warehouse lf seed w db \<Longrightarrow> ConsistencyCheck3323 w w db"
  unfolding check3323_iff
proof (intro allI impI)
  fix v d assume h: "holds_warehouse lf seed w db" and a: "in_range w w v \<and> district_new_orders db (v, d) \<noteq> []"
  then have "v = w" "d \<in> set all_districts" using held_district_orders(2) [OF h, of d] by (auto split: if_splits)
  then have ids: "district_new_orders db (v, d) = [FIRST_UNPROCESSED_O_ID..CUSTOMERS_PER_DISTRICT]"
    using held_district_orders(2) [OF h, of d] by simp
  have "Max {FIRST_UNPROCESSED_O_ID..CUSTOMERS_PER_DISTRICT} = CUSTOMERS_PER_DISTRICT"
    "Min {FIRST_UNPROCESSED_O_ID..CUSTOMERS_PER_DISTRICT} = FIRST_UNPROCESSED_O_ID"
    using ids_nonempty(7) by (auto intro: Max_eqI Min_eqI)
  then show "int (length (district_new_orders db (v, d))) =
      Max (set (district_new_orders db (v, d))) - Min (set (district_new_orders db (v, d))) + 1"
    unfolding ids using ids_nonempty(7) by simp
qed

lemma gen_lines_count:
  "sum_list (map o_ol_cnt (gen_orders seed w d)) = int (length (gen_lines seed w d))"
proof -
  have "sum_list (map o_ol_cnt (map (\<lambda>i. oorder_of (initial_order seed w d i)) is)) =
      int (length (concat (map (\<lambda>i. map order_line_of (initial_lines seed w d i)) is)))" for "is"
    by (induction "is") (simp_all add: initial_order_facts(5))
  then show ?thesis unfolding gen_orders_def gen_lines_concat .
qed

lemma held_3324: "holds_warehouse lf seed w db \<Longrightarrow> ConsistencyCheck3324 w w db"
  unfolding check3324_iff
proof (intro allI impI)
  fix v d assume h: "holds_warehouse lf seed w db" and "in_range w w v"
  then have v: "v = w" by simp
  have ne: "gen_orders seed w d \<noteq> []" "gen_lines seed w d \<noteq> []"
    using gen_lines_orders [of seed w d] ids_nonempty(2,6) by (auto simp: gen_orders_def)
  have "sum_list (map (\<lambda>l. 1) (gen_lines seed w d)) = int (length (gen_lines seed w d))"
    using sum_list_const [of "gen_lines seed w d" "\<lambda>l. 1" 1] by simp
  with ne show "group_sum (map o_ol_cnt (filter (\<lambda>x. (o_w_id x, o_d_id x) = (v, d)) (oorder db))) =
      group_sum (map (\<lambda>l. 1) (filter (\<lambda>l. (ol_w_id l, ol_d_id l) = (v, d)) (order_line db)))"
    unfolding v held_tables [OF h] by (simp add: group_sum_def gen_lines_count)
qed

lemma held_key_row:
  assumes "holds_warehouse lf seed w db" "x \<in> set (oorder db)" "o_key x = (w, d, i)"
  shows "d \<in> set all_districts" "i \<in> {1..CUSTOMERS_PER_DISTRICT}" "x = oorder_of (initial_order seed w d i)"
  using held_order_rows [OF assms(1,2)] assms(3) by (auto simp: o_key_def)

lemma held_3325: "holds_warehouse lf seed w db \<Longrightarrow> ConsistencyCheck3325 w w db"
  unfolding check3325_iff
proof (intro conjI ballI impI)
  fix n assume h: "holds_warehouse lf seed w db" and n: "n \<in> set (new_order db)" "in_range w w (no_w_id n)"
  have w: "no_w_id n = w" using n by simp
  note r = held_new_order_rows [OF h n(1) w]
  have "1 \<le> FIRST_UNPROCESSED_O_ID" by (simp add: FIRST_UNPROCESSED_O_ID_def)
  with r have i: "no_o_id n \<in> {1..CUSTOMERS_PER_DISTRICT}" by simp
  have "o_key (oorder_of (initial_order seed w (no_d_id n) (no_o_id n))) = no_key n"
    using w by (simp add: o_key_def no_key_def initial_order_facts)
  with held_order_exists [OF h _ i] r show "\<exists>x \<in> set (oorder db). o_key x = no_key n" by blast
  fix x assume x: "x \<in> set (oorder db)" "o_key x = no_key n"
  have "o_key x = (w, no_d_id n, no_o_id n)" using x(2) w by (simp add: no_key_def)
  from held_key_row(3) [OF h x(1) this] show "o_carrier_id x = None" using r by (simp add: initial_order_facts)
next
  fix x assume h: "holds_warehouse lf seed w db" and x: "x \<in> set (oorder db)" "in_range w w (o_w_id x) \<and> o_carrier_id x = None"
  have w: "o_w_id x = w" using x by simp
  note r = held_order_rows [OF h x(1) w]
  then have "FIRST_UNPROCESSED_O_ID \<le> o_id x" using x(2) initial_order_facts(4) by metis
  with r have "(w, o_d_id x, o_id x) \<in> no_key ` set (new_order db)" by (intro held_new_order_exists [OF h]) simp_all
  then show "o_key x \<in> no_key ` set (new_order db)" using w by (simp add: o_key_def)
qed

lemma held_3326: "holds_warehouse lf seed w db \<Longrightarrow> ConsistencyCheck3326 w w db"
  unfolding check3326_iff
proof (intro conjI ballI impI)
  fix x assume h: "holds_warehouse lf seed w db" and x: "x \<in> set (oorder db)" "in_range w w (o_w_id x)"
  have w: "o_w_id x = w" using x by simp
  note r = held_order_rows [OF h x(1) w]
  have "o_key x = (w, o_d_id x, o_id x)" using w by (simp add: o_key_def)
  then have "filter (\<lambda>l. ol_order l = o_key x) (order_line db) = map order_line_of (initial_lines seed w (o_d_id x) (o_id x))"
    using r by (simp only: held_order_lines [OF h]) simp
  then show "o_ol_cnt x = int (length (filter (\<lambda>l. ol_order l = o_key x) (order_line db)))"
    using r initial_order_facts(5) [of seed w "o_d_id x" "o_id x"] by simp
next
  fix l assume h: "holds_warehouse lf seed w db" and l: "l \<in> set (order_line db)" "in_range w w (ol_w_id l)"
  have w: "ol_w_id l = w" using l by simp
  note r = held_lines [OF h l(1) w]
  have "ol_order l = o_key (oorder_of (initial_order seed w (ol_d_id l) (ol_o_id l)))"
    using w by (simp add: ol_order_def o_key_def initial_order_facts)
  with held_order_exists [OF h, of "ol_d_id l" "ol_o_id l"] r show "ol_order l \<in> o_key ` set (oorder db)" by blast
qed

lemma held_line_order:
  assumes "holds_warehouse lf seed w db" "l \<in> set (order_line db)" "ol_w_id l = w" "x \<in> set (oorder db)" "o_key x = ol_order l"
  shows "x = oorder_of (initial_order seed w (ol_d_id l) (ol_o_id l))"
  using assms by (intro held_key_row(3) [OF assms(1,4)]) (simp add: ol_order_def)

lemma held_3327: "holds_warehouse lf seed w db \<Longrightarrow> ConsistencyCheck3327 w w db"
  unfolding check3327_iff
proof (intro ballI impI)
  fix l x assume h: "holds_warehouse lf seed w db" and l: "l \<in> set (order_line db)" and x: "x \<in> set (oorder db)"
    and a: "in_range w w (ol_w_id l) \<and> o_key x = ol_order l"
  have w: "ol_w_id l = w" using a by simp
  have "x = oorder_of (initial_order seed w (ol_d_id l) (ol_o_id l))" using held_line_order [OF h l w x] a by blast
  then show "ol_delivery_d l = None \<longleftrightarrow> o_carrier_id x = None"
    using held_line_facts(1) [OF h l w] by (simp add: initial_order_facts not_less)
qed

lemma held_3328: "holds_warehouse lf seed w db \<Longrightarrow> ConsistencyCheck3328 w w db"
  unfolding check3328_iff
  using held_warehouse_row [of lf seed w db] gen_history_sums(2) [of seed w]
  by (auto simp: rows_of_fold holds_warehouse_def)

lemma held_3329: "holds_warehouse lf seed w db \<Longrightarrow> ConsistencyCheck3329 w w db"
  unfolding check3329_iff
proof (intro ballI impI)
  fix r assume h: "holds_warehouse lf seed w db" and r: "r \<in> set (district db)" "in_range w w (d_w_id r)"
  have w: "d_w_id r = w" using r by simp
  have k: "d_key r = (w, d_id r)" using w by (simp add: d_key_def)
  show "d_ytd r = sum_list (map h_amount (filter (\<lambda>h. (h_w_id h, h_d_id h) = d_key r) (history db)))"
    unfolding k held_tables [OF h] using held_district_row [OF h r(1) w]
    by (simp add: gen_history_sums(1) DISTRICT_INITIAL_YTD_def Money_Scale_def CUSTOMERS_PER_DISTRICT_def)
qed

lemma held_customer_row:
  assumes "holds_warehouse lf seed w db" "c \<in> set (customer db)" "c_w_id c = w"
  shows "c_d_id c \<in> set all_districts" "c_id c \<in> {1..CUSTOMERS_PER_DISTRICT}" "c_balance c = - 1000" "c_ytd_payment c = 1000"
proof -
  have "c \<in> set (concat (map (gen_customers seed w) all_districts))"
    using assms rows_of_mem [of c "customer db" c_w_id w] by (simp add: holds_warehouse_def)
  then show "c_d_id c \<in> set all_districts" "c_id c \<in> {1..CUSTOMERS_PER_DISTRICT}" "c_balance c = - 1000" "c_ytd_payment c = 1000"
    by (auto simp: gen_customers_def customer_row_facts)
qed

lemma held_delivered_sum:
  assumes h: "holds_warehouse lf seed w db"
  shows "delivered_sum db (w, d, c) = 0"
proof -
  have "sum_list (map ol_amount (filter (\<lambda>l. ol_order l = o_key x \<and> ol_delivery_d l \<noteq> None) (order_line db))) = 0"
    if "o_customer x = (w, d, c)" for x
  proof -
    have "ol_amount l = 0" if l: "l \<in> set (order_line db)" "ol_order l = o_key x" "ol_delivery_d l \<noteq> None" for l
    proof -
      have "ol_w_id l = w" using l(2) \<open>o_customer x = (w, d, c)\<close> by (simp add: ol_order_def o_key_def o_customer_def)
      from held_line_facts [OF h l(1) this] l(3) show ?thesis by (auto split: if_splits)
    qed
    then show ?thesis using sum_list_const [of "filter (\<lambda>l. ol_order l = o_key x \<and> ol_delivery_d l \<noteq> None) (order_line db)" ol_amount 0] by simp
  qed
  then show ?thesis unfolding delivered_sum_def
    using sum_list_const [of "filter (\<lambda>x. o_customer x = (w, d, c)) (oorder db)"
        "\<lambda>x. sum_list (map ol_amount (filter (\<lambda>l. ol_order l = o_key x \<and> ol_delivery_d l \<noteq> None) (order_line db)))" 0] by simp
qed

lemma held_history_sum:
  assumes "holds_warehouse lf seed w db" "d \<in> set all_districts" "c \<in> {1..CUSTOMERS_PER_DISTRICT}"
  shows "history_sum db (w, d, c) = 1000"
proof -
  have "filter (\<lambda>h. h_customer h = (w, d, c)) (history db) =
      filter (\<lambda>h. h_c_id h = c) (filter (\<lambda>h. (h_c_w_id h, h_c_d_id h) = (w, d)) (history db))"
    by (simp add: h_customer_def filter_filter conj_assoc)
  also have "\<dots> = filter (\<lambda>h. h_c_id h = c) (concat (map (\<lambda>c. [history_of (GenerateHistory seed w d c)]) [1..CUSTOMERS_PER_DISTRICT]))"
    unfolding held_tables [OF assms(1)] gen_history_def concat_map_singleton using assms(2) by simp
  also have "\<dots> = [history_of (GenerateHistory seed w d c)]"
    using assms(3) by (subst filter_concat_key) (auto simp: history_of_def)
  finally show ?thesis by (simp add: history_sum_def history_of_def CUSTOMER_INITIAL_YTD_PAYMENT_def Money_Scale_def)
qed

lemma held_customers: "holds_warehouse lf seed w db \<Longrightarrow> ConsistencyCheck33210 w w db \<and> ConsistencyCheck33212 w w db"
  unfolding check33210_iff check33212_iff
  using held_customer_row [of lf seed w db] held_delivered_sum [of lf seed w db] held_history_sum [of lf seed w db]
  by (auto simp: c_key_def)

lemma held_33211: "holds_warehouse lf seed w db \<Longrightarrow> ConsistencyCheck33211 w w db"
proof -
  assume h: "holds_warehouse lf seed w db"
  let ?os = "filter (\<lambda>x. in_range w w (o_w_id x)) (oorder db)" and ?ns = "filter (\<lambda>n. in_range w w (no_w_id n)) (new_order db)"
  have "int (length (filter (\<lambda>x. (o_w_id x, o_d_id x) = k) ?os)) - int (length (filter (\<lambda>n. (no_w_id n, no_d_id n) = k) ?ns))
      = FIRST_UNPROCESSED_O_ID - 1"
    if k: "k \<in> (\<lambda>x. (o_w_id x, o_d_id x)) ` set ?os \<union> (\<lambda>n. (no_w_id n, no_d_id n)) ` set ?ns" for k
  proof -
    obtain d where d: "k = (w, d)" "d \<in> set all_districts"
      using k held_order_rows [OF h] held_new_order_rows [OF h] by fastforce
    have "filter (\<lambda>x. (o_w_id x, o_d_id x) = k) ?os = filter (\<lambda>x. (o_w_id x, o_d_id x) = (w, d)) (oorder db)"
      "filter (\<lambda>n. (no_w_id n, no_d_id n) = k) ?ns = filter (\<lambda>n. (no_w_id n, no_d_id n) = (w, d)) (new_order db)"
      unfolding d by (auto simp: filter_filter intro!: filter_cong)
    then show ?thesis unfolding held_tables [OF h] using d(2) ids_nonempty(6,7)
      by (simp add: gen_orders_def gen_new_orders_def)
  qed
  then show ?thesis
    unfolding ConsistencyCheck33211_def Let_def no_rows_filter set_remdups set_append set_map by blast
qed

lemma held_post_import:
  assumes h: "holds_warehouse lf seed w db"
  shows "PostImportCheckNoCarriers w w db" "PostImportCheckCarrierRange w w db" "PostImportCheckNoDeliveryDates w w db"
    "PostImportCheckDeliveryEqualsEntry w w db" "PostImportCheckDeliveredAmountZero w w db"
proof -
  note lf = held_line_facts [OF h]
  have ord: "o_carrier_id x = None \<longleftrightarrow> FIRST_UNPROCESSED_O_ID \<le> o_id x" "o_carrier_id x = Some c \<Longrightarrow> 1 \<le> c \<and> c \<le> 10"
    if x: "x \<in> set (oorder db)" "o_w_id x = w" for x c
  proof -
    have e: "x = oorder_of (initial_order seed w (o_d_id x) (o_id x))" using held_order_rows [OF h x] by blast
    show "o_carrier_id x = None \<longleftrightarrow> FIRST_UNPROCESSED_O_ID \<le> o_id x" using initial_order_facts(4) e by metis
    assume "o_carrier_id x = Some c"
    then have "go_CarrierId (initial_order seed w (o_d_id x) (o_id x)) = Some c" by (subst (asm) e) (simp add: oorder_of_def)
    then show "1 \<le> c \<and> c \<le> 10" unfolding initial_order_def by (rule GenerateOrder_carrier)
  qed
  show "PostImportCheckNoCarriers w w db"
    unfolding PostImportCheckNoCarriers_def no_rows_filter using ord(1) by auto
  show "PostImportCheckCarrierRange w w db"
    unfolding PostImportCheckCarrierRange_def no_rows_filter using ord by (fastforce split: option.splits)
  show "PostImportCheckNoDeliveryDates w w db"
    unfolding PostImportCheckNoDeliveryDates_def no_rows_filter using lf(1) by auto
  show "PostImportCheckDeliveredAmountZero w w db"
    unfolding PostImportCheckDeliveredAmountZero_def no_rows_filter using lf(2) by auto
  show "PostImportCheckDeliveryEqualsEntry w w db"
    unfolding PostImportCheckDeliveryEqualsEntry_def CheckNoRows_def concat_eq_Nil_conv
    using lf(1) held_line_order [OF h] by (force simp: filter_empty_conv)
qed

section \<open>A loaded database\<close>

definition populated :: "bool \<Rightarrow> u64 \<Rightarrow> int \<Rightarrow> pg_db \<Rightarrow> bool" where
  "populated lf seed wh db \<longleftrightarrow> 0 < wh \<and> (\<forall>w \<in> {1..wh}. holds_warehouse lf seed w db) \<and>
     w_id ` set (warehouse db) \<subseteq> {1..wh} \<and> d_w_id ` set (district db) \<subseteq> {1..wh} \<and> map i_id (item db) = [1..ITEM_COUNT]"

lemma length_partition:
  "f ` set t \<subseteq> {1..n} \<Longrightarrow> int (length t) = (\<Sum>w \<in> {1..n}. int (length (rows_of f w t)))" for n :: int
proof (induction t)
  case (Cons r t)
  have "(\<Sum>w \<in> {1..n}. int (length (rows_of f w (r # t)))) = (\<Sum>w \<in> {1..n}. int (length (rows_of f w t)) + (if w = f r then 1 else 0))"
    by (rule sum.cong) (auto simp: rows_of_def)
  also have "\<dots> = (\<Sum>w \<in> {1..n}. int (length (rows_of f w t))) + 1" using Cons.prems by (simp add: sum.distrib sum.delta)
  finally show ?case using Cons by simp
qed (simp add: rows_of_def)

lemma populated_cardinality:
  assumes p: "populated lf seed wh db"
  shows "BaseCheckWarehouseTable wh db" "BaseCheckDistrictTable wh db" "BaseCheckItemTable db"
proof -
  have wh: "1 \<le> wh" and h: "\<And>w. w \<in> {1..wh} \<Longrightarrow> holds_warehouse lf seed w db"
    and sub: "w_id ` set (warehouse db) \<subseteq> {1..wh}" "d_w_id ` set (district db) \<subseteq> {1..wh}"
    using p by (simp_all add: populated_def)
  have wr: "rows_of w_id w (warehouse db) = [warehouse_of (GenerateWarehouse seed w)]" "rows_of d_w_id w (district db) = gen_districts seed w"
    if "w \<in> {1..wh}" for w
    using h [OF that] by (simp_all add: holds_warehouse_def)
  have dk: "map d_id (gen_districts seed w) = all_districts" for w by (simp add: gen_districts_def district_of_def comp_def)
  have "int (length (gen_districts seed w)) = DISTRICT_COUNT" for w
    using arg_cong [OF dk, of length w] all_districts_facts(3) by (simp add: DISTRICT_COUNT_def DISTRICT_LOW_ID_def DISTRICT_HIGH_ID_def)
  then have l: "int (length (warehouse db)) = wh" "int (length (district db)) = wh * DISTRICT_COUNT"
    using length_partition [OF sub(1)] length_partition [OF sub(2)] wh by (simp_all add: wr)
  have in_t: "w \<in> f ` set t" if "rows_of f w t \<noteq> []" for f :: "'r \<Rightarrow> int" and w t
    using that by (auto simp: rows_of_def filter_empty_conv)
  have gd: "gen_districts seed w \<noteq> []" for w using dk [of w] ids_nonempty(1) by (metis list.map_disc_iff list.set(1))
  have sw: "w_id ` set (warehouse db) = {1..wh}" and sd: "d_w_id ` set (district db) = {1..wh}"
    using sub in_t [of w_id _ "warehouse db"] in_t [of d_w_id _ "district db"] by (auto simp: wr gd)
  have sdi: "d_id ` set (district db) = set all_districts"
  proof (intro equalityI subsetI)
    fix x assume "x \<in> d_id ` set (district db)"
    then obtain r where r: "r \<in> set (district db)" "x = d_id r" by blast
    with sub(2) have "d_w_id r \<in> {1..wh}" by blast
    from held_district_row(1) [OF h [OF this] r(1) refl] r(2) show "x \<in> set all_districts" by simp
  next
    fix x assume "x \<in> set all_districts"
    then have "x \<in> d_id ` set (rows_of d_w_id 1 (district db))" using wr(2) [of 1] dk [of 1] wh by (metis atLeastAtMost_iff list.set_map order_refl)
    then show "x \<in> d_id ` set (district db)" by (auto simp: rows_of_def)
  qed
  show "BaseCheckWarehouseTable wh db"
    using extrema [of "map w_id (warehouse db)" 1 wh] l(1) sw wh by (simp add: BaseCheckWarehouseTable_def)
  show "BaseCheckDistrictTable wh db"
    using extrema [of "map d_w_id (district db)" 1 wh] extrema [of "map d_id (district db)" DISTRICT_LOW_ID DISTRICT_HIGH_ID] l(2) sd sdi wh ids_nonempty(5)
    by (simp add: BaseCheckDistrictTable_def)
  have "int (length (item db)) = ITEM_COUNT" using p ids_nonempty(8) by (metis length_map length_upto add_diff_cancel_right' diff_add_cancel nat_0_le order_trans zero_le_one populated_def)
  then show "BaseCheckItemTable db"
    using p extrema [of "map i_id (item db)" 1 ITEM_COUNT] ids_nonempty(8) by (simp add: BaseCheckItemTable_def populated_def)
qed

lemma populated_global:
  assumes p: "populated lf seed wh db"
  shows "ConsistencyCheck3321 db" "PostImportCheckNextOrderId db" "PostImportCheckWarehouseYtd db" "PostImportCheckDistrictYtd db"
proof -
  have h: "\<And>w. w \<in> {1..wh} \<Longrightarrow> holds_warehouse lf seed w db"
    and sub: "w_id ` set (warehouse db) \<subseteq> {1..wh}" "d_w_id ` set (district db) \<subseteq> {1..wh}"
    using p by (simp_all add: populated_def)
  have hw: "holds_warehouse lf seed (w_id r) db" if "r \<in> set (warehouse db)" for r using h sub(1) that by blast
  have hd: "holds_warehouse lf seed (d_w_id r) db" if "r \<in> set (district db)" for r using h sub(2) that by blast
  have s: "sum_list (map d_ytd (gen_districts seed w)) = MoneyUnits WAREHOUSE_INITIAL_YTD" for w
    using sum_list_const [of all_districts "\<lambda>d. d_ytd (district_of (GenerateDistrict seed w d))" "MoneyUnits DISTRICT_INITIAL_YTD"]
    by (simp add: gen_districts_def comp_def district_of_def)
      (simp add: DISTRICT_INITIAL_YTD_def WAREHOUSE_INITIAL_YTD_def Money_Scale_def DISTRICT_LOW_ID_def DISTRICT_HIGH_ID_def)
  show "ConsistencyCheck3321 db"
    unfolding check3321_iff rows_of_fold using held_warehouse_row [OF hw _ refl] hw by (auto simp: holds_warehouse_def s)
  show "PostImportCheckNextOrderId db" "PostImportCheckDistrictYtd db"
    unfolding PostImportCheckNextOrderId_def PostImportCheckDistrictYtd_def no_rows_filter
    using held_district_row(2,3) [OF hd _ refl] by auto
  show "PostImportCheckWarehouseYtd db"
    unfolding PostImportCheckWarehouseYtd_def no_rows_filter using held_warehouse_row [OF hw _ refl] by auto
qed

lemma single_chunks:
  "(s, e) \<in> set (range_chunks a wh kWarehouseCheckRange) \<Longrightarrow> s = e \<and> a \<le> s \<and> s \<le> wh"
proof (induction a wh kWarehouseCheckRange rule: range_chunks.induct)
  case (1 a wh)
  show ?case
  proof (cases "a \<le> wh")
    case True
    from "1.prems" have "(s, e) = (a, a) \<or> (s, e) \<in> set (range_chunks (a + kWarehouseCheckRange) wh kWarehouseCheckRange)"
      by (subst (asm) range_chunks.simps) (use True in \<open>auto simp: kWarehouseCheckRange_def min_def split: if_splits\<close>)
    with "1.hyps" True show ?thesis by (auto simp: kWarehouseCheckRange_def)
  next
    case False
    with "1.prems" show ?thesis by (subst (asm) range_chunks.simps) simp
  qed
qed

lemma populated_chunk:
  assumes "populated lf seed wh db" "(s, e) \<in> set (range_chunks 1 wh kWarehouseCheckRange)"
  shows "s = e" "holds_warehouse lf seed e db"
  using single_chunks [OF assms(2)] assms(1) by (auto simp: populated_def)

lemma populated_ranged:
  assumes p: "populated lf seed wh db" and c: "\<And>w. holds_warehouse lf seed w db \<Longrightarrow> f w w db"
  shows "list_all (\<lambda>task. task db) (map (\<lambda>(s, e). f s e) (range_chunks 1 wh kWarehouseCheckRange))"
  using populated_chunk [OF p] c by (fastforce simp: list_all_iff)

lemma populated_checks:
  assumes p: "populated lf seed wh db" and ph: "phase \<in> {AfterImport, AfterTest}"
  shows "ReportOk (RunPgChecks wh phase db)"
proof -
  have wh: "0 < wh" using p by (simp add: populated_def)
  note r = populated_ranged [OF p]
  have "list_all (job_passes db) (BuildCardinalityJobs wh imp)" for imp
    unfolding BuildCardinalityJobs_def AddSingleJob_def AddRangedJob_def Let_def
    by (simp add: job_passes_def r held_cardinality held_order_line_cardinality populated_cardinality [OF p])
  moreover have "list_all (job_passes db) (BuildConsistencyJobs wh imp)" for imp
    unfolding BuildConsistencyJobs_def AddSingleJob_def AddRangedJob_def Let_def
    by (simp add: job_passes_def r held_3322 held_3323 held_3324 held_3325 held_3326 held_3327 held_3328 held_3329 held_customers
        held_33211 held_post_import populated_global [OF p])
  ultimately show ?thesis by (simp add: ReportOk_iff [OF wh])
qed

end
