(* ===== verification/Pg_Import.thy ===== *)
theory Pg_Import
  imports Pg_Population "HOL-Library.Multiset"
begin

text \<open>
  \<^verbatim>\<open>ImportSync\<close> of \<^verbatim>\<open>tpcc/dbms/pgsql/import.cpp\<close>: the item table is loaded (or waited for) first, then the
  loader threads load their shares of the warehouses, each warehouse in transactions of its own. The
  threads are interleaved arbitrarily; a thread that fails requests the stop of all.
\<close>

section \<open>The import\<close>

text \<open>The polls of \<^verbatim>\<open>WaitForGlobalItems\<close>: at each one, whether a stop is requested and the number of items
  the server counts. The answer is missing while the wait goes on.\<close>

fun WaitForGlobalItems :: "(bool \<times> int) list \<Rightarrow> unit result option" where
  "WaitForGlobalItems [] = None"
| "WaitForGlobalItems ((stop_requested, items) # polls) =
     (if stop_requested then Some (Inl (RuntimeError ''Interrupted while waiting for global item table''))
      else if items \<ge> ITEM_COUNT then Some (Inr ())
      else WaitForGlobalItems polls)"

definition ThrowIfFailed :: "TPutBatchResult \<Rightarrow> string \<Rightarrow> unit result" where
  "ThrowIfFailed res what =
     (if pb_Outcome res \<noteq> PutCompleted then Inl (RuntimeError (what @ '' failed: '' @ pb_Message res)) else Inr ())"

record import_state =
  is_Db :: pg_db
  is_Pending :: "int list list"
  is_Loaded :: nat
  is_Stopped :: bool

text \<open>Everything before the first thread starts: the assigned warehouses, the number of threads and the
  global items, loaded through the connection \<open>conn\<close> by the owner and waited for by everyone else.\<close>

definition import_items :: "bool \<Rightarrow> TImportConfig \<Rightarrow> (bool \<times> int) list \<Rightarrow> pg_db PgSession \<Rightarrow> pg_db result option" where
  "import_items left_first config polls conn =
     (if im_OwnsGlobalData config then
        (case PutItemsIdempotent left_first (im_Seed config) (im_BatchRows config) conn of
           (res, conn1) \<Rightarrow> Some (map_r (\<lambda>_. ss_disk conn1) (ThrowIfFailed res ''item PutBatch'')))
      else map_option (map_r (\<lambda>_. ss_disk conn)) (WaitForGlobalItems polls))"

definition import_start ::
  "bool \<Rightarrow> TImportConfig \<Rightarrow> nat \<Rightarrow> (bool \<times> int) list \<Rightarrow> pg_db PgSession \<Rightarrow> (nat \<times> import_state) result option" where
  "import_start left_first config cpus polls conn =
     (case bind_r (import_ranges config) (\<lambda>ranges. map_r (\<lambda>n. (ranges, n)) (CountWarehouses ranges)) of
        Inl e \<Rightarrow> Some (Inl e)
      | Inr (ranges, assigned) \<Rightarrow>
          (let threadCount = import_threads config cpus assigned in
           map_option (map_r (\<lambda>db. (assigned, \<lparr> is_Db = db,
               is_Pending = map (thread_share threadCount (warehouse_ids ranges)) [0..<threadCount],
               is_Loaded = 0, is_Stopped = False \<rparr>)))
             (import_items left_first config polls conn)))"

text \<open>A thread takes its next warehouse when no stop is requested. Its connection sees the committed
  database and answers anything, except that nothing takes effect on a connection that is then lost.\<close>

inductive import_step :: "bool \<Rightarrow> TImportConfig \<Rightarrow> import_state \<Rightarrow> import_state \<Rightarrow> bool"
  for left_first config where
  loaded: "\<lbrakk>\<not> is_Stopped st; tid < length (is_Pending st); is_Pending st ! tid = wh # rest; ss_disk conn = is_Db st;
     no_lost_effect (ss_script conn);
     PutWarehouseIdempotent left_first (im_Seed config) wh (im_BatchRows config) conn = (res, conn');
     pb_Outcome res = PutCompleted\<rbrakk>
   \<Longrightarrow> import_step left_first config st
     (st \<lparr> is_Db := ss_disk conn', is_Pending := (is_Pending st) [tid := rest], is_Loaded := is_Loaded st + 1 \<rparr>)"
| failed: "\<lbrakk>\<not> is_Stopped st; tid < length (is_Pending st); is_Pending st ! tid = wh # rest; ss_disk conn = is_Db st;
     no_lost_effect (ss_script conn);
     PutWarehouseIdempotent left_first (im_Seed config) wh (im_BatchRows config) conn = (res, conn');
     pb_Outcome res \<noteq> PutCompleted\<rbrakk>
   \<Longrightarrow> import_step left_first config st
     (st \<lparr> is_Db := ss_disk conn', is_Pending := (is_Pending st) [tid := []], is_Stopped := True \<rparr>)"
| interrupted: "import_step left_first config st (st \<lparr> is_Stopped := True \<rparr>)"

text \<open>The main thread waits until every warehouse is loaded or a stop is requested, and raises in the
  second case.\<close>

definition import_result :: "nat \<Rightarrow> import_state \<Rightarrow> unit result option" where
  "import_result assigned st =
     (if is_Stopped st then Some (Inl (RuntimeError ''Import was interrupted or failed. See logs.''))
      else if is_Loaded st \<ge> assigned then Some (Inr ())
      else None)"

section \<open>Items\<close>

definition gen_items :: "bool \<Rightarrow> u64 \<Rightarrow> item_row list" where
  "gen_items lf seed = map (\<lambda>i. item_of (GenerateItem lf seed i)) [1..ITEM_COUNT]"

lemma gen_items_ids: "map i_id (gen_items lf seed) = [1..ITEM_COUNT]"
  by (simp add: gen_items_def comp_def item_of_def)

lemma upsert_new: "distinct (map i_id (t @ rs)) \<Longrightarrow> fold upsert_item rs t = t @ rs"
proof (induction rs arbitrary: t)
  case (Cons r rs)
  then have "upsert_item r t = t @ [r]" by (auto simp: upsert_item_def)
  with Cons show ?case by simp
qed simp

lemma upsert_keeps_ids: "set (map i_id rs) \<subseteq> set (map i_id t) \<Longrightarrow> map i_id (fold upsert_item rs t) = map i_id t"
proof (induction rs arbitrary: t)
  case (Cons r rs)
  have "map i_id (upsert_item r t) = map i_id t"
    using Cons.prems by (auto simp: upsert_item_def)
  with Cons.IH [of "upsert_item r t"] Cons.prems show ?case by simp
qed simp

lemma effect_stage:
  "effect d (ThenFold cs acc (\<lambda>staged (s, e). exec_sql (\<lambda>db. Inr (staged @ map f [s..e], db)))) w =
     Inr (acc @ map f (concat (map (\<lambda>(s, e). [s..e]) cs)), w)"
proof (induction cs arbitrary: acc)
  case Nil
  show ?case by (simp add: effect_def)
next
  case (Cons c cs)
  obtain s e where c: "c = (s, e)" by fastforce
  have "effect d (Then (exec_sql (\<lambda>db. Inr (acc @ map f [s..e], db))) (\<lambda>nxt. ThenFold cs nxt
      (\<lambda>staged (s, e). exec_sql (\<lambda>db. Inr (staged @ map f [s..e], db))))) w =
    effect d (ThenFold cs (acc @ map f [s..e]) (\<lambda>staged (s, e). exec_sql (\<lambda>db. Inr (staged @ map f [s..e], db)))) w"
    by (simp add: effect_Then local_exec)
  with c Cons show ?case by simp
qed

lemma effect_items:
  assumes "batch_ok b"
  shows "effect d (LoadItems lf seed b) db = Inr ((), db \<lparr> item := fold upsert_item (gen_items lf seed) (item db) \<rparr>)"
proof -
  obtain cs where cs: "load_chunks 1 ITEM_COUNT (EffectiveLoadBatchRows b) = Inr cs" "concat (map (\<lambda>(s, e). [s..e]) cs) = [1..ITEM_COUNT]"
    using load_chunks_cover [OF effective_ok(1,2) [OF assms]] by auto
  have l: "local_io (ThenFold cs acc (\<lambda>staged (s, e). exec_sql (\<lambda>db. Inr (staged @ map f [s..e], db))))" for acc f
    by (intro local_intros local_case_pair)
  have "distinct (map i_id (gen_items lf seed))" by (simp add: gen_items_ids)
  then show ?thesis
    unfolding LoadItems_def
    by (simp add: effect_Then local_exec local_of_result cs(1) effect_stage l cs(2) upsert_items_def gen_items_def)
qed

lemma put_items_cases:
  assumes "batch_ok b" "PutItemsIdempotent lf seed b conn = (res, conn')" "no_lost_effect (ss_script conn)"
  shows "ss_disk conn' = (if pb_Outcome res = PutCompleted
    then (ss_disk conn) \<lparr> item := fold upsert_item (gen_items lf seed) (item (ss_disk conn)) \<rparr> else ss_disk conn)"
proof -
  obtain x conn1 where 1: "load_txn (LoadItems lf seed b) conn = (x, conn1)" by fastforce
  note c = load_txn_cases [OF faithful_populate(9) 1 assms(3)]
  show ?thesis
    using c assms(2) 1 by (cases x) (auto simp: PutItemsIdempotent_def OkResult_def FailResult_def effect_items [OF assms(1)])
qed

lemma put_items_served:
  assumes "batch_ok b"
  shows "PutItemsIdempotent lf seed b (idle db) =
    (OkResult, idle (db \<lparr> item := fold upsert_item (gen_items lf seed) (item db) \<rparr>))"
proof -
  have "load_txn (LoadItems lf seed b) (idle db) = (Inr (), idle (db \<lparr> item := fold upsert_item (gen_items lf seed) (item db) \<rparr>))"
    by (intro load_txn_served(1) local_populate starts_idle) (rule effect_items [OF assms])
  then show ?thesis by (simp add: PutItemsIdempotent_def)
qed

section \<open>The invariant of an import\<close>

text \<open>What holds of the database at every moment: loads are all or nothing, the keys are unique, the
  items stay and only the warehouses of \<open>scope\<close> have rows.\<close>

definition db_inv :: "int set \<Rightarrow> int list \<Rightarrow> pg_db \<Rightarrow> bool" where
  "db_inv scope items db \<longleftrightarrow> (\<forall>v. all_or_none v db) \<and> primary_keys db \<and> map i_id (item db) = items \<and>
     w_id ` set (warehouse db) \<subseteq> scope \<and> d_w_id ` set (district db) \<subseteq> scope"

lemma reload_inv: "db_inv scope items db \<Longrightarrow> w \<in> scope \<Longrightarrow> db_inv scope items (reload_warehouse lf seed w db)"
  by (simp add: db_inv_def reload_fields reload_all_or_none reload_primary_keys)

definition import_inv :: "bool \<Rightarrow> u64 \<Rightarrow> int set \<Rightarrow> int list \<Rightarrow> int list \<Rightarrow> import_state \<Rightarrow> bool" where
  "import_inv lf seed scope items ids st \<longleftrightarrow>
     db_inv scope items (is_Db st) \<and> set (concat (is_Pending st)) \<subseteq> set ids \<and>
     (\<not> is_Stopped st \<longrightarrow> (\<exists>finished. finished + mset (concat (is_Pending st)) = mset ids \<and> size finished = is_Loaded st \<and>
       (\<forall>w \<in># finished. holds_warehouse lf seed w (is_Db st))))"

lemma mset_concat_update:
  "i < length xss \<Longrightarrow> mset (concat (xss[i := ys])) + mset (xss ! i) = mset (concat xss) + mset ys"
proof (induction xss arbitrary: i)
  case (Cons xs xss)
  show ?case
  proof (cases i)
    case (Suc j)
    with Cons.prems have "mset (concat (xss[j := ys])) + mset (xss ! j) = mset (concat xss) + mset ys" by (intro Cons.IH) simp
    then show ?thesis unfolding Suc by (simp add: ac_simps)
  qed (simp add: ac_simps)
qed simp

lemma pending_update:
  assumes "i < length xss" "xss ! i = x # xs"
  shows "add_mset x (mset (concat (xss[i := xs]))) = mset (concat xss)" "x \<in> set (concat xss)"
    "set (concat (xss[i := xs])) \<subseteq> set (concat xss)" "set (concat (xss[i := []])) \<subseteq> set (concat xss)"
proof -
  have "mset (concat (xss[i := xs])) + add_mset x (mset xs) = mset (concat xss) + mset xs"
    using mset_concat_update [OF assms(1), of xs] assms(2) by simp
  then show u: "add_mset x (mset (concat (xss[i := xs]))) = mset (concat xss)"
    by (metis add_mset_add_single union_mset_add_mset_right union_assoc union_commute add_right_cancel)
  show "x \<in> set (concat xss)" "set (concat (xss[i := xs])) \<subseteq> set (concat xss)"
    using arg_cong [OF u, of set_mset] by (auto simp del: set_concat)
  show "set (concat (xss[i := []])) \<subseteq> set (concat xss)"
    using set_update_subset_insert [of xss i "[]"] by auto
qed

lemma import_step_inv:
  assumes s: "import_step lf config st st'" and b: "batch_ok (im_BatchRows config)" and ids: "set ids \<subseteq> scope"
    and i: "import_inv lf (im_Seed config) scope items ids st"
  shows "import_inv lf (im_Seed config) scope items ids st'"
  using s
proof cases
  case (loaded tid wh rest conn res conn')
  note p = pending_update [OF loaded(3,4)]
  let ?db = "reload_warehouse lf (im_Seed config) wh (is_Db st)"
  have wh: "wh \<in> set ids" using p(2) i by (auto simp: import_inv_def simp del: set_concat)
  have db: "ss_disk conn' = ?db"
    using put_warehouse_reloads [OF b loaded(7,6)] loaded(5,8) i by (simp add: import_inv_def db_inv_def)
  obtain finished where f: "finished + mset (concat (is_Pending st)) = mset ids" "size finished = is_Loaded st"
    "\<forall>w \<in># finished. holds_warehouse lf (im_Seed config) w (is_Db st)"
    using i loaded(2) unfolding import_inv_def by blast
  have "\<forall>w \<in># add_mset wh finished. holds_warehouse lf (im_Seed config) w ?db"
    using f(3) reload_keeps_other reload_holds by (metis insert_iff set_mset_add_mset_insert)
  moreover have "add_mset wh finished + mset (concat ((is_Pending st)[tid := rest])) = mset ids"
    using f(1) p(1) by (metis union_mset_add_mset_left union_mset_add_mset_right)
  moreover have "db_inv scope items ?db" using reload_inv i wh ids unfolding import_inv_def by blast
  moreover have "set (concat ((is_Pending st)[tid := rest])) \<subseteq> set ids" using p(3) i unfolding import_inv_def by blast
  ultimately show ?thesis
    unfolding import_inv_def loaded(1) db using f(2)
    by (auto simp del: set_concat intro!: exI [of _ "add_mset wh finished"])
next
  case (failed tid wh rest conn res conn')
  have "ss_disk conn' = is_Db st"
    using put_warehouse_reloads [OF b failed(7,6)] failed(5,8) i by (simp add: import_inv_def db_inv_def)
  with i pending_update(4) [OF failed(3,4)] show ?thesis unfolding import_inv_def failed(1) by (simp del: set_concat) blast
next
  case interrupted
  with i show ?thesis by (simp add: import_inv_def)
qed

lemma import_steps_inv:
  assumes "rtranclp (import_step lf config) st st'" "batch_ok (im_BatchRows config)" "set ids \<subseteq> scope"
    "import_inv lf (im_Seed config) scope items ids st"
  shows "import_inv lf (im_Seed config) scope items ids st'"
  using assms(1,4)
proof (induction rule: rtranclp_induct)
  case (step y z)
  then show ?case using import_step_inv [OF _ assms(2,3)] by blast
qed

lemma import_done:
  assumes "import_inv lf seed scope items ids st" "import_result (length ids) st = Some (Inr ())"
  shows "db_inv scope items (is_Db st)" "\<forall>w \<in> set ids. holds_warehouse lf seed w (is_Db st)"
proof -
  have st: "\<not> is_Stopped st" "length ids \<le> is_Loaded st"
    using assms(2) by (auto simp: import_result_def split: if_splits)
  obtain finished where f: "finished + mset (concat (is_Pending st)) = mset ids" "size finished = is_Loaded st"
    "\<forall>w \<in># finished. holds_warehouse lf seed w (is_Db st)"
    using assms(1) st(1) unfolding import_inv_def by blast
  have "size finished + size (mset (concat (is_Pending st))) = length ids"
    using arg_cong [OF f(1), of size] by (simp only: size_union size_mset)
  then have "size (mset (concat (is_Pending st))) = 0" using st(2) f(2) by linarith
  then have "mset (concat (is_Pending st)) = {#}" by (simp only: size_eq_0_iff_empty)
  then have "finished = mset ids" using f(1) by (simp only: add_0_right)
  then show "\<forall>w \<in> set ids. holds_warehouse lf seed w (is_Db st)" using f(3) by simp
qed (use assms in \<open>simp add: import_inv_def\<close>)

text \<open>As long as no stop is requested, the remaining warehouses can be loaded: a connection that answers
  every request completes the next one.\<close>

lemma import_continue:
  assumes "batch_ok (im_BatchRows config)" "\<not> is_Stopped st" "concat (is_Pending st) \<noteq> []"
  shows "\<exists>st'. import_step lf config st st' \<and> \<not> is_Stopped st' \<and> length (concat (is_Pending st')) + 1 = length (concat (is_Pending st)) \<and>
    is_Loaded st' = is_Loaded st + 1"
proof -
  obtain tid where t: "tid < length (is_Pending st)" "is_Pending st ! tid \<noteq> []"
    using assms(3) by (metis concat_eq_Nil_conv in_set_conv_nth)
  then obtain wh rest where w: "is_Pending st ! tid = wh # rest" by (meson neq_Nil_conv)
  obtain db' where p: "PutWarehouseIdempotent lf (im_Seed config) wh (im_BatchRows config) (idle (is_Db st)) = (OkResult, idle db')"
    using put_warehouse_served [OF assms(1)] by blast
  have "import_step lf config st
     (st \<lparr> is_Db := ss_disk (idle db'), is_Pending := (is_Pending st) [tid := rest], is_Loaded := is_Loaded st + 1 \<rparr>)"
    by (rule import_step.loaded [OF assms(2) t(1) w _ _ p]) (simp_all add: idle_def no_lost_effect_def OkResult_def)
  moreover have "length (concat ((is_Pending st)[tid := rest])) + 1 = length (concat (is_Pending st))"
    using arg_cong [OF pending_update(1) [OF t(1) w], of size] by (simp only: size_add_mset size_mset Suc_eq_plus1)
  ultimately show ?thesis using assms(2) by (intro exI conjI) (assumption | simp)+
qed

lemma import_completes:
  assumes b: "batch_ok (im_BatchRows config)" and "\<not> is_Stopped st" "is_Loaded st + length (concat (is_Pending st)) = assigned"
  shows "\<exists>st'. rtranclp (import_step lf config) st st' \<and> import_result assigned st' = Some (Inr ())"
  using assms(2,3)
proof (induction "length (concat (is_Pending st))" arbitrary: st)
  case 0
  then have "assigned = is_Loaded st" by linarith
  with 0 show ?case by (intro exI [of _ st]) (simp add: import_result_def)
next
  case (Suc n)
  then have ne: "concat (is_Pending st) \<noteq> []" by (metis list.size(3) nat.distinct(1))
  obtain st1 where 1: "import_step lf config st st1" "\<not> is_Stopped st1"
    "length (concat (is_Pending st1)) + 1 = length (concat (is_Pending st))" "is_Loaded st1 = is_Loaded st + 1"
    using import_continue [OF b Suc.prems(1) ne] by blast
  have "n = length (concat (is_Pending st1))" using Suc.hyps(2) 1(3) by linarith
  moreover have "is_Loaded st1 + length (concat (is_Pending st1)) = assigned" using 1(3,4) Suc.prems(2) by linarith
  ultimately obtain st' where "rtranclp (import_step lf config) st1 st'" "import_result assigned st' = Some (Inr ())"
    using Suc.hyps(1) [OF _ 1(2)] by blast
  with 1(1) show ?case by (meson converse_rtranclp_into_rtranclp)
qed

lemma import_start_facts:
  assumes "import_start lf config cpus polls conn = Some (Inr (assigned, st))" "import_ranges config = Inr ranges"
  shows "length (warehouse_ids ranges) = assigned" "concat (is_Pending st) = warehouse_ids ranges" "is_Loaded st = 0" "\<not> is_Stopped st"
    "import_items lf config polls conn = Some (Inr (is_Db st))"
proof -
  obtain db where c: "CountWarehouses ranges = Inr assigned" and d: "import_items lf config polls conn = Some (Inr db)"
    and st: "st = \<lparr> is_Db = db, is_Pending = map (thread_share (import_threads config cpus assigned) (warehouse_ids ranges))
        [0..<import_threads config cpus assigned], is_Loaded = 0, is_Stopped = False \<rparr>"
    using assms by (auto simp: import_start_def bind_r_def map_r_def Let_def split: sum.splits)
  show "length (warehouse_ids ranges) = assigned" using count_ids [OF c] .
  have "ranges \<noteq> []" using assms(2) by (auto simp: import_ranges_def map_r_def split: if_splits sum.splits)
  then have "0 < assigned" using count_positive [OF c] by blast
  then have "0 < import_threads config cpus assigned" by (simp add: import_threads_def Let_def)
  with st shares_cover show "concat (is_Pending st) = warehouse_ids ranges" by simp
  show "is_Loaded st = 0" "\<not> is_Stopped st" "import_items lf config polls conn = Some (Inr (is_Db st))" using st d by simp_all
qed

definition schema_empty :: "pg_db \<Rightarrow> bool" where
  "schema_empty db \<longleftrightarrow> warehouse db = [] \<and> item db = [] \<and> stock db = [] \<and> district db = [] \<and> customer db = [] \<and>
     history db = [] \<and> oorder db = [] \<and> new_order db = [] \<and> order_line db = []"

lemma import_items_empty:
  assumes "import_items lf config polls conn = Some (Inr db)" "schema_empty (ss_disk conn)" "im_OwnsGlobalData config"
    "batch_ok (im_BatchRows config)" "no_lost_effect (ss_script conn)"
  shows "db_inv {} [1..ITEM_COUNT] db"
proof -
  obtain res conn1 where p: "PutItemsIdempotent lf (im_Seed config) (im_BatchRows config) conn = (res, conn1)" by fastforce
  with assms(1,3) have "pb_Outcome res = PutCompleted" "db = ss_disk conn1"
    by (auto simp: import_items_def ThrowIfFailed_def split: if_splits)
  moreover have "fold upsert_item (gen_items lf (im_Seed config)) [] = gen_items lf (im_Seed config)"
    using upsert_new [of "[]"] by (simp add: gen_items_ids)
  ultimately have "db = (ss_disk conn) \<lparr> item := gen_items lf (im_Seed config) \<rparr>"
    using put_items_cases [OF assms(4) p assms(5)] assms(2) by (simp add: schema_empty_def)
  with assms(2) show ?thesis
    by (simp add: db_inv_def all_or_none_def warehouse_absent_def primary_keys_def gen_items_ids schema_empty_def)
qed

lemma import_from_start:
  assumes "batch_ok (im_BatchRows config)" "import_ranges config = Inr ranges"
    "import_start lf config cpus polls conn = Some (Inr (assigned, st))" "db_inv scope items (is_Db st)" "set (warehouse_ids ranges) \<subseteq> scope"
    "rtranclp (import_step lf config) st st'" "import_result assigned st' = Some (Inr ())"
  shows "db_inv scope items (is_Db st')" "\<forall>w \<in> set (warehouse_ids ranges). holds_warehouse lf (im_Seed config) w (is_Db st')"
proof -
  note f = import_start_facts [OF assms(3,2)]
  have "import_inv lf (im_Seed config) scope items (warehouse_ids ranges) st"
    unfolding import_inv_def using f assms(4) by (auto intro!: exI [of _ "{#}"] simp del: set_concat)
  from import_steps_inv [OF assms(6,1,5) this]
  have "import_inv lf (im_Seed config) scope items (warehouse_ids ranges) st'" .
  from import_done [OF this] assms(7) f(1)
  show "db_inv scope items (is_Db st')" "\<forall>w \<in> set (warehouse_ids ranges). holds_warehouse lf (im_Seed config) w (is_Db st')" by simp_all
qed

lemma db_inv_mono: "db_inv scope items db \<Longrightarrow> scope \<subseteq> scope' \<Longrightarrow> db_inv scope' items db"
  unfolding db_inv_def by blast

lemma default_ranges:
  assumes "im_WarehouseRanges config = []" "0 < im_WarehouseCount config" "im_WarehouseCount config < 2 ^ 31 - 1"
  shows "import_ranges config = Inr [\<lparr> wr_Start = 1, wr_End = int (im_WarehouseCount config) + 1 \<rparr>]"
    "set (warehouse_ids [\<lparr> wr_Start = 1, wr_End = int (im_WarehouseCount config) + 1 \<rparr>]) = {1..int (im_WarehouseCount config)}"
proof -
  have "unat (of_nat (im_WarehouseCount config) :: u64) = im_WarehouseCount config"
    using assms(3) by (simp add: unat_of_nat)
  then have "to_int32 (of_nat (im_WarehouseCount config)) = int (im_WarehouseCount config)"
    using to_int32_unat [of "of_nat (im_WarehouseCount config)"] assms(3) by simp
  then show "import_ranges config = Inr [\<lparr> wr_Start = 1, wr_End = int (im_WarehouseCount config) + 1 \<rparr>]"
    using assms by (simp add: import_ranges_def in_i32_def)
qed (simp add: warehouse_ids_def)

lemma import_populates:
  assumes "schema_empty (ss_disk conn)" "no_lost_effect (ss_script conn)" "batch_ok (im_BatchRows config)" "im_OwnsGlobalData config"
    "im_WarehouseRanges config = []" "0 < im_WarehouseCount config" "im_WarehouseCount config < 2 ^ 31 - 1"
    "import_start lf config cpus polls conn = Some (Inr (assigned, st))" "rtranclp (import_step lf config) st st'"
    "import_result assigned st' = Some (Inr ())"
  shows "primary_keys (is_Db st')" "populated lf (im_Seed config) (int (im_WarehouseCount config)) (is_Db st')"
proof -
  note r = default_ranges [OF assms(5-7)]
  have "db_inv {} [1..ITEM_COUNT] (is_Db st)"
    using import_items_empty [OF import_start_facts(5) [OF assms(8) r(1)] assms(1,4,3,2)] .
  then have "db_inv {1..int (im_WarehouseCount config)} [1..ITEM_COUNT] (is_Db st)" by (rule db_inv_mono) simp
  note i = import_from_start [OF assms(3) r(1) assms(8) this _ assms(9,10), unfolded r(2), OF order_refl]
  show "primary_keys (is_Db st')" using i(1) by (simp add: db_inv_def)
  show "populated lf (im_Seed config) (int (im_WarehouseCount config)) (is_Db st')"
    using i assms(6) unfolding populated_def db_inv_def by simp
qed

section \<open>Properties\<close>

text \<open>C1: the benchmark keeps its database consistent from the import to the end of the run. When the import
  of a fresh schema succeeds, however its loader threads are interleaved, the database passes every
  check after an import, and after any sequence of transactions, whatever the server answers to
  them, it passes every check after a test (as long as no request takes effect on a connection that
  is then lost, and the inputs of New-Order are as the generator makes them).\<close>

theorem import_and_runs_pass_checks:
  assumes "schema_empty (ss_disk conn)" "no_lost_effect (ss_script conn)" "batch_ok (im_BatchRows config)" "im_OwnsGlobalData config"
    "im_WarehouseRanges config = []" "0 < im_WarehouseCount config" "im_WarehouseCount config < 2 ^ 31 - 1"
    "import_start lf config cpus polls conn = Some (Inr (assigned, st))" "rtranclp (import_step lf config) st st'"
    "import_result assigned st' = Some (Inr ())"
    "\<forall>x \<in> set xs. workflow_inputs_ok (int (im_WarehouseCount config)) (fst x) \<and> no_lost_effect (snd x)"
  shows "ReportOk (RunPgChecks (int (im_WarehouseCount config)) AfterImport (is_Db st')) \<and>
    ReportOk (RunPgChecks (int (im_WarehouseCount config)) AfterTest (pg_runs xs (is_Db st')))"
proof -
  note p = import_populates [OF assms(1-10)]
  have "0 < int (im_WarehouseCount config)" using assms(6) by simp
  from pg_runs_checks [OF this assms(11) p(1)] populated_checks [OF p(2)] show ?thesis by simp
qed

definition example_config :: TImportConfig where
  "example_config = \<lparr> im_WarehouseRanges = [], im_WarehouseCount = 2, im_LoadThreadCount = 0, im_Seed = 7, im_BatchRows = 0,
     im_OwnsGlobalData = True \<rparr>"

lemma example_start:
  "\<exists>st. import_start True example_config 8 [] (idle empty_db) = Some (Inr (2, st)) \<and> \<not> is_Stopped st \<and>
     is_Loaded st + length (concat (is_Pending st)) = 2"
proof -
  have r: "import_ranges example_config = Inr [\<lparr> wr_Start = 1, wr_End = 3 \<rparr>]"
    using default_ranges(1) [of example_config] by (simp add: example_config_def)
  have "batch_ok 0" by (simp add: batch_ok_def ITEM_COUNT_def)
  from put_items_served [OF this, of True 7 empty_db]
  have "\<exists>db. import_items True example_config [] (idle empty_db) = Some (Inr db)"
    by (simp add: import_items_def example_config_def ThrowIfFailed_def OkResult_def)
  then obtain st where st: "import_start True example_config 8 [] (idle empty_db) = Some (Inr (2, st))"
    by (auto simp: import_start_def r in_i32_def Let_def)
  from import_start_facts [OF st r] have "\<not> is_Stopped st" "is_Loaded st + length (concat (is_Pending st)) = 2" by simp_all
  with st show ?thesis by blast
qed

theorem import_and_runs_pass_checks_witness:
  "\<exists>st st'. import_start True example_config 8 [] (idle empty_db) = Some (Inr (2, st)) \<and>
     rtranclp (import_step True example_config) st st' \<and> import_result 2 st' = Some (Inr ()) \<and>
     ReportOk (RunPgChecks 2 AfterImport (is_Db st')) \<and>
     ReportOk (RunPgChecks 2 AfterTest
       (pg_runs [(StockLevelInputs \<lparr> st_WarehouseID = 1, st_DistrictID = 2, st_Threshold = 15 \<rparr>, [Served])] (is_Db st')))"
proof -
  have b: "batch_ok (im_BatchRows example_config)" by (simp add: example_config_def batch_ok_def ITEM_COUNT_def)
  obtain st where st: "import_start True example_config 8 [] (idle empty_db) = Some (Inr (2, st))" "\<not> is_Stopped st"
    "is_Loaded st + length (concat (is_Pending st)) = 2"
    using example_start by blast
  obtain st' where st': "rtranclp (import_step True example_config) st st'" "import_result 2 st' = Some (Inr ())"
    using import_completes [OF b st(2,3)] by blast
  let ?xs = "[(StockLevelInputs \<lparr> st_WarehouseID = 1, st_DistrictID = 2, st_Threshold = 15 \<rparr>, [Served])]"
  have "int (im_WarehouseCount example_config) = 2" by (simp add: example_config_def)
  with import_and_runs_pass_checks [OF _ _ b _ _ _ _ st(1) st', of ?xs] st st'
  show ?thesis by (auto simp: schema_empty_def idle_def empty_db_def no_lost_effect_def example_config_def)
qed

text \<open>C5: an import that reports success has loaded every assigned warehouse completely, whatever was in the
  database of earlier imports that failed or were interrupted.\<close>

theorem import_loads_assigned:
  assumes "batch_ok (im_BatchRows config)" "import_ranges config = Inr ranges"
    "import_start lf config cpus polls conn = Some (Inr (assigned, st))" "db_inv scope items (is_Db st)" "set (warehouse_ids ranges) \<subseteq> scope"
    "rtranclp (import_step lf config) st st'" "import_result assigned st' = Some (Inr ())"
  shows "list_all (\<lambda>w. holds_warehouse lf (im_Seed config) w (is_Db st')) (warehouse_ids ranges) \<and> db_inv scope items (is_Db st')"
  using import_from_start [OF assms] by (simp add: list_all_iff)

theorem import_loads_assigned_witness:
  "\<exists>st st'. import_start True example_config 8 [] (idle empty_db) = Some (Inr (2, st)) \<and>
     rtranclp (import_step True example_config) st st' \<and> holds_warehouse True 7 1 (is_Db st') \<and> holds_warehouse True 7 2 (is_Db st')"
proof -
  have b: "batch_ok (im_BatchRows example_config)" by (simp add: example_config_def batch_ok_def ITEM_COUNT_def)
  have r: "import_ranges example_config = Inr [\<lparr> wr_Start = 1, wr_End = 3 \<rparr>]"
    using default_ranges(1) [of example_config] by (simp add: example_config_def)
  obtain st where st: "import_start True example_config 8 [] (idle empty_db) = Some (Inr (2, st))" "\<not> is_Stopped st"
    "is_Loaded st + length (concat (is_Pending st)) = 2"
    using example_start by blast
  obtain st' where st': "rtranclp (import_step True example_config) st st'" "import_result 2 st' = Some (Inr ())"
    using import_completes [OF b st(2,3)] by blast
  have "db_inv {} [1..ITEM_COUNT] (is_Db st)"
    using import_items_empty [OF import_start_facts(5) [OF st(1) r] _ _ b]
    by (simp add: schema_empty_def idle_def empty_db_def no_lost_effect_def example_config_def)
  then have "db_inv {1, 2} [1..ITEM_COUNT] (is_Db st)" by (rule db_inv_mono) simp
  moreover have ids: "warehouse_ids [\<lparr> wr_Start = 1, wr_End = 3 \<rparr>] = [1, 2]" by (simp add: warehouse_ids_def upto.simps)
  ultimately have "list_all (\<lambda>w. holds_warehouse True 7 w (is_Db st')) [1, 2]"
    using import_loads_assigned [OF b r st(1) _ _ st'] by (simp add: example_config_def)
  with st(1) st'(1) show ?thesis by auto
qed

text \<open>C14: an import never gets stuck: from every state in which no stop was requested the remaining
  warehouses can still be loaded and the import reports success.\<close>

theorem import_never_stuck:
  assumes "batch_ok (im_BatchRows config)" "import_ranges config = Inr ranges"
    "import_start lf config cpus polls conn = Some (Inr (assigned, st))" "\<forall>v. all_or_none v (is_Db st)" "primary_keys (is_Db st)"
    "rtranclp (import_step lf config) st st'" "\<not> is_Stopped st'"
  shows "\<exists>st''. rtranclp (import_step lf config) st' st'' \<and> import_result assigned st'' = Some (Inr ())"
proof -
  note f = import_start_facts [OF assms(3,2)]
  let ?scope = "w_id ` set (warehouse (is_Db st)) \<union> d_w_id ` set (district (is_Db st)) \<union> set (warehouse_ids ranges)"
  have "import_inv lf (im_Seed config) ?scope (map i_id (item (is_Db st))) (warehouse_ids ranges) st"
    unfolding import_inv_def db_inv_def using f assms(4,5) by (auto intro!: exI [of _ "{#}"] simp del: set_concat)
  from import_steps_inv [OF assms(6,1) _ this]
  have "import_inv lf (im_Seed config) ?scope (map i_id (item (is_Db st))) (warehouse_ids ranges) st'" by blast
  then obtain finished where "finished + mset (concat (is_Pending st')) = mset (warehouse_ids ranges)" "size finished = is_Loaded st'"
    using assms(7) unfolding import_inv_def by blast
  then have "is_Loaded st' + length (concat (is_Pending st')) = assigned"
    using f(1) by (metis size_mset size_union)
  from import_completes [OF assms(1,7) this] show ?thesis .
qed

theorem import_never_stuck_witness:
  "\<exists>st st'. import_start True example_config 8 [] (idle empty_db) = Some (Inr (2, st)) \<and>
     rtranclp (import_step True example_config) st st' \<and> import_result 2 st' = Some (Inr ())"
proof -
  have b: "batch_ok (im_BatchRows example_config)" by (simp add: example_config_def batch_ok_def ITEM_COUNT_def)
  have r: "import_ranges example_config = Inr [\<lparr> wr_Start = 1, wr_End = 3 \<rparr>]"
    using default_ranges(1) [of example_config] by (simp add: example_config_def)
  obtain st where st: "import_start True example_config 8 [] (idle empty_db) = Some (Inr (2, st))" "\<not> is_Stopped st"
    using example_start by blast
  have "db_inv {} [1..ITEM_COUNT] (is_Db st)"
    using import_items_empty [OF import_start_facts(5) [OF st(1) r] _ _ b]
    by (simp add: schema_empty_def idle_def empty_db_def no_lost_effect_def example_config_def)
  then have i: "\<forall>v. all_or_none v (is_Db st)" "primary_keys (is_Db st)" by (simp_all add: db_inv_def)
  from import_never_stuck [OF b r st(1) i rtranclp.rtrancl_refl st(2)] st(1) show ?thesis by blast
qed

end
