(* ===== verification/Spsc_Queue.thy ===== *)
theory Spsc_Queue
  imports Prelude
begin

text \<open>
  \<^verbatim>\<open>tpcc/runtime/spsc_circular_queue.h\<close>: the single-producer single-consumer ring. The counters \<^verbatim>\<open>Head\<close> and
  \<^verbatim>\<open>Tail\<close> only grow and wrap at \<open>2 ^ 64\<close>. The operations are given twice: as functions, for a caller
  that is alone, and as a relation in which the memory accesses of the producer and the consumer
  interleave. The atomics of the source (release stores, acquire loads) order the accesses to the
  slots; the relation interleaves them sequentially.
\<close>

unbundle bit_operations_syntax

section \<open>The queue\<close>

record 'a TSpscCircularQueue =
  sq_Queue :: "'a list"
  sq_Capacity :: u64
  sq_CapacityMask :: u64
  sq_Head :: u64
  sq_CachedTail :: u64
  sq_Tail :: u64
  sq_CachedHead :: u64

text \<open>\<^verbatim>\<open>std::bit_ceil\<close>\<close>

function bit_ceil_from :: "nat \<Rightarrow> nat \<Rightarrow> nat" where
  "bit_ceil_from p n = (if p = 0 \<or> n \<le> p then p else bit_ceil_from (2 * p) n)"
  by auto

termination
  by (relation "measure (\<lambda>(p, n). n - p)") auto

declare bit_ceil_from.simps [simp del]

definition bit_ceil :: "nat \<Rightarrow> nat" where
  "bit_ceil n = bit_ceil_from 1 n"

definition Spsc_empty :: "'a TSpscCircularQueue" where
  "Spsc_empty = \<lparr> sq_Queue = [], sq_Capacity = 0, sq_CapacityMask = 0, sq_Head = 0, sq_CachedTail = 0, sq_Tail = 0,
     sq_CachedHead = 0 \<rparr>"

text \<open>\<^verbatim>\<open>std::bit_ceil\<close> is undefined when the result does not fit; new slots hold the default value.\<close>

definition Spsc_Resize :: "'a \<Rightarrow> nat \<Rightarrow> 'a TSpscCircularQueue \<Rightarrow> 'a TSpscCircularQueue result" where
  "Spsc_Resize dflt capacity q =
     (let c = (if capacity = 0 then 0 else bit_ceil capacity) in
      if c \<ge> 2 ^ 64 then Inl (LogicError ''bit_ceil'')
      else Inr \<lparr> sq_Queue = take c (sq_Queue q) @ replicate (c - length (sq_Queue q)) dflt,
                 sq_Capacity = of_nat c, sq_CapacityMask = (if c = 0 then 0 else of_nat c - 1),
                 sq_Head = 0, sq_CachedTail = 0, sq_Tail = 0, sq_CachedHead = 0 \<rparr>)"

definition slot :: "'a TSpscCircularQueue \<Rightarrow> u64 \<Rightarrow> nat" where
  "slot q i = unat (i AND sq_CapacityMask q)"

definition TryPush :: "'a \<Rightarrow> 'a TSpscCircularQueue \<Rightarrow> bool \<times> 'a TSpscCircularQueue" where
  "TryPush x q =
     (let head = sq_Head q;
          q1 = (if head - sq_CachedTail q = sq_Capacity q then q \<lparr> sq_CachedTail := sq_Tail q \<rparr> else q) in
      if head - sq_CachedTail q = sq_Capacity q \<and> head - sq_CachedTail q1 = sq_Capacity q then (False, q1)
      else (True, q1 \<lparr> sq_Queue := (sq_Queue q1) [slot q1 head := x], sq_Head := head + 1 \<rparr>))"

definition TryPop :: "'a TSpscCircularQueue \<Rightarrow> 'a option \<times> 'a TSpscCircularQueue" where
  "TryPop q =
     (if sq_Capacity q = 0 then (None, q)
      else
        let tail = sq_Tail q;
            q1 = (if tail = sq_CachedHead q then q \<lparr> sq_CachedHead := sq_Head q \<rparr> else q) in
        if tail = sq_CachedHead q \<and> tail = sq_CachedHead q1 then (None, q1)
        else (Some (sq_Queue q1 ! slot q1 tail), q1 \<lparr> sq_Tail := tail + 1 \<rparr>))"

definition Spsc_Size :: "'a TSpscCircularQueue \<Rightarrow> u64" where
  "Spsc_Size q = sq_Head q - sq_Tail q"

definition Spsc_Empty :: "'a TSpscCircularQueue \<Rightarrow> bool" where
  "Spsc_Empty q \<longleftrightarrow> Spsc_Size q = 0"

definition Spsc_IsFull :: "'a TSpscCircularQueue \<Rightarrow> bool" where
  "Spsc_IsFull q \<longleftrightarrow> sq_Capacity q \<noteq> 0 \<and> Spsc_Size q = sq_Capacity q"

section \<open>Interleaved accesses\<close>

datatype 'a producer = PIdle | PCheck 'a | PWrite 'a | PPublish 'a

datatype 'a consumer = CIdle | CCheck | CRead | CPublish 'a

record 'a spsc =
  sp_q :: "'a TSpscCircularQueue"
  sp_p :: "'a producer"
  sp_c :: "'a consumer"

datatype 'a spsc_event = Silent | PushDone 'a | PushRefused | PopDone 'a | PopRefused

inductive spsc_step :: "'a spsc \<Rightarrow> 'a spsc_event \<Rightarrow> 'a spsc \<Rightarrow> bool" where
  push_call: "sp_p s = PIdle \<Longrightarrow> spsc_step s Silent (s \<lparr> sp_p := PCheck x \<rparr>)"
| push_room: "sp_p s = PCheck x \<Longrightarrow> sq_Head (sp_q s) - sq_CachedTail (sp_q s) \<noteq> sq_Capacity (sp_q s) \<Longrightarrow>
     spsc_step s Silent (s \<lparr> sp_p := PWrite x \<rparr>)"
| push_refresh: "sp_p s = PCheck x \<Longrightarrow> sq_Head (sp_q s) - sq_CachedTail (sp_q s) = sq_Capacity (sp_q s) \<Longrightarrow>
     sq_Head (sp_q s) - sq_Tail (sp_q s) \<noteq> sq_Capacity (sp_q s) \<Longrightarrow>
     spsc_step s Silent (s \<lparr> sp_q := (sp_q s) \<lparr> sq_CachedTail := sq_Tail (sp_q s) \<rparr>, sp_p := PWrite x \<rparr>)"
| push_full: "sp_p s = PCheck x \<Longrightarrow> sq_Head (sp_q s) - sq_CachedTail (sp_q s) = sq_Capacity (sp_q s) \<Longrightarrow>
     sq_Head (sp_q s) - sq_Tail (sp_q s) = sq_Capacity (sp_q s) \<Longrightarrow>
     spsc_step s PushRefused (s \<lparr> sp_q := (sp_q s) \<lparr> sq_CachedTail := sq_Tail (sp_q s) \<rparr>, sp_p := PIdle \<rparr>)"
| push_write: "sp_p s = PWrite x \<Longrightarrow>
     spsc_step s Silent (s \<lparr> sp_q := (sp_q s) \<lparr> sq_Queue := (sq_Queue (sp_q s)) [slot (sp_q s) (sq_Head (sp_q s)) := x] \<rparr>,
       sp_p := PPublish x \<rparr>)"
| push_publish: "sp_p s = PPublish x \<Longrightarrow>
     spsc_step s (PushDone x) (s \<lparr> sp_q := (sp_q s) \<lparr> sq_Head := sq_Head (sp_q s) + 1 \<rparr>, sp_p := PIdle \<rparr>)"
| pop_call: "sp_c s = CIdle \<Longrightarrow> sq_Capacity (sp_q s) \<noteq> 0 \<Longrightarrow> spsc_step s Silent (s \<lparr> sp_c := CCheck \<rparr>)"
| pop_some: "sp_c s = CCheck \<Longrightarrow> sq_Tail (sp_q s) \<noteq> sq_CachedHead (sp_q s) \<Longrightarrow> spsc_step s Silent (s \<lparr> sp_c := CRead \<rparr>)"
| pop_refresh: "sp_c s = CCheck \<Longrightarrow> sq_Tail (sp_q s) = sq_CachedHead (sp_q s) \<Longrightarrow> sq_Tail (sp_q s) \<noteq> sq_Head (sp_q s) \<Longrightarrow>
     spsc_step s Silent (s \<lparr> sp_q := (sp_q s) \<lparr> sq_CachedHead := sq_Head (sp_q s) \<rparr>, sp_c := CRead \<rparr>)"
| pop_empty: "sp_c s = CCheck \<Longrightarrow> sq_Tail (sp_q s) = sq_CachedHead (sp_q s) \<Longrightarrow> sq_Tail (sp_q s) = sq_Head (sp_q s) \<Longrightarrow>
     spsc_step s PopRefused (s \<lparr> sp_q := (sp_q s) \<lparr> sq_CachedHead := sq_Head (sp_q s) \<rparr>, sp_c := CIdle \<rparr>)"
| pop_read: "sp_c s = CRead \<Longrightarrow> spsc_step s Silent (s \<lparr> sp_c := CPublish (sq_Queue (sp_q s) ! slot (sp_q s) (sq_Tail (sp_q s))) \<rparr>)"
| pop_publish: "sp_c s = CPublish y \<Longrightarrow>
     spsc_step s (PopDone y) (s \<lparr> sp_q := (sp_q s) \<lparr> sq_Tail := sq_Tail (sp_q s) + 1 \<rparr>, sp_c := CIdle \<rparr>)"

inductive spsc_run :: "'a spsc \<Rightarrow> 'a spsc_event list \<Rightarrow> 'a spsc \<Rightarrow> bool" where
  run_nil: "spsc_run s [] s"
| run_step: "spsc_run s es s' \<Longrightarrow> spsc_step s' e s'' \<Longrightarrow> spsc_run s (es @ [e]) s''"

section \<open>Counters\<close>

text \<open>The queued items, oldest first.\<close>

definition contents :: "'a TSpscCircularQueue \<Rightarrow> 'a list" where
  "contents q = map (\<lambda>i. sq_Queue q ! ((unat (sq_Tail q) + i) mod length (sq_Queue q))) [0..<unat (sq_Head q - sq_Tail q)]"

definition ring :: "'a TSpscCircularQueue \<Rightarrow> bool" where
  "ring q \<longleftrightarrow> (\<exists>k < 64. length (sq_Queue q) = 2 ^ k \<and> sq_Capacity q = 2 ^ k \<and> sq_CapacityMask q = 2 ^ k - 1) \<and>
     unat (sq_Head q - sq_Tail q) \<le> length (sq_Queue q) \<and>
     unat (sq_Head q - sq_CachedTail q) \<le> length (sq_Queue q) \<and>
     unat (sq_Head q - sq_Tail q) \<le> unat (sq_Head q - sq_CachedTail q) \<and>
     unat (sq_CachedHead q - sq_Tail q) \<le> unat (sq_Head q - sq_Tail q)"

lemma slot_mod:
  assumes "ring q"
  shows "slot q i = unat i mod length (sq_Queue q)"
proof -
  obtain k where k: "k < 64" "length (sq_Queue q) = 2 ^ k" "sq_CapacityMask q = 2 ^ k - 1" using assms by (auto simp: ring_def)
  have "i AND sq_CapacityMask q = take_bit k i" unfolding k(3) by (simp add: take_bit_eq_mask mask_eq_exp_minus_1)
  then have "slot q i = take_bit k (unat i)" unfolding slot_def by (simp only: unsigned_take_bit_eq)
  then show ?thesis by (simp add: k(2) take_bit_eq_mod)
qed

lemma capacity_facts:
  assumes "ring q"
  shows "0 < length (sq_Queue q)" "unat (sq_Capacity q) = length (sq_Queue q)" "length (sq_Queue q) dvd 2 ^ 64" "length (sq_Queue q) < 2 ^ 64"
proof -
  obtain k where k: "k < 64" "length (sq_Queue q) = 2 ^ k" "sq_Capacity q = 2 ^ k" using assms by (auto simp: ring_def)
  have l: "(2 :: nat) ^ k < 2 ^ 64" using k(1) by (intro power_strict_increasing) simp_all
  have "unat (of_nat (2 ^ k) :: u64) = 2 ^ k" using l by (simp only: unat_of_nat) simp
  then show "unat (sq_Capacity q) = length (sq_Queue q)" using k by simp
  show "0 < length (sq_Queue q)" "length (sq_Queue q) < 2 ^ 64" using k l by simp_all
  show "length (sq_Queue q) dvd 2 ^ 64" unfolding k(2) using k(1) by (intro le_imp_power_dvd) simp
qed

lemma unat_suc_diff: "unat (a - b) < n \<Longrightarrow> n < 2 ^ 64 \<Longrightarrow> unat (a + 1 - b) = unat (a - b) + 1" for a b :: u64
proof -
  assume a: "unat (a - b) < n" "n < 2 ^ 64"
  have "a + 1 - b = (a - b) + 1" by simp
  then have "unat (a + 1 - b) = (unat (a - b) + 1) mod 2 ^ 64" by (simp only: unat_word_ariths(1)) simp
  with a show ?thesis by simp
qed

lemma unat_diff_suc: "a \<noteq> b \<Longrightarrow> unat (a - (b + 1)) = unat (a - b) - 1" for a b :: u64
proof -
  assume "a \<noteq> b"
  then have "a - b \<noteq> 0" by simp
  then have "unat (a - b - 1) = unat (a - b) - 1" by (rule unat_minus_one)
  then show ?thesis by (simp add: diff_diff_eq)
qed

lemma unat_diff_pos: "0 < unat (a - b) \<longleftrightarrow> a \<noteq> b" for a b :: u64
  by (simp add: unat_gt_0)

lemma wrap_mod:
  assumes "ring q"
  shows "unat ((a :: u64) + of_nat i) mod length (sq_Queue q) = (unat a + i) mod length (sq_Queue q)"
proof -
  have "unat (a + of_nat i) = (unat a + i) mod 2 ^ 64" by (simp add: unat_word_ariths(1) unat_of_nat mod_simps)
  then show ?thesis using capacity_facts(3) [OF assms] by (simp only: mod_mod_cancel)
qed

lemma head_slot:
  assumes "ring q"
  shows "slot q (sq_Head q) = (unat (sq_Tail q) + unat (sq_Head q - sq_Tail q)) mod length (sq_Queue q)"
proof -
  have "sq_Head q = sq_Tail q + of_nat (unat (sq_Head q - sq_Tail q))" by simp
  then show ?thesis using wrap_mod [OF assms, of "sq_Tail q"] by (metis slot_mod [OF assms])
qed

lemma slots_apart: "i < n \<Longrightarrow> n < l \<Longrightarrow> (t + i) mod l \<noteq> (t + n) mod l" for l :: nat
proof
  assume a: "i < n" "n < l" "(t + i) mod l = (t + n) mod l"
  then have "l dvd (t + n) - (t + i)" using mod_eq_dvd_iff_nat [of "t + i" "t + n" l] by simp
  then have "l dvd n - i" by simp
  with a(1,2) show False by (auto dest: dvd_imp_le)
qed

lemma ring_update [simp]:
  "ring (q \<lparr> sq_Queue := (sq_Queue q)[i := x] \<rparr>) = ring q"
  "ring (q \<lparr> sq_Queue := (sq_Queue q)[i := x], sq_Head := h \<rparr>) = ring (q \<lparr> sq_Head := h \<rparr>)"
  by (simp_all add: ring_def)

section \<open>Contents after each access\<close>

lemma length_contents [simp]: "length (contents q) = unat (sq_Head q - sq_Tail q)"
  by (simp add: contents_def)

lemma contents_write:
  assumes "ring q" "unat (sq_Head q - sq_Tail q) < length (sq_Queue q)"
  shows "contents (q \<lparr> sq_Queue := (sq_Queue q)[slot q (sq_Head q) := x] \<rparr>) = contents q"
  by (auto simp: contents_def head_slot [OF assms(1)] intro!: nth_list_update_neq slots_apart [OF _ assms(2), THEN not_sym])

lemma contents_publish:
  assumes "ring q" "unat (sq_Head q - sq_Tail q) < length (sq_Queue q)"
  shows "contents (q \<lparr> sq_Head := sq_Head q + 1 \<rparr>) = contents q @ [sq_Queue q ! slot q (sq_Head q)]"
  using unat_suc_diff [OF assms(2) capacity_facts(4) [OF assms(1)]] by (simp add: contents_def head_slot [OF assms(1)])

lemma contents_pop:
  assumes "ring q" "sq_Head q \<noteq> sq_Tail q"
  shows "contents q = sq_Queue q ! slot q (sq_Tail q) # contents (q \<lparr> sq_Tail := sq_Tail q + 1 \<rparr>)"
proof -
  define n where "n = unat (sq_Head q - (sq_Tail q + 1))"
  have n: "unat (sq_Head q - sq_Tail q) = Suc n"
    using unat_diff_suc [OF assms(2)] unat_diff_pos [of "sq_Head q" "sq_Tail q"] assms(2) by (simp add: n_def)
  have "unat (sq_Tail q + 1) mod length (sq_Queue q) = (unat (sq_Tail q) + 1) mod length (sq_Queue q)"
    using wrap_mod [OF assms(1), of "sq_Tail q" 1] by simp
  then have s: "(unat (sq_Tail q + 1) + i) mod length (sq_Queue q) = (unat (sq_Tail q) + Suc i) mod length (sq_Queue q)" for i
    by (metis add.assoc mod_add_left_eq plus_1_eq_Suc)
  show ?thesis
    unfolding contents_def n upt_conv_Cons [OF zero_less_Suc] map_Suc_upt [symmetric] list.map map_map comp_def
    by (simp add: n_def [symmetric] s slot_mod [OF assms(1)])
qed

lemma ring_publish:
  assumes "ring q" "unat (sq_Head q - sq_CachedTail q) < length (sq_Queue q)"
  shows "ring (q \<lparr> sq_Head := sq_Head q + 1 \<rparr>)"
proof -
  have "unat (sq_Head q - sq_Tail q) < length (sq_Queue q)" using assms by (simp add: ring_def)
  note d = unat_suc_diff [OF this capacity_facts(4) [OF assms(1)]] unat_suc_diff [OF assms(2) capacity_facts(4) [OF assms(1)]]
  show ?thesis using assms unfolding ring_def by (simp add: d)
qed

lemma ring_pop:
  assumes "ring q" "sq_Tail q \<noteq> sq_CachedHead q"
  shows "ring (q \<lparr> sq_Tail := sq_Tail q + 1 \<rparr>)" "sq_Head q \<noteq> sq_Tail q"
proof -
  have c: "0 < unat (sq_CachedHead q - sq_Tail q)" using assms(2) unat_diff_pos [of "sq_CachedHead q" "sq_Tail q"] by simp
  then have "0 < unat (sq_Head q - sq_Tail q)" using assms(1) by (simp add: ring_def)
  then show h: "sq_Head q \<noteq> sq_Tail q" using unat_diff_pos by metis
  show "ring (q \<lparr> sq_Tail := sq_Tail q + 1 \<rparr>)"
    using assms unat_diff_suc [OF h] unat_diff_suc [OF assms(2) [symmetric]] unfolding ring_def by auto
qed

lemma ring_refresh:
  assumes "ring q"
  shows "ring (q \<lparr> sq_CachedTail := sq_Tail q \<rparr>)" "ring (q \<lparr> sq_CachedHead := sq_Head q \<rparr>)"
  using assms by (simp_all add: ring_def)

lemma room:
  assumes "ring q"
  shows "sq_Head q - sq_CachedTail q \<noteq> sq_Capacity q \<longleftrightarrow> unat (sq_Head q - sq_CachedTail q) < length (sq_Queue q)"
    "sq_Head q - sq_Tail q \<noteq> sq_Capacity q \<longleftrightarrow> unat (sq_Head q - sq_Tail q) < length (sq_Queue q)"
  using assms capacity_facts(2) [OF assms] unfolding ring_def by (metis le_neq_implies_less less_irrefl_nat word_unat_eq_iff)+

lemma contents_cached [simp]:
  "contents (q \<lparr> sq_CachedTail := t \<rparr>) = contents q" "contents (q \<lparr> sq_CachedHead := h \<rparr>) = contents q"
  by (simp_all add: contents_def)

section \<open>A bounded FIFO\<close>

text \<open>What the queue promises: items leave in the order in which they entered, a push is refused only
  when the queue is full and a pop only when it is empty.\<close>

inductive fifo_step :: "nat \<Rightarrow> 'a list \<Rightarrow> 'a spsc_event \<Rightarrow> 'a list \<Rightarrow> bool" for capacity where
  "fifo_step capacity xs Silent xs"
| "length xs < capacity \<Longrightarrow> fifo_step capacity xs (PushDone x) (xs @ [x])"
| "length xs = capacity \<Longrightarrow> fifo_step capacity xs PushRefused xs"
| "fifo_step capacity (y # xs) (PopDone y) xs"
| "fifo_step capacity [] PopRefused []"

definition spsc_inv :: "'a spsc \<Rightarrow> bool" where
  "spsc_inv s \<longleftrightarrow> ring (sp_q s) \<and>
     (case sp_p s of
        PWrite x \<Rightarrow> unat (sq_Head (sp_q s) - sq_CachedTail (sp_q s)) < length (sq_Queue (sp_q s))
      | PPublish x \<Rightarrow> unat (sq_Head (sp_q s) - sq_CachedTail (sp_q s)) < length (sq_Queue (sp_q s)) \<and>
          sq_Queue (sp_q s) ! slot (sp_q s) (sq_Head (sp_q s)) = x
      | _ \<Rightarrow> True) \<and>
     (case sp_c s of
        CRead \<Rightarrow> sq_Tail (sp_q s) \<noteq> sq_CachedHead (sp_q s)
      | CPublish y \<Rightarrow> sq_Tail (sp_q s) \<noteq> sq_CachedHead (sp_q s) \<and> sq_Queue (sp_q s) ! slot (sp_q s) (sq_Tail (sp_q s)) = y
      | _ \<Rightarrow> True)"

lemma slot_fields [simp]:
  "slot (q \<lparr> sq_CachedTail := t \<rparr>) i = slot q i" "slot (q \<lparr> sq_CachedHead := t \<rparr>) i = slot q i" "slot (q \<lparr> sq_Head := t \<rparr>) i = slot q i"
  "slot (q \<lparr> sq_Tail := t \<rparr>) i = slot q i" "slot (q \<lparr> sq_Queue := xs \<rparr>) i = slot q i"
  by (simp_all add: slot_def)

lemma slot_less: "ring q \<Longrightarrow> slot q i < length (sq_Queue q)"
  using capacity_facts(1) [of q] by (simp add: slot_mod)

lemma write_keeps_tail:
  assumes "ring q" "unat (sq_Head q - sq_CachedTail q) < length (sq_Queue q)" "sq_Tail q \<noteq> sq_CachedHead q"
  shows "(sq_Queue q)[slot q (sq_Head q) := x] ! slot q (sq_Tail q) = sq_Queue q ! slot q (sq_Tail q)"
proof -
  have n: "unat (sq_Head q - sq_Tail q) < length (sq_Queue q)" using assms(1,2) by (simp add: ring_def)
  have "0 < unat (sq_Head q - sq_Tail q)" using ring_pop(2) [OF assms(1,3)] unat_diff_pos by metis
  from slots_apart [OF this n, of "unat (sq_Tail q)"] have "slot q (sq_Head q) \<noteq> slot q (sq_Tail q)"
    unfolding head_slot [OF assms(1)] slot_mod [OF assms(1), of "sq_Tail q"] by simp
  then show ?thesis by simp
qed

lemma spsc_producer_inv:
  assumes "spsc_step s e s'" "spsc_inv s"
  shows "spsc_inv s'"
  using assms(1)
proof cases
  case push_write
  with assms(2) show ?thesis
    by (auto simp: spsc_inv_def write_keeps_tail slot_less split: consumer.splits)
next
  case push_publish
  with assms(2) ring_publish show ?thesis by (auto simp: spsc_inv_def split: consumer.splits)
next
  case pop_publish
  with assms(2) ring_pop(1) show ?thesis by (auto simp: spsc_inv_def split: producer.splits)
next
  case push_refresh
  with assms(2) show ?thesis by (auto simp: spsc_inv_def ring_refresh room split: consumer.splits)
next
  case pop_refresh
  with assms(2) show ?thesis by (auto simp: spsc_inv_def ring_refresh room split: producer.splits)
qed (use assms(2) in \<open>auto simp: spsc_inv_def ring_refresh room split: consumer.splits producer.splits\<close>)

lemma spsc_refines:
  assumes "spsc_step s e s'" "spsc_inv s"
  shows "fifo_step (length (sq_Queue (sp_q s))) (contents (sp_q s)) e (contents (sp_q s'))"
  using assms(1)
proof cases
  case (push_full x)
  have "unat (sq_Head (sp_q s) - sq_Tail (sp_q s)) = length (sq_Queue (sp_q s))"
    using push_full assms(2) capacity_facts(2) [of "sp_q s"] by (simp add: spsc_inv_def)
  with push_full show ?thesis by (simp add: fifo_step.intros)
next
  case (push_write x)
  have "unat (sq_Head (sp_q s) - sq_Tail (sp_q s)) < length (sq_Queue (sp_q s))"
    using push_write assms(2) by (auto simp: spsc_inv_def ring_def)
  with push_write assms(2) show ?thesis by (auto simp: contents_write spsc_inv_def intro: fifo_step.intros)
next
  case (push_publish x)
  have r: "ring (sp_q s)" "unat (sq_Head (sp_q s) - sq_Tail (sp_q s)) < length (sq_Queue (sp_q s))"
    using push_publish assms(2) by (auto simp: spsc_inv_def ring_def)
  with push_publish assms(2) show ?thesis by (auto simp: contents_publish spsc_inv_def intro: fifo_step.intros)
next
  case pop_empty
  then have "contents (sp_q s) = []" by (simp add: contents_def)
  with pop_empty show ?thesis by (simp add: fifo_step.intros)
next
  case (pop_publish y)
  have "sq_Head (sp_q s) \<noteq> sq_Tail (sp_q s)" "ring (sp_q s)"
    using pop_publish assms(2) ring_pop(2) by (auto simp: spsc_inv_def)
  from contents_pop [OF this(2,1)] pop_publish assms(2) show ?thesis by (auto simp: spsc_inv_def intro: fifo_step.intros)
qed (auto intro: fifo_step.intros)

lemma step_length: "spsc_step s e s' \<Longrightarrow> length (sq_Queue (sp_q s')) = length (sq_Queue (sp_q s))"
  by (induction rule: spsc_step.induct) simp_all

fun pushed :: "'a spsc_event list \<Rightarrow> 'a list" where
  "pushed [] = []"
| "pushed (PushDone x # es) = x # pushed es"
| "pushed (_ # es) = pushed es"

fun popped :: "'a spsc_event list \<Rightarrow> 'a list" where
  "popped [] = []"
| "popped (PopDone x # es) = x # popped es"
| "popped (_ # es) = popped es"

lemma pushed_append [simp]: "pushed (es @ fs) = pushed es @ pushed fs"
  by (induction es rule: pushed.induct) simp_all

lemma popped_append [simp]: "popped (es @ fs) = popped es @ popped fs"
  by (induction es rule: popped.induct) simp_all

inductive_cases fifo_cases: "fifo_step capacity xs e ys"

lemma fifo_balance: "fifo_step capacity xs e ys \<Longrightarrow> xs @ pushed [e] = popped [e] @ ys"
  by (auto elim: fifo_cases)

lemma spsc_run_balance:
  assumes "spsc_run s es s'" "spsc_inv s"
  shows "spsc_inv s' \<and> contents (sp_q s) @ pushed es = popped es @ contents (sp_q s') \<and>
    length (contents (sp_q s')) \<le> length (sq_Queue (sp_q s'))"
  using assms
proof (induction rule: spsc_run.induct)
  case (run_nil s)
  then show ?case by (simp add: spsc_inv_def ring_def)
next
  case (run_step s es s' e s'')
  then have i: "spsc_inv s'" "contents (sp_q s) @ pushed es = popped es @ contents (sp_q s')" by simp_all
  note b = spsc_producer_inv [OF run_step.hyps(2) i(1)] fifo_balance [OF spsc_refines [OF run_step.hyps(2) i(1)]]
  have "contents (sp_q s) @ pushed (es @ [e]) = (contents (sp_q s) @ pushed es) @ pushed [e]" by (simp only: pushed_append append_assoc)
  also have "\<dots> = popped es @ popped [e] @ contents (sp_q s'')" unfolding i(2) append_assoc b(2) ..
  finally have "contents (sp_q s) @ pushed (es @ [e]) = popped (es @ [e]) @ contents (sp_q s'')" by (simp only: popped_append append_assoc)
  with b(1) show ?case by (simp add: spsc_inv_def ring_def)
qed

section \<open>A caller that is alone\<close>

text \<open>The interface of a bounded queue and what its clients can rely on.\<close>

fun push_list :: "('a \<Rightarrow> 'q \<Rightarrow> bool \<times> 'q) \<Rightarrow> 'a list \<Rightarrow> 'q \<Rightarrow> bool list \<times> 'q" where
  "push_list push [] q = ([], q)"
| "push_list push (x # xs) q = (case push x q of (ok, q1) \<Rightarrow> case push_list push xs q1 of (oks, q2) \<Rightarrow> (ok # oks, q2))"

fun pop_list :: "('q \<Rightarrow> 'a option \<times> 'q) \<Rightarrow> nat \<Rightarrow> 'q \<Rightarrow> 'a option list \<times> 'q" where
  "pop_list pop 0 q = ([], q)"
| "pop_list pop (Suc n) q = (case pop q of (r, q1) \<Rightarrow> case pop_list pop n q1 of (rs, q2) \<Rightarrow> (r # rs, q2))"

locale bounded_fifo =
  fixes push :: "'a \<Rightarrow> 'q \<Rightarrow> bool \<times> 'q" and pop :: "'q \<Rightarrow> 'a option \<times> 'q"
    and items :: "'q \<Rightarrow> 'a list" and invar :: "'q \<Rightarrow> bool" and room_for :: "'q \<Rightarrow> nat"
  assumes push_ok: "invar q \<Longrightarrow> length (items q) < room_for q \<Longrightarrow>
      fst (push x q) \<and> invar (snd (push x q)) \<and> items (snd (push x q)) = items q @ [x] \<and> room_for (snd (push x q)) = room_for q"
    and push_full: "invar q \<Longrightarrow> \<not> length (items q) < room_for q \<Longrightarrow>
      \<not> fst (push x q) \<and> invar (snd (push x q)) \<and> items (snd (push x q)) = items q \<and> room_for (snd (push x q)) = room_for q"
    and pop_some: "invar q \<Longrightarrow> items q = y # ys \<Longrightarrow>
      fst (pop q) = Some y \<and> invar (snd (pop q)) \<and> items (snd (pop q)) = ys \<and> room_for (snd (pop q)) = room_for q"
    and pop_none: "invar q \<Longrightarrow> items q = [] \<Longrightarrow>
      fst (pop q) = None \<and> invar (snd (pop q)) \<and> items (snd (pop q)) = [] \<and> room_for (snd (pop q)) = room_for q"
begin

lemma push_list_items:
  "invar q \<Longrightarrow> push_list push xs q = (oks, q') \<Longrightarrow>
     invar q' \<and> items q' = items q @ take (room_for q - length (items q)) xs \<and> room_for q' = room_for q \<and>
     oks = map (\<lambda>i. i < room_for q - length (items q)) [0..<length xs]"
proof (induction xs arbitrary: q oks)
  case (Cons x xs)
  obtain ok q1 where p: "push x q = (ok, q1)" by fastforce
  obtain oks1 where r: "push_list push xs q1 = (oks1, q')" "oks = ok # oks1"
    using Cons.prems(2) p by (auto split: prod.splits)
  show ?case
  proof (cases "length (items q) < room_for q")
    case True
    then have q1: "ok" "invar q1" "items q1 = items q @ [x]" "room_for q1 = room_for q"
      using push_ok [OF Cons.prems(1) True, of x] p by simp_all
    define k where "k = room_for q - length (items q1)"
    have k: "room_for q - length (items q) = Suc k" using True q1 by (simp add: k_def)
    from Cons.IH [OF q1(2) r(1)] show ?thesis
      using q1 r(2) k unfolding k_def [symmetric] q1(4)
      by (simp add: map_upt_Suc del: upt_Suc)
  next
    case False
    then have q1: "\<not> ok" "invar q1" "items q1 = items q" "room_for q1 = room_for q"
      using push_full [OF Cons.prems(1) False, of x] p by simp_all
    have k: "room_for q - length (items q) = 0" using False by simp
    from Cons.IH [OF q1(2) r(1)] show ?thesis
      using q1 r(2) k by (simp add: map_upt_Suc del: upt_Suc)
  qed
qed simp

lemma pop_list_items:
  "invar q \<Longrightarrow> pop_list pop n q = (rs, q') \<Longrightarrow>
     invar q' \<and> items q' = drop n (items q) \<and> rs = map Some (take n (items q)) @ replicate (n - length (items q)) None"
proof (induction n arbitrary: q rs)
  case (Suc n)
  obtain r q1 where p: "pop q = (r, q1)" by fastforce
  obtain rs1 where rr: "pop_list pop n q1 = (rs1, q')" "rs = r # rs1"
    using Suc.prems(2) p by (auto split: prod.splits)
  show ?case
  proof (cases "items q")
    case Nil
    then show ?thesis using pop_none [OF Suc.prems(1) Nil] p rr Suc.IH [of q1 rs1] by simp
  next
    case (Cons y ys)
    then show ?thesis using pop_some [OF Suc.prems(1) Cons] p rr Suc.IH [of q1 rs1] by simp
  qed
qed simp

end

lemma TryPush_full:
  assumes "ring q" "\<not> length (contents q) < length (sq_Queue q)"
  shows "TryPush x q = (False, q \<lparr> sq_CachedTail := sq_Tail q \<rparr>)"
proof -
  have "sq_Head q - sq_Tail q = sq_Capacity q" using room(2) [OF assms(1)] assms(2) by auto
  moreover have "sq_Head q - sq_CachedTail q = sq_Capacity q" using room(1) [OF assms(1)] assms by (auto simp: ring_def)
  ultimately show ?thesis by (simp add: TryPush_def Let_def)
qed

lemma TryPush_room:
  assumes r: "ring q" and l: "length (contents q) < length (sq_Queue q)"
  shows "\<exists>q'. TryPush x q = (True, q') \<and> ring q' \<and> contents q' = contents q @ [x] \<and> length (sq_Queue q') = length (sq_Queue q)"
proof -
  define q1 where "q1 = (if sq_Head q - sq_CachedTail q = sq_Capacity q then q \<lparr> sq_CachedTail := sq_Tail q \<rparr> else q)"
  have q1: "ring q1" "contents q1 = contents q" "sq_Head q1 = sq_Head q" "sq_Queue q1 = sq_Queue q" "slot q1 = slot q" "sq_Tail q1 = sq_Tail q"
    unfolding q1_def using r ring_refresh(1) [OF r] by (auto simp: fun_eq_iff)
  have ne: "sq_Head q - sq_Tail q \<noteq> sq_Capacity q" using room(2) [OF r] l by simp
  then have m: "unat (sq_Head q1 - sq_CachedTail q1) < length (sq_Queue q1)"
    using room(1) [OF r] room(2) [OF r] unfolding q1_def by (auto split: if_splits)
  have n: "unat (sq_Head q1 - sq_Tail q1) < length (sq_Queue q1)" using l q1 by simp
  let ?w = "q1 \<lparr> sq_Queue := (sq_Queue q1)[slot q1 (sq_Head q1) := x] \<rparr>"
  have w: "ring ?w" using q1(1) by simp
  have "contents (?w \<lparr> sq_Head := sq_Head ?w + 1 \<rparr>) = contents ?w @ [sq_Queue ?w ! slot ?w (sq_Head ?w)]"
    using contents_publish [OF w] n by simp
  also have "\<dots> = contents q @ [x]" using contents_write [OF q1(1) n] q1(2) slot_less [OF q1(1)] by simp
  finally have c: "contents (?w \<lparr> sq_Head := sq_Head ?w + 1 \<rparr>) = contents q @ [x]" .
  have "TryPush x q = (True, ?w \<lparr> sq_Head := sq_Head ?w + 1 \<rparr>)"
    using ne unfolding TryPush_def Let_def q1_def [symmetric] by (auto simp: q1(3) q1_def split: if_splits)
  moreover have "ring (?w \<lparr> sq_Head := sq_Head ?w + 1 \<rparr>)" using ring_publish [OF w] m by simp
  ultimately show ?thesis using c q1(4) by simp
qed

lemma TryPop_empty:
  assumes "ring q" "contents q = []"
  shows "TryPop q = (None, q \<lparr> sq_CachedHead := sq_Head q \<rparr>)"
proof -
  have "unat (sq_Head q - sq_Tail q) = 0" using assms(2) length_contents [of q] by simp
  then have h: "sq_Head q = sq_Tail q" using unat_diff_pos [of "sq_Head q" "sq_Tail q"] by auto
  then have "sq_CachedHead q = sq_Tail q" using assms(1) unat_diff_pos [of "sq_CachedHead q" "sq_Tail q"] by (auto simp: ring_def)
  moreover have "sq_Capacity q \<noteq> 0" using capacity_facts(1,2) [OF assms(1)] by auto
  ultimately show ?thesis using h by (simp add: TryPop_def Let_def)
qed

lemma TryPop_some:
  assumes r: "ring q" and c: "contents q = y # ys"
  shows "\<exists>q'. TryPop q = (Some y, q') \<and> ring q' \<and> contents q' = ys \<and> length (sq_Queue q') = length (sq_Queue q)"
proof -
  have h: "sq_Head q \<noteq> sq_Tail q" using c length_contents [of q] by auto
  define q1 where "q1 = (if sq_Tail q = sq_CachedHead q then q \<lparr> sq_CachedHead := sq_Head q \<rparr> else q)"
  have q1: "ring q1" "contents q1 = contents q" "sq_Tail q1 = sq_Tail q" "sq_Queue q1 = sq_Queue q" "sq_Head q1 = sq_Head q"
    unfolding q1_def using r ring_refresh(2) [OF r] by auto
  have t: "sq_Tail q1 \<noteq> sq_CachedHead q1" using h unfolding q1_def by auto
  have "sq_Capacity q \<noteq> 0" using capacity_facts(1,2) [OF r] by auto
  then have "TryPop q = (Some (sq_Queue q1 ! slot q1 (sq_Tail q1)), q1 \<lparr> sq_Tail := sq_Tail q1 + 1 \<rparr>)"
    using t unfolding TryPop_def Let_def q1_def [symmetric] by (auto simp: q1(3) q1_def split: if_splits)
  moreover have "contents q1 = sq_Queue q1 ! slot q1 (sq_Tail q1) # contents (q1 \<lparr> sq_Tail := sq_Tail q1 + 1 \<rparr>)"
    using contents_pop [OF q1(1)] h q1 by simp
  ultimately show ?thesis using c q1(2,4) ring_pop(1) [OF q1(1) t] by simp
qed

interpretation spsc_fifo: bounded_fifo TryPush TryPop contents ring "\<lambda>q. length (sq_Queue q)"
proof
  fix q :: "'a TSpscCircularQueue" and x
  assume r: "ring q"
  {
    assume "length (contents q) < length (sq_Queue q)"
    from TryPush_room [OF r this, of x]
    show "fst (TryPush x q) \<and> ring (snd (TryPush x q)) \<and> contents (snd (TryPush x q)) = contents q @ [x] \<and>
        length (sq_Queue (snd (TryPush x q))) = length (sq_Queue q)" by auto
  next
    assume "\<not> length (contents q) < length (sq_Queue q)"
    from TryPush_full [OF r this, of x] ring_refresh [OF r]
    show "\<not> fst (TryPush x q) \<and> ring (snd (TryPush x q)) \<and> contents (snd (TryPush x q)) = contents q \<and>
        length (sq_Queue (snd (TryPush x q))) = length (sq_Queue q)" by simp
  next
    fix y ys assume "contents q = y # ys"
    from TryPop_some [OF r this]
    show "fst (TryPop q) = Some y \<and> ring (snd (TryPop q)) \<and> contents (snd (TryPop q)) = ys \<and>
        length (sq_Queue (snd (TryPop q))) = length (sq_Queue q)" by auto
  next
    assume "contents q = []"
    from TryPop_empty [OF r this] this ring_refresh [OF r]
    show "fst (TryPop q) = None \<and> ring (snd (TryPop q)) \<and> contents (snd (TryPop q)) = [] \<and>
        length (sq_Queue (snd (TryPop q))) = length (sq_Queue q)" by simp
  }
qed

lemma bit_ceil_from_power: "\<exists>k. bit_ceil_from (2 ^ j) n = 2 ^ k \<and> n \<le> 2 ^ k \<and> (k = j \<or> 2 ^ k < 2 * n)"
proof (induction "2 ^ j :: nat" n arbitrary: j rule: bit_ceil_from.induct)
  case (1 n)
  show ?case
  proof (cases "n \<le> 2 ^ j")
    case True
    then show ?thesis by (subst bit_ceil_from.simps) auto
  next
    case False
    from "1.hyps" [of "Suc j"] False obtain k where "bit_ceil_from (2 ^ Suc j) n = 2 ^ k" "n \<le> 2 ^ k" "k = Suc j \<or> 2 ^ k < 2 * n" by auto
    with False show ?thesis by (subst bit_ceil_from.simps) auto
  qed
qed

lemma Resize_ring:
  assumes "Spsc_Resize dflt capacity q = Inr q'" "0 < capacity"
  shows "ring q' \<and> contents q' = [] \<and> capacity \<le> length (sq_Queue q') \<and> length (sq_Queue q') < 2 * capacity"
proof -
  obtain k where k: "bit_ceil capacity = 2 ^ k" "capacity \<le> 2 ^ k" "k = 0 \<or> 2 ^ k < 2 * capacity"
    using bit_ceil_from_power [of 0 capacity] by (auto simp: bit_ceil_def)
  have "(2 :: nat) ^ k < 2 ^ 64" using assms k(1) by (auto simp: Spsc_Resize_def Let_def split: if_splits)
  then have "k < 64" using power_less_imp_less_exp [of "2 :: nat" k 64] by simp
  with assms k show ?thesis by (auto simp: Spsc_Resize_def Let_def ring_def contents_def split: if_splits)
qed

section \<open>Properties\<close>

text \<open>C6: however the memory accesses of one producer and one consumer interleave, the ring is a bounded
  FIFO: what was popped followed by what is queued is what was pushed, in order, also after the
  counters have wrapped, and the queue never holds more than its capacity.\<close>

theorem spsc_interleaved_fifo:
  assumes "Spsc_Resize dflt capacity q = Inr q0" "0 < capacity"
    "spsc_run \<lparr> sp_q = q0, sp_p = PIdle, sp_c = CIdle \<rparr> es s"
  shows "pushed es = popped es @ contents (sp_q s) \<and> length (contents (sp_q s)) \<le> length (sq_Queue (sp_q s))"
proof -
  have "spsc_inv \<lparr> sp_q = q0, sp_p = PIdle, sp_c = CIdle \<rparr>" using Resize_ring [OF assms(1,2)] by (simp add: spsc_inv_def)
  from spsc_run_balance [OF assms(3) this] Resize_ring [OF assms(1,2)] show ?thesis by simp
qed

lemma example_ring:
  "\<exists>q0. Spsc_Resize (0 :: nat) 3 Spsc_empty = Inr q0 \<and> length (sq_Queue q0) = 4 \<and> sq_Capacity q0 = 4 \<and> sq_Head q0 = 0 \<and> sq_CachedTail q0 = 0"
proof -
  have "bit_ceil 3 = 4" by (simp add: bit_ceil_def bit_ceil_from.simps)
  then show ?thesis by (simp add: Spsc_Resize_def Spsc_empty_def)
qed

theorem spsc_interleaved_fifo_witness:
  "\<exists>q0 s. Spsc_Resize (0 :: nat) 3 Spsc_empty = Inr q0 \<and>
     spsc_run \<lparr> sp_q = q0, sp_p = PIdle, sp_c = CIdle \<rparr> [Silent, Silent, Silent, PushDone 7] s \<and> contents (sp_q s) = [7]"
proof -
  obtain q0 where q0: "Spsc_Resize (0 :: nat) 3 Spsc_empty = Inr q0" "sq_Capacity q0 = 4" "sq_Head q0 = 0" "sq_CachedTail q0 = 0"
    using example_ring by blast
  let ?s = "\<lparr> sp_q = q0, sp_p = PIdle, sp_c = CIdle \<rparr>" and ?w = "\<lparr> sp_q = q0, sp_p = PWrite 7, sp_c = CIdle \<rparr>"
  let ?q1 = "q0 \<lparr> sq_Queue := (sq_Queue q0)[slot q0 (sq_Head q0) := 7] \<rparr>"
  have 1: "spsc_step ?s Silent \<lparr> sp_q = q0, sp_p = PCheck 7, sp_c = CIdle \<rparr>"
    using spsc_step.push_call [of ?s 7] by simp
  have 2: "spsc_step \<lparr> sp_q = q0, sp_p = PCheck 7, sp_c = CIdle \<rparr> Silent ?w"
    using spsc_step.push_room [of "\<lparr> sp_q = q0, sp_p = PCheck 7, sp_c = CIdle \<rparr>" 7] q0 by simp
  have 3: "spsc_step ?w Silent \<lparr> sp_q = ?q1, sp_p = PPublish 7, sp_c = CIdle \<rparr>"
    using spsc_step.push_write [of ?w 7] by simp
  have 4: "spsc_step \<lparr> sp_q = ?q1, sp_p = PPublish 7, sp_c = CIdle \<rparr> (PushDone 7) \<lparr> sp_q = ?q1 \<lparr> sq_Head := sq_Head q0 + 1 \<rparr>, sp_p = PIdle, sp_c = CIdle \<rparr>"
    using spsc_step.push_publish [of "\<lparr> sp_q = ?q1, sp_p = PPublish 7, sp_c = CIdle \<rparr>" 7] by simp
  have "spsc_run ?s ((([] @ [Silent]) @ [Silent]) @ [Silent]) \<lparr> sp_q = ?q1, sp_p = PPublish 7, sp_c = CIdle \<rparr>"
    by (rule run_step [OF run_step [OF run_step [OF run_nil 1] 2] 3])
  from run_step [OF this 4] have r: "\<exists>s. spsc_run ?s [Silent, Silent, Silent, PushDone 7] s" by auto
  then obtain s where s: "spsc_run ?s [Silent, Silent, Silent, PushDone 7] s" by blast
  from spsc_interleaved_fifo [OF q0(1) _ s] q0(1) s show ?thesis by auto
qed

text \<open>C34: alone, pushing a list keeps exactly the prefix that fits, and popping gives the queued items in
  order and then nothing.\<close>

theorem spsc_push_pop:
  assumes "Spsc_Resize dflt capacity q = Inr q0" "0 < capacity" "push_list TryPush xs q0 = (oks, q1)" "pop_list TryPop n q1 = (rs, q2)"
  shows "rs = map Some (take n (take (length (sq_Queue q0)) xs)) @ replicate (n - min (length (sq_Queue q0)) (length xs)) None \<and>
    capacity \<le> length (sq_Queue q0) \<and> contents q2 = drop n (take (length (sq_Queue q0)) xs)"
proof -
  note r = Resize_ring [OF assms(1,2)]
  have p: "ring q1" "contents q1 = take (length (sq_Queue q0)) xs"
    using spsc_fifo.push_list_items [OF _ assms(3)] r by simp_all
  from spsc_fifo.pop_list_items [OF p(1) assms(4)] p(2) r show ?thesis by (simp add: min.commute)
qed

theorem spsc_push_pop_witness:
  "\<exists>q0. Spsc_Resize (0 :: nat) 3 Spsc_empty = Inr q0 \<and>
     fst (pop_list TryPop 3 (snd (push_list TryPush [7, 8] q0))) = [Some 7, Some 8, None]"
proof -
  obtain q0 where q0: "Spsc_Resize (0 :: nat) 3 Spsc_empty = Inr q0" "length (sq_Queue q0) = 4" using example_ring by blast
  obtain oks q1 where p: "push_list TryPush [7, 8] q0 = (oks, q1)" by fastforce
  obtain rs q2 where r: "pop_list TryPop 3 q1 = (rs, q2)" by fastforce
  from spsc_push_pop [OF q0(1) _ p r] q0 p r show ?thesis by simp
qed

end
