(* ===== verification/Timer_Queue.thy ===== *)
theory Timer_Queue
  imports Prelude
begin

text \<open>
  \<^verbatim>\<open>tpcc/runtime/timer_queue.h\<close>: the binned timer queue, a ring of buckets of which only the current one is
  kept sorted. A point in time is a number of nanoseconds, \<^verbatim>\<open>TTimePoint::min()\<close> and \<^verbatim>\<open>max()\<close> are the
  bounds of 64 bits. \<^verbatim>\<open>std::sort\<close> leaves the order of equal deadlines open, so it is an argument of the
  operations that sort: any function that permutes its list and sorts it by deadline.
\<close>

section \<open>Buckets\<close>

definition time_min :: int where "time_min = - (2 ^ 63)"
definition time_max :: int where "time_max = 2 ^ 63 - 1"

record 'a TItem =
  ti_Deadline :: int
  ti_Value :: 'a

record 'a TBucket =
  bk_Items :: "'a TItem list"
  bk_MinDeadline :: int
  bk_MaxDeadline :: int
  bk_IsSorted :: bool

definition new_bucket :: "'a TBucket" where
  "new_bucket = \<lparr> bk_Items = [], bk_MinDeadline = time_max, bk_MaxDeadline = time_min, bk_IsSorted = True \<rparr>"

definition AddBack :: "'a TItem \<Rightarrow> 'a TBucket \<Rightarrow> 'a TBucket" where
  "AddBack it b = b \<lparr>
     bk_IsSorted := (if bk_Items b \<noteq> [] \<and> ti_Deadline it < ti_Deadline (last (bk_Items b)) then False else bk_IsSorted b),
     bk_MinDeadline := min (bk_MinDeadline b) (ti_Deadline it), bk_MaxDeadline := max (bk_MaxDeadline b) (ti_Deadline it),
     bk_Items := bk_Items b @ [it] \<rparr>"

text \<open>\<^verbatim>\<open>std::upper_bound\<close> on a sorted range: the first item with a later deadline.\<close>

definition upper_bound :: "'a TItem list \<Rightarrow> 'a TItem \<Rightarrow> nat" where
  "upper_bound xs it = length (takeWhile (\<lambda>x. \<not> ti_Deadline it < ti_Deadline x) xs)"

definition AddSorted :: "'a TItem \<Rightarrow> nat \<Rightarrow> 'a TBucket \<Rightarrow> 'a TBucket" where
  "AddSorted it validFromPos b =
     (if ti_Deadline it \<ge> bk_MaxDeadline b then AddBack it b
      else
        let pos = validFromPos + upper_bound (drop validFromPos (bk_Items b)) it in
        b \<lparr> bk_MinDeadline := min (bk_MinDeadline b) (ti_Deadline it), bk_MaxDeadline := max (bk_MaxDeadline b) (ti_Deadline it),
            bk_Items := take pos (bk_Items b) @ [it] @ drop pos (bk_Items b) \<rparr>)"

definition Bucket_Clear :: "'a TBucket \<Rightarrow> 'a TBucket" where
  "Bucket_Clear b = b \<lparr> bk_Items := [], bk_MinDeadline := time_max, bk_MaxDeadline := time_min, bk_IsSorted := True \<rparr>"

definition Bucket_Sort :: "('a TItem list \<Rightarrow> 'a TItem list) \<Rightarrow> 'a TBucket \<Rightarrow> 'a TBucket" where
  "Bucket_Sort std_sort b = (if bk_IsSorted b then b else b \<lparr> bk_Items := std_sort (bk_Items b), bk_IsSorted := True \<rparr>)"

section \<open>The queue\<close>

record 'a TBinnedTimerQueue =
  tq_Buckets :: "'a TBucket list"
  tq_BucketSoftLimit :: nat
  tq_Size :: nat
  tq_CurrentBucket :: nat
  tq_CurrentCursor :: nat

definition Timer_Resize :: "nat \<Rightarrow> nat \<Rightarrow> 'a TBinnedTimerQueue \<Rightarrow> 'a TBinnedTimerQueue result" where
  "Timer_Resize bucketCount bucketSoftLimit q =
     (if tq_Size q \<noteq> 0 then Inl (RuntimeError ''Resizing non-empty timer queue'')
      else
        let n = max 2 bucketCount in
        Inr (q \<lparr> tq_Buckets := take n (tq_Buckets q) @ replicate (n - length (tq_Buckets q)) new_bucket,
                 tq_BucketSoftLimit := max 1 bucketSoftLimit \<rparr>))"

definition new_timer_queue :: "nat \<Rightarrow> nat \<Rightarrow> 'a TBinnedTimerQueue result" where
  "new_timer_queue bucketCount bucketSoftLimit =
     Timer_Resize bucketCount bucketSoftLimit
       \<lparr> tq_Buckets = [], tq_BucketSoftLimit = 0, tq_Size = 0, tq_CurrentBucket = 0, tq_CurrentCursor = 0 \<rparr>"

text \<open>The loop of \<^verbatim>\<open>ComputeBucket\<close> from \<open>i\<close> on.\<close>

function compute_from :: "'a TBinnedTimerQueue \<Rightarrow> int \<Rightarrow> nat \<Rightarrow> nat" where
  "compute_from q deadline i =
     (let n = length (tq_Buckets q) in
      if i < n then
        let bucketIndex = (i + tq_CurrentBucket q) mod n;
            bucket = tq_Buckets q ! bucketIndex in
        if deadline \<le> bk_MaxDeadline bucket then bucketIndex
        else
          let nextBucketIndex = (bucketIndex + 1) mod n in
          if deadline \<le> bk_MinDeadline (tq_Buckets q ! nextBucketIndex) then
            if length (bk_Items bucket) \<ge> tq_BucketSoftLimit q then nextBucketIndex else bucketIndex
          else compute_from q deadline (i + 1)
      else (tq_CurrentBucket q + n - 1) mod n)"
  by auto

termination
  by (relation "measure (\<lambda>(q, d, i). length (tq_Buckets q) - i)") auto

declare compute_from.simps [simp del]

definition ComputeBucket :: "int \<Rightarrow> 'a TBinnedTimerQueue \<Rightarrow> nat" where
  "ComputeBucket deadline q = compute_from q deadline 0"

definition add_item :: "'a TItem \<Rightarrow> 'a TBinnedTimerQueue \<Rightarrow> 'a TBinnedTimerQueue" where
  "add_item it q =
     (let bucket = ComputeBucket (ti_Deadline it) q;
          b = tq_Buckets q ! bucket in
      q \<lparr> tq_Buckets := (tq_Buckets q)[bucket :=
            (if bucket = tq_CurrentBucket q then AddSorted it (tq_CurrentCursor q) b else AddBack it b)],
          tq_Size := tq_Size q + 1 \<rparr>)"

definition Timer_Add :: "int \<Rightarrow> 'a \<Rightarrow> int \<Rightarrow> 'a TBinnedTimerQueue \<Rightarrow> 'a TBinnedTimerQueue result" where
  "Timer_Add delay_us val now q =
     bind_r (i64 (delay_us * 1000)) (\<lambda>d. map_r (\<lambda>deadline. add_item \<lparr> ti_Deadline = deadline, ti_Value = val \<rparr> q) (i64 (now + d)))"

fun next_bucket_deadline :: "'a TBinnedTimerQueue \<Rightarrow> nat list \<Rightarrow> int" where
  "next_bucket_deadline q [] = time_max"
| "next_bucket_deadline q (offset # offsets) =
     (let bucket = tq_Buckets q ! ((tq_CurrentBucket q + offset) mod length (tq_Buckets q)) in
      if bk_Items bucket \<noteq> [] then bk_MinDeadline bucket else next_bucket_deadline q offsets)"

definition GetNextDeadline :: "'a TBinnedTimerQueue \<Rightarrow> int" where
  "GetNextDeadline q =
     (if tq_Size q = 0 then time_max
      else
        let current = tq_Buckets q ! tq_CurrentBucket q in
        if tq_CurrentCursor q < length (bk_Items current) then ti_Deadline (bk_Items current ! tq_CurrentCursor q)
        else next_bucket_deadline q [1..<length (tq_Buckets q)])"

definition Advance :: "('a TItem list \<Rightarrow> 'a TItem list) \<Rightarrow> 'a TBinnedTimerQueue \<Rightarrow> 'a TBinnedTimerQueue" where
  "Advance std_sort q =
     (let bs = (tq_Buckets q)[tq_CurrentBucket q := Bucket_Clear (tq_Buckets q ! tq_CurrentBucket q)];
          c = (tq_CurrentBucket q + 1) mod length (tq_Buckets q) in
      q \<lparr> tq_Buckets := bs[c := Bucket_Sort std_sort (bs ! c)], tq_CurrentCursor := 0, tq_CurrentBucket := c \<rparr>)"

text \<open>At most \<open>n\<close> advances to the next bucket that has items.\<close>

fun pop_advance :: "('a TItem list \<Rightarrow> 'a TItem list) \<Rightarrow> nat \<Rightarrow> 'a TBinnedTimerQueue \<Rightarrow> 'a TItem result \<times> 'a TBinnedTimerQueue" where
  "pop_advance std_sort 0 q = (Inl (RuntimeError ''Internal error: Empty bucket after advance''), q)"
| "pop_advance std_sort (Suc n) q =
     (let q1 = Advance std_sort q;
          current = tq_Buckets q1 ! tq_CurrentBucket q1 in
      if bk_Items current \<noteq> []
      then (Inr (bk_Items current ! tq_CurrentCursor q1), q1 \<lparr> tq_CurrentCursor := tq_CurrentCursor q1 + 1 \<rparr>)
      else pop_advance std_sort n q1)"

definition PopFront :: "('a TItem list \<Rightarrow> 'a TItem list) \<Rightarrow> 'a TBinnedTimerQueue \<Rightarrow> 'a TItem result \<times> 'a TBinnedTimerQueue" where
  "PopFront std_sort q =
     (if tq_Size q = 0 then (Inl (RuntimeError ''Cannot pop from empty timer queue''), q)
      else
        let q1 = q \<lparr> tq_Size := tq_Size q - 1 \<rparr>;
            current = tq_Buckets q1 ! tq_CurrentBucket q1 in
        if tq_CurrentCursor q1 < length (bk_Items current)
        then (Inr (bk_Items current ! tq_CurrentCursor q1), q1 \<lparr> tq_CurrentCursor := tq_CurrentCursor q1 + 1 \<rparr>)
        else pop_advance std_sort (length (tq_Buckets q1)) q1)"

definition Timer_Validate :: "'a TBinnedTimerQueue \<Rightarrow> bool" where
  "Timer_Validate q \<longleftrightarrow>
     (let n = length (tq_Buckets q);
          current = bk_Items (tq_Buckets q ! tq_CurrentBucket q);
          deadlines = (\<lambda>b. set (map ti_Deadline (bk_Items b))) in
      list_all (\<lambda>i. \<not> ti_Deadline (current ! (i - 1)) > ti_Deadline (current ! i)) [tq_CurrentCursor q + 1..<length current] \<and>
      list_all (\<lambda>b. if bk_Items b \<noteq> []
           then bk_MinDeadline b = Min (deadlines b) \<and> bk_MaxDeadline b = Max (deadlines b)
           else bk_MinDeadline b = time_max \<and> bk_MaxDeadline b = time_min) (tq_Buckets q) \<and>
      list_all (\<lambda>offset.
         (let i = (tq_CurrentBucket q + offset) mod n; j = (i + 1) mod n; a = tq_Buckets q ! i; b = tq_Buckets q ! j in
          bk_Items a \<noteq> [] \<and> bk_Items b \<noteq> [] \<longrightarrow> bk_MaxDeadline a \<le> bk_MinDeadline b)) [0..<n - 1] \<and>
      sum_list (map (\<lambda>i. if i = tq_CurrentBucket q then length (bk_Items (tq_Buckets q ! i)) - tq_CurrentCursor q
                         else length (bk_Items (tq_Buckets q ! i))) [0..<n]) = tq_Size q)"

section \<open>Invariant\<close>

text \<open>The buckets in the order in which they are served.\<close>

definition cyc :: "'a TBinnedTimerQueue \<Rightarrow> 'a TBucket list" where
  "cyc q = rotate (tq_CurrentBucket q) (tq_Buckets q)"

definition bucket_ok :: "'a TBucket \<Rightarrow> bool" where
  "bucket_ok b \<longleftrightarrow>
     (\<forall>x \<in> set (bk_Items b). bk_MinDeadline b \<le> ti_Deadline x \<and> ti_Deadline x \<le> bk_MaxDeadline b \<and>
        time_min < ti_Deadline x \<and> ti_Deadline x \<le> time_max) \<and>
     (if bk_Items b = [] then bk_MinDeadline b = time_max \<and> bk_MaxDeadline b = time_min
      else bk_MinDeadline b \<in> ti_Deadline ` set (bk_Items b) \<and> bk_MaxDeadline b \<in> ti_Deadline ` set (bk_Items b))"

definition buckets_ordered :: "'a TBucket list \<Rightarrow> bool" where
  "buckets_ordered bs \<longleftrightarrow>
     (\<forall>i j. i < j \<and> j < length bs \<and> bk_Items (bs ! j) \<noteq> [] \<longrightarrow> bk_Items (bs ! i) \<noteq> [] \<and> bk_MaxDeadline (bs ! i) \<le> bk_MinDeadline (bs ! j))"

definition by_deadline :: "'a TItem list \<Rightarrow> bool" where
  "by_deadline xs \<longleftrightarrow> sorted (map ti_Deadline xs)"

definition cyc_ok :: "nat \<Rightarrow> 'a TBucket list \<Rightarrow> bool" where
  "cyc_ok cursor bs \<longleftrightarrow> 2 \<le> length bs \<and> (\<forall>b \<in> set bs. bucket_ok b) \<and> buckets_ordered bs \<and> cursor \<le> length (bk_Items (hd bs)) \<and>
     by_deadline (drop cursor (bk_Items (hd bs))) \<and> (\<forall>b \<in> set (tl bs). bk_IsSorted b \<longrightarrow> by_deadline (bk_Items b))"

definition pending_list :: "nat \<Rightarrow> 'a TBucket list \<Rightarrow> 'a TItem list" where
  "pending_list cursor bs = drop cursor (bk_Items (hd bs)) @ concat (map bk_Items (tl bs))"

definition timer_inv :: "'a TBinnedTimerQueue \<Rightarrow> bool" where
  "timer_inv q \<longleftrightarrow> tq_CurrentBucket q < length (tq_Buckets q) \<and> 1 \<le> tq_BucketSoftLimit q \<and>
     cyc_ok (tq_CurrentCursor q) (cyc q) \<and> tq_Size q = length (pending_list (tq_CurrentCursor q) (cyc q))"

definition sorts :: "('a TItem list \<Rightarrow> 'a TItem list) \<Rightarrow> bool" where
  "sorts std_sort \<longleftrightarrow> (\<forall>xs. mset (std_sort xs) = mset xs \<and> by_deadline (std_sort xs))"

lemma cyc_nth: "i < length (tq_Buckets q) \<Longrightarrow> cyc q ! i = tq_Buckets q ! ((tq_CurrentBucket q + i) mod length (tq_Buckets q))"
  by (simp add: cyc_def nth_rotate)

lemma length_cyc [simp]: "length (cyc q) = length (tq_Buckets q)"
  by (simp add: cyc_def)

lemma mod_apart:
  fixes n :: nat
  assumes "i < n" "j < n" "(c + i) mod n = (c + j) mod n"
  shows "i = j"
proof -
  have "i mod n = j mod n" if "i \<le> j" "(c + i) mod n = (c + j) mod n" for i j
  proof -
    have "n dvd (c + j) - (c + i)" using that mod_eq_dvd_iff_nat [of "c + i" "c + j" n] by simp
    then have "n dvd j - i" by simp
    with that(1) show ?thesis using mod_eq_dvd_iff_nat [of i j n] by simp
  qed
  with assms show ?thesis by (metis linear mod_less)
qed

lemma rotate_update:
  assumes "i < length bs"
  shows "rotate c (bs[(c + i) mod length bs := x]) = (rotate c bs)[i := x]"
proof (rule nth_equalityI)
  fix j assume "j < length (rotate c (bs[(c + i) mod length bs := x]))"
  then have j: "j < length bs" by simp
  then have l: "(c + j) mod length bs < length bs" by (metis length_greater_0_conv list.size(3) mod_less_divisor not_less_zero)
  show "rotate c (bs[(c + i) mod length bs := x]) ! j = (rotate c bs)[i := x] ! j"
  proof (cases "i = j")
    case False
    then have "(c + i) mod length bs \<noteq> (c + j) mod length bs" using mod_apart [OF assms j] by blast
    with False j show ?thesis by (simp add: nth_rotate)
  qed (use j l in \<open>simp add: nth_rotate\<close>)
qed simp

lemma bucket_ok_bounds: "bucket_ok b \<Longrightarrow> bk_Items b \<noteq> [] \<Longrightarrow> bk_MinDeadline b \<le> bk_MaxDeadline b"
  unfolding bucket_ok_def by auto

lemma bucket_ok_empty: "bucket_ok b \<Longrightarrow> bk_Items b = [] \<Longrightarrow> bk_MinDeadline b = time_max \<and> bk_MaxDeadline b = time_min"
  unfolding bucket_ok_def by simp

lemma timer_invD:
  assumes "timer_inv q"
  shows "i < length (tq_Buckets q) \<Longrightarrow> bucket_ok (cyc q ! i)" "2 \<le> length (tq_Buckets q)"
    "i < j \<Longrightarrow> j < length (tq_Buckets q) \<Longrightarrow> bk_Items (cyc q ! j) \<noteq> [] \<Longrightarrow>
       bk_Items (cyc q ! i) \<noteq> [] \<and> bk_MaxDeadline (cyc q ! i) \<le> bk_MinDeadline (cyc q ! j)"
  using assms unfolding timer_inv_def cyc_ok_def buckets_ordered_def by auto

definition placed :: "int \<Rightarrow> 'a TBinnedTimerQueue \<Rightarrow> nat \<Rightarrow> bool" where
  "placed d q k \<longleftrightarrow> k < length (tq_Buckets q) \<and> (\<forall>i < k. bk_Items (cyc q ! i) \<noteq> [] \<and> bk_MaxDeadline (cyc q ! i) < d) \<and>
     (\<forall>j. k < j \<and> j < length (tq_Buckets q) \<and> bk_Items (cyc q ! j) \<noteq> [] \<longrightarrow> d \<le> bk_MinDeadline (cyc q ! j))"

lemma placed_next:
  assumes inv: "timer_inv q" and n: "i + 1 < length (tq_Buckets q)" and d: "d \<le> bk_MinDeadline (cyc q ! (i + 1))"
    and j: "i < j" "j < length (tq_Buckets q)" "bk_Items (cyc q ! j) \<noteq> []"
  shows "d \<le> bk_MinDeadline (cyc q ! j)"
proof (cases "j = i + 1")
  case False
  then have o: "bk_Items (cyc q ! (i + 1)) \<noteq> []" "bk_MaxDeadline (cyc q ! (i + 1)) \<le> bk_MinDeadline (cyc q ! j)"
    using timer_invD(3) [OF inv, of "i + 1" j] j by auto
  from bucket_ok_bounds [OF timer_invD(1) [OF inv n] o(1)] o(2) d show ?thesis by linarith
qed (use d in simp)

lemma compute_from_placed:
  assumes inv: "timer_inv q" and d: "time_min < d" "d \<le> time_max"
  shows "i \<le> length (tq_Buckets q) \<Longrightarrow> \<forall>m < i. bk_Items (cyc q ! m) \<noteq> [] \<and> bk_MaxDeadline (cyc q ! m) < d \<Longrightarrow>
     (0 < i \<and> i < length (tq_Buckets q) \<longrightarrow> bk_Items (cyc q ! i) \<noteq> []) \<Longrightarrow>
     \<exists>k. compute_from q d i = (tq_CurrentBucket q + k) mod length (tq_Buckets q) \<and> placed d q k"
proof (induction "length (tq_Buckets q) - i" arbitrary: i)
  case 0
  let ?n = "length (tq_Buckets q)"
  have i: "i = ?n" "2 \<le> ?n" using 0 timer_invD(2) [OF inv] by simp_all
  then have "compute_from q d i = (tq_CurrentBucket q + (?n - 1)) mod ?n" by (subst compute_from.simps) (simp add: Let_def)
  with i 0 show ?case unfolding placed_def by (intro exI [of _ "?n - 1"]) auto
next
  case (Suc m)
  let ?n = "length (tq_Buckets q)" and ?c = "tq_CurrentBucket q"
  have i: "i < ?n" "2 \<le> ?n" using Suc.hyps(2) timer_invD(2) [OF inv] by simp_all
  have bi: "tq_Buckets q ! ((?c + i) mod ?n) = cyc q ! i" using cyc_nth [OF i(1)] by simp
  have nx: "((?c + i) mod ?n + 1) mod ?n = (?c + (i + 1)) mod ?n" by (metis add.assoc mod_add_left_eq)
  have lim: "1 \<le> tq_BucketSoftLimit q" using inv by (simp add: timer_inv_def)
  have step: "compute_from q d i =
      (if d \<le> bk_MaxDeadline (cyc q ! i) then (?c + i) mod ?n
       else if d \<le> bk_MinDeadline (tq_Buckets q ! ((?c + (i + 1)) mod ?n)) then
         if length (bk_Items (cyc q ! i)) \<ge> tq_BucketSoftLimit q then (?c + (i + 1)) mod ?n else (?c + i) mod ?n
       else compute_from q d (i + 1))"
    by (subst compute_from.simps) (simp only: Let_def i(1) if_True add.commute [of i ?c] bi nx)
  consider (here) "d \<le> bk_MaxDeadline (cyc q ! i)"
    | (last) "\<not> d \<le> bk_MaxDeadline (cyc q ! i)" "i + 1 = ?n"
    | (nxt) "\<not> d \<le> bk_MaxDeadline (cyc q ! i)" "i + 1 < ?n" "d \<le> bk_MinDeadline (cyc q ! (i + 1))"
    | (on) "\<not> d \<le> bk_MaxDeadline (cyc q ! i)" "i + 1 < ?n" "\<not> d \<le> bk_MinDeadline (cyc q ! (i + 1))"
    using i by linarith
  then show ?case
  proof cases
    case here
    have "d \<le> bk_MinDeadline (cyc q ! j)" if "i < j \<and> j < ?n \<and> bk_Items (cyc q ! j) \<noteq> []" for j
      using timer_invD(3) [OF inv, of i j] that here by linarith
    with i Suc.prems(2) have "placed d q i" unfolding placed_def by blast
    moreover have "compute_from q d i = (?c + i) mod ?n" using here unfolding step by simp
    ultimately show ?thesis by blast
  next
    case last
    have z: "bk_Items (cyc q ! 0) \<noteq> []" "bk_MaxDeadline (cyc q ! 0) < d" using Suc.prems(2) last i by auto
    have n0: "0 < ?n" using i by linarith
    from bucket_ok_bounds [OF timer_invD(1) [OF inv n0] z(1)] z(2) have "\<not> d \<le> bk_MinDeadline (cyc q ! 0)" by linarith
    moreover have "tq_Buckets q ! ((?c + (i + 1)) mod ?n) = cyc q ! 0" using cyc_nth [OF n0] last(2) by simp
    ultimately have "compute_from q d i = compute_from q d (i + 1)"
      using last(1) unfolding step by simp
    moreover have "0 < i" using last(2) i(2) by linarith
    then have ne: "bk_Items (cyc q ! i) \<noteq> []" using Suc.prems(3) i(1) by blast
    have all: "\<forall>m < i + 1. bk_Items (cyc q ! m) \<noteq> [] \<and> bk_MaxDeadline (cyc q ! m) < d"
      using Suc.prems(2) ne last(1) by (auto simp: less_Suc_eq)
    have m: "m = ?n - (i + 1)" "i + 1 \<le> ?n" "\<not> i + 1 < ?n" using Suc.hyps(2) last(2) by linarith+
    have "\<exists>k. compute_from q d (i + 1) = (?c + k) mod ?n \<and> placed d q k"
      using Suc.hyps(1) [OF m(1,2) all] m(3) by blast
    ultimately show ?thesis by simp
  next
    case nxt
    have b2: "tq_Buckets q ! ((?c + (i + 1)) mod ?n) = cyc q ! (i + 1)" using cyc_nth [OF nxt(2)] by simp
    show ?thesis
    proof (cases "length (bk_Items (cyc q ! i)) \<ge> tq_BucketSoftLimit q")
      case True
      then have ne: "bk_Items (cyc q ! i) \<noteq> []" using lim by auto
      have "compute_from q d i = (?c + (i + 1)) mod ?n" using nxt True unfolding step b2 by simp
      moreover have "placed d q (i + 1)"
        unfolding placed_def using nxt ne Suc.prems(2) placed_next [OF inv nxt(2,3)] by (auto simp: less_Suc_eq)
      ultimately show ?thesis by blast
    next
      case False
      have "compute_from q d i = (?c + i) mod ?n" using nxt False unfolding step b2 by simp
      moreover have "placed d q i" unfolding placed_def using nxt i Suc.prems(2) placed_next [OF inv nxt(2,3)] by auto
      ultimately show ?thesis by blast
    qed
  next
    case on
    have b2: "tq_Buckets q ! ((?c + (i + 1)) mod ?n) = cyc q ! (i + 1)" using cyc_nth [OF on(2)] by simp
    have ne: "bk_Items (cyc q ! (i + 1)) \<noteq> []" using on bucket_ok_empty [OF timer_invD(1) [OF inv on(2)]] d by auto
    then have "bk_Items (cyc q ! i) \<noteq> []" using timer_invD(3) [OF inv, of i "i + 1"] on by simp
    moreover have "compute_from q d i = compute_from q d (i + 1)" using on unfolding step b2 by simp
    moreover have m: "m = ?n - (i + 1)" "i + 1 \<le> ?n" using Suc.hyps(2) on(2) by linarith+
    moreover have all: "\<forall>m < i + 1. bk_Items (cyc q ! m) \<noteq> [] \<and> bk_MaxDeadline (cyc q ! m) < d"
      using Suc.prems(2) calculation(1) on(1) by (auto simp: less_Suc_eq)
    moreover have "\<exists>k. compute_from q d (i + 1) = (?c + k) mod ?n \<and> placed d q k"
      using Suc.hyps(1) [OF m all] ne by blast
    ultimately show ?thesis by simp
  qed
qed

lemma ComputeBucket_placed:
  assumes "timer_inv q" "time_min < d" "d \<le> time_max"
  shows "\<exists>k. ComputeBucket d q = (tq_CurrentBucket q + k) mod length (tq_Buckets q) \<and> placed d q k"
  using compute_from_placed [OF assms, of 0] by (simp add: ComputeBucket_def)

section \<open>Adding\<close>

lemma AddBack_facts:
  assumes "bucket_ok b" "time_min < ti_Deadline it" "ti_Deadline it \<le> time_max"
  shows "bucket_ok (AddBack it b)" "bk_Items (AddBack it b) = bk_Items b @ [it]"
    "bk_MinDeadline (AddBack it b) = min (bk_MinDeadline b) (ti_Deadline it)" "bk_MaxDeadline (AddBack it b) = max (bk_MaxDeadline b) (ti_Deadline it)"
    "bk_IsSorted b \<longrightarrow> by_deadline (bk_Items b) \<Longrightarrow> bk_IsSorted (AddBack it b) \<longrightarrow> by_deadline (bk_Items (AddBack it b))"
proof -
  show "bucket_ok (AddBack it b)"
    using assms by (auto simp: bucket_ok_def AddBack_def min_def max_def split: if_splits)
  have "by_deadline (bk_Items b @ [it])" if "by_deadline (bk_Items b)" "bk_Items b \<noteq> [] \<longrightarrow> ti_Deadline (last (bk_Items b)) \<le> ti_Deadline it"
  proof (cases "bk_Items b" rule: rev_cases)
    case (snoc ys y)
    with that show ?thesis by (auto simp: by_deadline_def sorted_append)
  qed (simp add: by_deadline_def)
  then show "bk_IsSorted b \<longrightarrow> by_deadline (bk_Items b) \<Longrightarrow> bk_IsSorted (AddBack it b) \<longrightarrow> by_deadline (bk_Items (AddBack it b))"
    by (auto simp: AddBack_def split: if_splits)
qed (simp_all add: AddBack_def)

lemma insert_by_deadline:
  assumes "by_deadline xs"
  shows "by_deadline (take (upper_bound xs it) xs @ it # drop (upper_bound xs it) xs)"
proof -
  let ?P = "\<lambda>x. \<not> ti_Deadline it < ti_Deadline x"
  have t: "take (upper_bound xs it) xs = takeWhile ?P xs" "drop (upper_bound xs it) xs = dropWhile ?P xs"
    by (simp_all add: upper_bound_def takeWhile_eq_take [symmetric] dropWhile_eq_drop [symmetric])
  have s: "by_deadline (takeWhile ?P xs @ dropWhile ?P xs)" using assms by simp
  have "ti_Deadline it \<le> ti_Deadline y" if "y \<in> set (dropWhile ?P xs)" for y
  proof (cases "dropWhile ?P xs")
    case (Cons z zs)
    then have "ti_Deadline it < ti_Deadline z" using hd_dropWhile [of ?P xs] by auto
    moreover have "ti_Deadline z \<le> ti_Deadline y" using s Cons that by (auto simp: by_deadline_def sorted_append)
    ultimately show ?thesis by simp
  next
    case Nil
    with that show ?thesis by (simp only: list.set empty_iff)
  qed
  moreover have "ti_Deadline y \<le> ti_Deadline it" if "y \<in> set (takeWhile ?P xs)" for y using set_takeWhileD [OF that] by simp
  ultimately show ?thesis
    using s [unfolded by_deadline_def map_append sorted_append] unfolding t by_deadline_def by (auto simp: sorted_append)
qed

lemma AddSorted_facts:
  assumes b: "bucket_ok b" and d: "time_min < ti_Deadline it" "ti_Deadline it \<le> time_max"
    and c: "cursor \<le> length (bk_Items b)" "by_deadline (drop cursor (bk_Items b))"
  shows "bucket_ok (AddSorted it cursor b)" "cursor \<le> length (bk_Items (AddSorted it cursor b))" "bk_Items (AddSorted it cursor b) \<noteq> []"
    "bk_MinDeadline (AddSorted it cursor b) = min (bk_MinDeadline b) (ti_Deadline it)"
    "bk_MaxDeadline (AddSorted it cursor b) = max (bk_MaxDeadline b) (ti_Deadline it)"
    "by_deadline (drop cursor (bk_Items (AddSorted it cursor b)))"
    "mset (drop cursor (bk_Items (AddSorted it cursor b))) = add_mset it (mset (drop cursor (bk_Items b)))"
proof -
  let ?b = "AddSorted it cursor b" and ?D = "drop cursor (bk_Items b)"
  have "bucket_ok ?b \<and> cursor \<le> length (bk_Items ?b) \<and> bk_Items ?b \<noteq> [] \<and> bk_MinDeadline ?b = min (bk_MinDeadline b) (ti_Deadline it) \<and>
    bk_MaxDeadline ?b = max (bk_MaxDeadline b) (ti_Deadline it) \<and> by_deadline (drop cursor (bk_Items ?b)) \<and>
    mset (drop cursor (bk_Items ?b)) = add_mset it (mset ?D)"
  proof (cases "ti_Deadline it \<ge> bk_MaxDeadline b")
    case True
    have "\<forall>x \<in> set ?D. ti_Deadline x \<le> ti_Deadline it" using b True by (auto simp: bucket_ok_def dest!: in_set_dropD)
    with c have "by_deadline (?D @ [it])" by (auto simp: by_deadline_def sorted_append)
    with True c AddBack_facts(1-4) [OF b d] show ?thesis by (simp add: AddSorted_def)
  next
    case False
    let ?u = "upper_bound ?D it"
    let ?items = "take (cursor + ?u) (bk_Items b) @ [it] @ drop (cursor + ?u) (bk_Items b)"
    have i: "bk_Items ?b = ?items" using False by (simp add: AddSorted_def Let_def)
    have u: "?u \<le> length ?D" unfolding upper_bound_def by (rule length_takeWhile_le)
    have dr: "drop cursor ?items = take ?u ?D @ it # drop ?u ?D"
      using c(1) u by (simp add: take_drop [symmetric] add.commute drop_take)
    have m: "set ?items = insert it (set (bk_Items b))" 
    proof -
      have "set (take p xs) \<union> set (drop p xs) = set xs" for p and xs :: "'a TItem list" by (metis append_take_drop_id set_append)
      then show ?thesis by auto
    qed
    have "bk_Items b \<noteq> []" using False b d by (auto simp: bucket_ok_def)
    then have "bucket_ok ?b" using b d False m i by (auto simp: bucket_ok_def AddSorted_def Let_def min_def max_def split: if_splits)
    moreover have "mset (drop cursor ?items) = add_mset it (mset ?D)"
    proof -
      have "mset ?D = mset (take ?u ?D) + mset (drop ?u ?D)" by (metis append_take_drop_id mset_append)
      then show ?thesis unfolding dr by (simp only: mset_append mset.simps union_mset_add_mset_right)
    qed
    moreover have "by_deadline (drop cursor ?items)" unfolding dr by (rule insert_by_deadline [OF c(2)])
    moreover have "cursor \<le> length ?items" using c u by simp
    ultimately show ?thesis using i False by (simp add: AddSorted_def Let_def)
  qed
  then show "bucket_ok ?b" "cursor \<le> length (bk_Items ?b)" "bk_Items ?b \<noteq> []"
    "bk_MinDeadline ?b = min (bk_MinDeadline b) (ti_Deadline it)" "bk_MaxDeadline ?b = max (bk_MaxDeadline b) (ti_Deadline it)"
    "by_deadline (drop cursor (bk_Items ?b))" "mset (drop cursor (bk_Items ?b)) = add_mset it (mset ?D)" by blast+
qed

lemma ordered_update:
  assumes o: "buckets_ordered bs" and b: "\<forall>b \<in> set bs. bucket_ok b" and k: "k < length bs" and dmax: "d \<le> time_max"
    and before: "\<forall>i < k. bk_Items (bs ! i) \<noteq> [] \<and> bk_MaxDeadline (bs ! i) < d"
    and after: "\<forall>j. k < j \<and> j < length bs \<and> bk_Items (bs ! j) \<noteq> [] \<longrightarrow> d \<le> bk_MinDeadline (bs ! j)"
    and n: "bk_Items b' \<noteq> []" "bk_MinDeadline b' = min (bk_MinDeadline (bs ! k)) d" "bk_MaxDeadline b' = max (bk_MaxDeadline (bs ! k)) d"
  shows "buckets_ordered (bs[k := b'])"
  unfolding buckets_ordered_def
proof (intro allI impI)
  fix i j assume a: "i < j \<and> j < length (bs[k := b']) \<and> bk_Items (bs[k := b'] ! j) \<noteq> []"
  have ord: "bk_Items (bs ! i) \<noteq> [] \<and> bk_MaxDeadline (bs ! i) \<le> bk_MinDeadline (bs ! j)" if "bk_Items (bs ! j) \<noteq> []" "i < j" "j < length bs" for i j
    using o that unfolding buckets_ordered_def by blast
  consider "j = k" | "i = k" | "j \<noteq> k" "i \<noteq> k" by blast
  then show "bk_Items (bs[k := b'] ! i) \<noteq> [] \<and> bk_MaxDeadline (bs[k := b'] ! i) \<le> bk_MinDeadline (bs[k := b'] ! j)"
  proof cases
    case 1
    with a before have "bk_Items (bs ! i) \<noteq> []" "bk_MaxDeadline (bs ! i) < d" by auto
    moreover have "bk_MaxDeadline (bs ! i) \<le> bk_MinDeadline (bs ! k)"
    proof (cases "bk_Items (bs ! k) = []")
      case True
      then have "bk_MinDeadline (bs ! k) = time_max" using b k bucket_ok_empty by fastforce
      with calculation(2) dmax show ?thesis by linarith
    qed (use ord a 1 k in blast)
    ultimately show ?thesis using a 1 n k by simp
  next
    case 2
    then have j: "bk_Items (bs ! j) \<noteq> []" "k < j" "j < length bs" using a by auto
    from ord [OF this] after j n k 2 show ?thesis by simp
  next
    case 3
    with a ord [of j i] show ?thesis by simp
  qed
qed

lemma mset_concat_map_update:
  "i < length xs \<Longrightarrow> mset (concat (map f (xs[i := y]))) + mset (f (xs ! i)) = mset (concat (map f xs)) + mset (f y)"
proof (induction xs arbitrary: i)
  case (Cons x xs)
  show ?case
  proof (cases i)
    case (Suc j)
    with Cons.prems have "mset (concat (map f (xs[j := y]))) + mset (f (xs ! j)) = mset (concat (map f xs)) + mset (f y)" by (intro Cons.IH) simp
    then show ?thesis unfolding Suc by (simp add: ac_simps)
  qed (simp add: ac_simps)
qed simp

lemma buckets_ordered_Nil [simp]: "buckets_ordered []"
  by (simp add: buckets_ordered_def)

lemma buckets_orderedD:
  assumes "buckets_ordered bs" "i < j" "j < length bs" "bk_Items (bs ! j) \<noteq> []"
  shows "bk_Items (bs ! i) \<noteq> []" "bk_MaxDeadline (bs ! i) \<le> bk_MinDeadline (bs ! j)"
  using assms unfolding buckets_ordered_def by blast+

lemma buckets_ordered_Cons [simp]:
  "buckets_ordered (a # bs) \<longleftrightarrow>
     (\<forall>b \<in> set bs. bk_Items b \<noteq> [] \<longrightarrow> bk_Items a \<noteq> [] \<and> bk_MaxDeadline a \<le> bk_MinDeadline b) \<and> buckets_ordered bs" (is "?l \<longleftrightarrow> ?r")
proof
  assume l: ?l
  have "bk_Items a \<noteq> [] \<and> bk_MaxDeadline a \<le> bk_MinDeadline b" if b: "b \<in> set bs" "bk_Items b \<noteq> []" for b
  proof -
    obtain j where "j < length bs" "b = bs ! j" using b(1) by (metis in_set_conv_nth)
    with b(2) buckets_orderedD [OF l, of 0 "Suc j"] show ?thesis by simp
  qed
  moreover have "bk_Items (bs ! i) \<noteq> [] \<and> bk_MaxDeadline (bs ! i) \<le> bk_MinDeadline (bs ! j)"
    if "i < j \<and> j < length bs \<and> bk_Items (bs ! j) \<noteq> []" for i j
    using buckets_orderedD [OF l, of "Suc i" "Suc j"] that by simp
  ultimately show ?r unfolding buckets_ordered_def by blast
next
  assume r: ?r
  have "bk_Items ((a # bs) ! i) \<noteq> [] \<and> bk_MaxDeadline ((a # bs) ! i) \<le> bk_MinDeadline ((a # bs) ! j)"
    if j: "i < j \<and> j < length (a # bs) \<and> bk_Items ((a # bs) ! j) \<noteq> []" for i j
  proof -
    obtain j' where "j = Suc j'" using j by (cases j) auto
    with j r buckets_orderedD [of bs "i - 1" j'] show ?thesis by (cases i) auto
  qed
  then show ?l unfolding buckets_ordered_def by blast
qed

lemma buckets_ordered_snoc: "buckets_ordered bs \<Longrightarrow> bk_Items b = [] \<Longrightarrow> buckets_ordered (bs @ [b])"
  by (induction bs) auto

abbreviation pending :: "'a TBinnedTimerQueue \<Rightarrow> 'a TItem multiset" where
  "pending q \<equiv> mset (pending_list (tq_CurrentCursor q) (cyc q))"

lemma cyc_ok_add_current:
  assumes ok: "cyc_ok cur (a # bs)" and d: "time_min < ti_Deadline it" "ti_Deadline it \<le> time_max"
    and o: "buckets_ordered (AddSorted it cur a # bs)"
  shows "cyc_ok cur (AddSorted it cur a # bs)"
    "mset (pending_list cur (AddSorted it cur a # bs)) = add_mset it (mset (pending_list cur (a # bs)))"
  using ok o AddSorted_facts [of a it cur] d unfolding cyc_ok_def pending_list_def by simp_all

lemma cyc_ok_add_later:
  assumes ok: "cyc_ok cur (a # bs)" and d: "time_min < ti_Deadline it" "ti_Deadline it \<le> time_max" and k: "k < length bs"
    and o: "buckets_ordered (a # bs[k := AddBack it (bs ! k)])"
  shows "cyc_ok cur (a # bs[k := AddBack it (bs ! k)])"
    "mset (pending_list cur (a # bs[k := AddBack it (bs ! k)])) = add_mset it (mset (pending_list cur (a # bs)))"
proof -
  let ?b = "AddBack it (bs ! k)"
  have b: "bucket_ok (bs ! k)" "bk_IsSorted (bs ! k) \<longrightarrow> by_deadline (bk_Items (bs ! k))" using ok k by (auto simp: cyc_ok_def)
  note f = AddBack_facts [OF b(1) d]
  have s: "set (bs[k := ?b]) \<subseteq> insert ?b (set bs)" by (rule set_update_subset_insert)
  have all: "\<forall>c \<in> set (bs[k := ?b]). bucket_ok c \<and> (bk_IsSorted c \<longrightarrow> by_deadline (bk_Items c))"
  proof
    fix c assume "c \<in> set (bs[k := ?b])"
    with s have "c = ?b \<or> c \<in> set bs" by blast
    then show "bucket_ok c \<and> (bk_IsSorted c \<longrightarrow> by_deadline (bk_Items c))"
      using f(1) f(5) [OF b(2)] ok by (auto simp: cyc_ok_def)
  qed
  then show "cyc_ok cur (a # bs[k := ?b])" using ok o by (auto simp: cyc_ok_def)
  have "mset (concat (map bk_Items (bs[k := ?b]))) + mset (bk_Items (bs ! k)) = mset (concat (map bk_Items bs)) + mset (bk_Items ?b)"
    using k by (rule mset_concat_map_update)
  then have "mset (concat (map bk_Items (bs[k := ?b]))) = add_mset it (mset (concat (map bk_Items bs)))" unfolding f(2) by simp
  then show "mset (pending_list cur (a # bs[k := ?b])) = add_mset it (mset (pending_list cur (a # bs)))"
    unfolding pending_list_def by simp
qed

lemma cyc_ok_add:
  assumes ok: "cyc_ok cur bs" and d: "time_min < ti_Deadline it" "ti_Deadline it \<le> time_max" and k: "k < length bs"
    and before: "\<forall>i < k. bk_Items (bs ! i) \<noteq> [] \<and> bk_MaxDeadline (bs ! i) < ti_Deadline it"
    and after: "\<forall>j. k < j \<and> j < length bs \<and> bk_Items (bs ! j) \<noteq> [] \<longrightarrow> ti_Deadline it \<le> bk_MinDeadline (bs ! j)"
  defines "b' \<equiv> (if k = 0 then AddSorted it cur (bs ! k) else AddBack it (bs ! k))"
  shows "cyc_ok cur (bs[k := b'])" "mset (pending_list cur (bs[k := b'])) = add_mset it (mset (pending_list cur bs))"
proof -
  have okb: "\<forall>b \<in> set bs. bucket_ok b" using ok by (simp add: cyc_ok_def)
  then have okk: "bucket_ok (bs ! k)" using k by simp
  obtain a r where bs: "bs = a # r" using k by (cases bs) auto
  have b': "bk_Items b' \<noteq> []" "bk_MinDeadline b' = min (bk_MinDeadline (bs ! k)) (ti_Deadline it)"
    "bk_MaxDeadline b' = max (bk_MaxDeadline (bs ! k)) (ti_Deadline it)"
  proof -
    have c: "cur \<le> length (bk_Items (bs ! k)) \<and> by_deadline (drop cur (bk_Items (bs ! k)))" if "k = 0" using ok that by (simp add: bs cyc_ok_def)
    show "bk_Items b' \<noteq> []" "bk_MinDeadline b' = min (bk_MinDeadline (bs ! k)) (ti_Deadline it)"
      "bk_MaxDeadline b' = max (bk_MaxDeadline (bs ! k)) (ti_Deadline it)"
      using AddBack_facts(2-4) [OF okk d] AddSorted_facts(3-5) [OF okk d, of cur] c unfolding b'_def by (cases "k = 0"; simp)+
  qed
  have o: "buckets_ordered (bs[k := b'])"
    using ok by (intro ordered_update [OF _ okb k d(2) before after b']) (simp add: cyc_ok_def)
  have "cyc_ok cur (bs[k := b']) \<and> mset (pending_list cur (bs[k := b'])) = add_mset it (mset (pending_list cur bs))"
  proof (cases k)
    case 0
    have "bs[k := b'] = AddSorted it cur a # r" by (simp add: 0 bs b'_def)
    with cyc_ok_add_current [OF ok [unfolded bs] d] o show ?thesis unfolding bs by metis
  next
    case (Suc m)
    have "bs[k := b'] = a # r[m := AddBack it (r ! m)]" "m < length r" using k by (simp_all add: Suc bs b'_def)
    with cyc_ok_add_later [OF ok [unfolded bs] d, of m] o show ?thesis unfolding bs by metis
  qed
  then show "cyc_ok cur (bs[k := b'])" "mset (pending_list cur (bs[k := b'])) = add_mset it (mset (pending_list cur bs))" by blast+
qed

lemma add_item_cyc:
  assumes "timer_inv q" "k < length (tq_Buckets q)" "ComputeBucket (ti_Deadline it) q = (tq_CurrentBucket q + k) mod length (tq_Buckets q)"
  shows "cyc (add_item it q) = (cyc q)[k := (if k = 0 then AddSorted it (tq_CurrentCursor q) (cyc q ! k) else AddBack it (cyc q ! k))]"
proof -
  let ?n = "length (tq_Buckets q)" and ?c = "tq_CurrentBucket q"
  have c: "?c < ?n" using assms(1) by (simp add: timer_inv_def)
  then have "0 < ?n" by linarith
  from mod_apart [OF assms(2) this, of ?c] c have "(?c + k) mod ?n = ?c \<longleftrightarrow> k = 0" by auto
  then have "tq_Buckets (add_item it q) = (tq_Buckets q)[(?c + k) mod ?n :=
      (if k = 0 then AddSorted it (tq_CurrentCursor q) (cyc q ! k) else AddBack it (cyc q ! k))]"
    unfolding cyc_nth [OF assms(2)] add_item_def assms(3) by (simp only: Let_def) simp
  then show ?thesis using rotate_update [OF assms(2), of ?c] by (simp add: cyc_def add_item_def Let_def)
qed

lemma add_item_other [simp]:
  "tq_CurrentCursor (add_item it q) = tq_CurrentCursor q" "tq_CurrentBucket (add_item it q) = tq_CurrentBucket q"
  "tq_BucketSoftLimit (add_item it q) = tq_BucketSoftLimit q" "tq_Size (add_item it q) = tq_Size q + 1"
  "length (tq_Buckets (add_item it q)) = length (tq_Buckets q)"
  by (simp_all add: add_item_def Let_def)

lemma add_item_inv:
  assumes inv: "timer_inv q" and d: "time_min < ti_Deadline it" "ti_Deadline it \<le> time_max"
  shows "timer_inv (add_item it q)" "pending (add_item it q) = add_mset it (pending q)"
proof -
  obtain k where k: "ComputeBucket (ti_Deadline it) q = (tq_CurrentBucket q + k) mod length (tq_Buckets q)" "placed (ti_Deadline it) q k"
    using ComputeBucket_placed [OF inv d] by blast
  then have kn: "k < length (cyc q)" by (simp add: placed_def)
  have ok: "cyc_ok (tq_CurrentCursor q) (cyc q)" using inv by (simp add: timer_inv_def)
  have b: "\<forall>i < k. bk_Items (cyc q ! i) \<noteq> [] \<and> bk_MaxDeadline (cyc q ! i) < ti_Deadline it"
    "\<forall>j. k < j \<and> j < length (cyc q) \<and> bk_Items (cyc q ! j) \<noteq> [] \<longrightarrow> ti_Deadline it \<le> bk_MinDeadline (cyc q ! j)"
    using k(2) by (simp_all add: placed_def)
  note a = cyc_ok_add [OF ok d kn b] and c = add_item_cyc [OF inv kn [unfolded length_cyc] k(1)]
  show p: "pending (add_item it q) = add_mset it (pending q)" using a(2) by (simp add: c)
  from arg_cong [OF p, of size] inv a(1) show "timer_inv (add_item it q)" by (simp add: timer_inv_def c)
qed

section \<open>Taking the first item\<close>

lemma head_min:
  assumes ok: "cyc_ok cur bs" and c: "cur < length (bk_Items (hd bs))" and x: "x \<in> set (pending_list cur bs)"
  shows "ti_Deadline (bk_Items (hd bs) ! cur) \<le> ti_Deadline x"
proof -
  obtain a r where bs: "bs = a # r" using ok by (cases bs) (auto simp: cyc_ok_def)
  let ?x = "bk_Items a ! cur"
  have dr: "drop cur (bk_Items a) = ?x # drop (Suc cur) (bk_Items a)" using c bs by (simp add: Cons_nth_drop_Suc)
  consider "x \<in> set (drop cur (bk_Items a))" | b where "b \<in> set r" "x \<in> set (bk_Items b)" using x bs by (auto simp: pending_list_def)
  then show ?thesis
  proof cases
    case 1
    then show ?thesis using ok dr bs by (auto simp: cyc_ok_def by_deadline_def)
  next
    case 2
    have "?x \<in> set (bk_Items a)" using c bs by simp
    then have "ti_Deadline ?x \<le> bk_MaxDeadline a" using ok bs by (auto simp: cyc_ok_def bucket_ok_def)
    moreover have "bk_MaxDeadline a \<le> bk_MinDeadline b" using 2 ok bs by (auto simp: cyc_ok_def)
    moreover have "bk_MinDeadline b \<le> ti_Deadline x" using 2 ok bs by (auto simp: cyc_ok_def bucket_ok_def)
    ultimately show ?thesis using bs by simp
  qed
qed

lemma pending_next:
  assumes "cyc_ok cur bs" "cur < length (bk_Items (hd bs))"
  shows "pending_list cur bs = bk_Items (hd bs) ! cur # pending_list (Suc cur) bs" "cyc_ok (Suc cur) bs"
proof -
  have dr: "drop cur (bk_Items (hd bs)) = bk_Items (hd bs) ! cur # drop (Suc cur) (bk_Items (hd bs))"
    using assms(2) by (simp add: Cons_nth_drop_Suc)
  then show "pending_list cur bs = bk_Items (hd bs) ! cur # pending_list (Suc cur) bs" by (simp add: pending_list_def)
  show "cyc_ok (Suc cur) bs" using assms dr by (simp add: cyc_ok_def by_deadline_def)
qed

lemma cyc_ok_advance:
  assumes s: "sorts std_sort" and ok: "cyc_ok (length (bk_Items a)) (a # b # r)"
  shows "cyc_ok 0 (Bucket_Sort std_sort b # r @ [Bucket_Clear a])"
    "mset (pending_list 0 (Bucket_Sort std_sort b # r @ [Bucket_Clear a])) = mset (pending_list (length (bk_Items a)) (a # b # r))"
proof -
  let ?b = "Bucket_Sort std_sort b" and ?a = "Bucket_Clear a"
  have m: "mset (std_sort xs) = mset xs" "by_deadline (std_sort xs)" for xs using s by (simp_all add: sorts_def)
  then have sn: "set (std_sort xs) = set xs" for xs by (metis set_mset_mset)
  then have e: "std_sort xs = [] \<longleftrightarrow> xs = []" for xs by (metis set_empty)
  have b: "bucket_ok ?b" "by_deadline (bk_Items ?b)" "bk_Items ?b = [] \<longleftrightarrow> bk_Items b = []" "bk_MaxDeadline ?b = bk_MaxDeadline b"
    "mset (bk_Items ?b) = mset (bk_Items b)"
    using ok m sn e by (auto simp: Bucket_Sort_def cyc_ok_def bucket_ok_def)
  have a: "bucket_ok ?a" "bk_Items ?a = []" by (simp_all add: Bucket_Clear_def bucket_ok_def)
  have "buckets_ordered (b # r)" using ok by (simp add: cyc_ok_def)
  then have "buckets_ordered (?b # r)" using b by simp
  then have "buckets_ordered (?b # r @ [?a])" using a(2) buckets_ordered_snoc [of "?b # r" ?a] by simp
  moreover have "\<forall>c \<in> set (?b # r @ [?a]). bucket_ok c" "\<forall>c \<in> set (r @ [?a]). bk_IsSorted c \<longrightarrow> by_deadline (bk_Items c)"
    using ok a b by (auto simp: cyc_ok_def by_deadline_def)
  ultimately show "cyc_ok 0 (?b # r @ [?a])" using b(2) by (simp add: cyc_ok_def)
  show "mset (pending_list 0 (?b # r @ [?a])) = mset (pending_list (length (bk_Items a)) (a # b # r))"
    using a(2) b(5) by (simp add: pending_list_def)
qed

lemma Advance_cyc:
  assumes "timer_inv q" "cyc q = a # b # r"
  shows "cyc (Advance std_sort q) = Bucket_Sort std_sort b # r @ [Bucket_Clear a]"
proof -
  let ?n = "length (tq_Buckets q)" and ?c = "tq_CurrentBucket q"
  let ?c' = "(?c + 1) mod ?n"
  have n: "0 < ?n" "1 < ?n" using timer_invD(2) [OF assms(1)] by linarith+
  have c: "?c < ?n" using assms(1) by (simp add: timer_inv_def)
  have ab: "tq_Buckets q ! ?c = a" "tq_Buckets q ! ?c' = b" using cyc_nth [OF n(1)] cyc_nth [OF n(2)] assms(2) c by simp_all
  have ne: "?c \<noteq> ?c'" using mod_apart [OF n, of ?c] c by auto
  let ?bs = "(tq_Buckets q)[?c := Bucket_Clear a]"
  have "cyc (Advance std_sort q) = rotate ?c' (?bs[?c' := Bucket_Sort std_sort b])"
    using ab ne by (simp add: cyc_def Advance_def Let_def)
  also have "\<dots> = rotate (Suc ?c) (?bs[?c' := Bucket_Sort std_sort b])" by (subst (2) rotate_conv_mod) simp
  also have "\<dots> = rotate1 (rotate ?c (?bs[(?c + 1) mod length ?bs := Bucket_Sort std_sort b]))" by simp
  also have "\<dots> = rotate1 ((rotate ?c ?bs)[1 := Bucket_Sort std_sort b])" using n(2) by (subst rotate_update) simp_all
  also have "rotate ?c ?bs = (cyc q)[0 := Bucket_Clear a]"
    using rotate_update [OF n(1), of ?c "Bucket_Clear a"] c by (simp add: cyc_def)
  finally show ?thesis using assms(2) by simp
qed

lemma Advance_other [simp]:
  "tq_CurrentCursor (Advance std_sort q) = 0" "tq_BucketSoftLimit (Advance std_sort q) = tq_BucketSoftLimit q"
  "tq_Size (Advance std_sort q) = tq_Size q" "length (tq_Buckets (Advance std_sort q)) = length (tq_Buckets q)"
  "tq_CurrentBucket (Advance std_sort q) = (tq_CurrentBucket q + 1) mod length (tq_Buckets q)"
  by (simp_all add: Advance_def Let_def)

lemma cyc_hd: "timer_inv q \<Longrightarrow> tq_Buckets q ! tq_CurrentBucket q = hd (cyc q)"
proof -
  assume inv: "timer_inv q"
  then have c: "tq_CurrentBucket q < length (tq_Buckets q)" by (simp add: timer_inv_def)
  then have "0 < length (tq_Buckets q)" "cyc q \<noteq> []" by (auto simp: cyc_def)
  with cyc_nth [OF this(1)] c show ?thesis by (simp add: hd_conv_nth)
qed

lemma exhausted_decomp:
  assumes inv: "timer_inv q" and s: "tq_Size q \<noteq> 0" and e: "\<not> tq_CurrentCursor q < length (bk_Items (hd (cyc q)))"
  obtains a b r where "cyc q = a # b # r" "tq_CurrentCursor q = length (bk_Items a)" "bk_Items b \<noteq> []"
proof -
  have ok: "cyc_ok (tq_CurrentCursor q) (cyc q)" using inv by (simp add: timer_inv_def)
  obtain a b r where q: "cyc q = a # b # r" using ok by (cases "cyc q"; cases "tl (cyc q)") (auto simp: cyc_ok_def)
  have c: "tq_CurrentCursor q = length (bk_Items a)" using ok e by (simp add: q cyc_ok_def)
  have "concat (map bk_Items (b # r)) \<noteq> []" using inv s by (auto simp: timer_inv_def q c pending_list_def)
  then obtain x where "x \<in> set (b # r)" "bk_Items x \<noteq> []" by auto
  with ok have "bk_Items b \<noteq> []" by (auto simp: q cyc_ok_def)
  with q c show thesis by (rule that)
qed

text \<open>What a pop leaves when the current bucket still has an item.\<close>

lemma pop_current:
  assumes q: "tq_CurrentBucket q < length (tq_Buckets q)" "1 \<le> tq_BucketSoftLimit q" "cyc_ok (tq_CurrentCursor q) (cyc q)"
    "length (pending_list (tq_CurrentCursor q) (cyc q)) = Suc (tq_Size q)" and c: "tq_CurrentCursor q < length (bk_Items (hd (cyc q)))"
  defines "q' \<equiv> q \<lparr> tq_CurrentCursor := tq_CurrentCursor q + 1 \<rparr>" and "it \<equiv> bk_Items (hd (cyc q)) ! tq_CurrentCursor q"
  shows "timer_inv q'" "pending q = add_mset it (pending q')" "\<forall>x \<in># pending q. ti_Deadline it \<le> ti_Deadline x"
proof -
  have cyc: "cyc q' = cyc q" by (simp add: q'_def cyc_def)
  note n = pending_next [OF q(3) c]
  show "timer_inv q'" using q n unfolding timer_inv_def cyc by (simp add: q'_def)
  show "pending q = add_mset it (pending q')" using n(1) unfolding cyc by (simp add: q'_def it_def)
  show "\<forall>x \<in># pending q. ti_Deadline it \<le> ti_Deadline x" using head_min [OF q(3) c] by (simp add: it_def)
qed

lemma PopFront_current:
  assumes inv: "timer_inv q" and s: "tq_Size q \<noteq> 0" and c: "tq_CurrentCursor q < length (bk_Items (hd (cyc q)))"
  shows "\<exists>it q'. PopFront std_sort q = (Inr it, q') \<and> timer_inv q' \<and> pending q = add_mset it (pending q') \<and>
     (\<forall>x \<in># pending q. ti_Deadline it \<le> ti_Deadline x)"
proof -
  let ?q1 = "q \<lparr> tq_Size := tq_Size q - 1 \<rparr>"
  have cyc: "cyc ?q1 = cyc q" by (simp add: cyc_def)
  have "PopFront std_sort q = (Inr (bk_Items (hd (cyc ?q1)) ! tq_CurrentCursor ?q1), ?q1 \<lparr> tq_CurrentCursor := tq_CurrentCursor ?q1 + 1 \<rparr>)"
    using s c cyc_hd [OF inv] unfolding cyc by (simp add: PopFront_def Let_def)
  moreover note pop_current [of ?q1]
  ultimately show ?thesis using inv s c unfolding timer_inv_def cyc by simp
qed

lemma PopFront_advance:
  assumes srt: "sorts std_sort" and inv: "timer_inv q" and s: "tq_Size q \<noteq> 0" and c: "\<not> tq_CurrentCursor q < length (bk_Items (hd (cyc q)))"
  shows "\<exists>it q'. PopFront std_sort q = (Inr it, q') \<and> timer_inv q' \<and> pending q = add_mset it (pending q') \<and>
     (\<forall>x \<in># pending q. ti_Deadline it \<le> ti_Deadline x)"
proof -
  obtain a b r where d: "cyc q = a # b # r" "tq_CurrentCursor q = length (bk_Items a)" "bk_Items b \<noteq> []"
    using exhausted_decomp [OF inv s c] by blast
  let ?q1 = "q \<lparr> tq_Size := tq_Size q - 1 \<rparr>"
  let ?q2 = "Advance std_sort ?q1" and ?bs = "Bucket_Sort std_sort b # r @ [Bucket_Clear a]"
  have q2: "cyc ?q2 = ?bs" "tq_CurrentBucket ?q2 < length (tq_Buckets ?q2)"
  proof -
    have "Advance std_sort ?q1 = (Advance std_sort q) \<lparr> tq_Size := tq_Size q - 1 \<rparr>" by (simp add: Advance_def Let_def)
    then show "cyc ?q2 = ?bs" using Advance_cyc [OF inv d(1)] by (simp add: cyc_def)
    have "0 < length (tq_Buckets q)" using timer_invD(2) [OF inv] by linarith
    then show "tq_CurrentBucket ?q2 < length (tq_Buckets ?q2)" by simp
  qed
  have ok: "cyc_ok 0 ?bs" "mset (pending_list 0 ?bs) = pending q"
    using cyc_ok_advance [OF srt, of a b r] inv d unfolding timer_inv_def by simp_all
  have l: "length (pending_list 0 ?bs) = tq_Size q" using arg_cong [OF ok(2), of size] inv by (simp add: timer_inv_def)
  have sn: "std_sort xs \<noteq> []" if "xs \<noteq> []" for xs using srt that unfolding sorts_def by (metis mset_zero_iff)
  have ne: "bk_Items (hd ?bs) \<noteq> []" using d(3) sn by (simp add: Bucket_Sort_def)
  have h: "tq_Buckets ?q2 ! tq_CurrentBucket ?q2 = hd ?bs"
    using cyc_nth [of 0 ?q2] q2 by (metis add_0_right hd_conv_nth list.distinct(1) mod_less neq0_conv not_less_zero)
  obtain n where n: "length (tq_Buckets ?q1) = Suc n" using timer_invD(2) [OF inv] by (cases "length (tq_Buckets q)") auto
  have "PopFront std_sort q = pop_advance std_sort (length (tq_Buckets ?q1)) ?q1"
    using s c cyc_hd [OF inv] by (simp add: PopFront_def Let_def)
  then have "PopFront std_sort q = (Inr (bk_Items (hd (cyc ?q2)) ! tq_CurrentCursor ?q2), ?q2 \<lparr> tq_CurrentCursor := tq_CurrentCursor ?q2 + 1 \<rparr>)"
    using h ne n q2(1) by (simp add: Let_def)
  moreover have "timer_inv (?q2 \<lparr> tq_CurrentCursor := tq_CurrentCursor ?q2 + 1 \<rparr>)"
    "pending ?q2 = add_mset (bk_Items (hd (cyc ?q2)) ! tq_CurrentCursor ?q2) (pending (?q2 \<lparr> tq_CurrentCursor := tq_CurrentCursor ?q2 + 1 \<rparr>))"
    "\<forall>x \<in># pending ?q2. ti_Deadline (bk_Items (hd (cyc ?q2)) ! tq_CurrentCursor ?q2) \<le> ti_Deadline x"
    using pop_current [of ?q2] q2 ok(1) l s ne inv by (simp_all add: timer_inv_def)
  moreover have "pending ?q2 = pending q" using ok(2) q2(1) by simp
  ultimately show ?thesis by metis
qed

lemma PopFront_first:
  assumes "sorts std_sort" "timer_inv q" "tq_Size q \<noteq> 0"
  shows "\<exists>it q'. PopFront std_sort q = (Inr it, q') \<and> timer_inv q' \<and> pending q = add_mset it (pending q') \<and>
     (\<forall>x \<in># pending q. ti_Deadline it \<le> ti_Deadline x)"
  using PopFront_current [OF assms(2,3)] PopFront_advance [OF assms] by blast

section \<open>The next deadline, the consistency check and the empty queue\<close>

lemma GetNextDeadline_least:
  assumes inv: "timer_inv q" and s: "tq_Size q \<noteq> 0"
  shows "\<exists>x \<in># pending q. ti_Deadline x = GetNextDeadline q" "\<forall>x \<in># pending q. GetNextDeadline q \<le> ti_Deadline x"
proof -
  have ok: "cyc_ok (tq_CurrentCursor q) (cyc q)" using inv by (simp add: timer_inv_def)
  have "(\<exists>x \<in># pending q. ti_Deadline x = GetNextDeadline q) \<and> (\<forall>x \<in># pending q. GetNextDeadline q \<le> ti_Deadline x)"
  proof (cases "tq_CurrentCursor q < length (bk_Items (hd (cyc q)))")
    case True
    then have "GetNextDeadline q = ti_Deadline (bk_Items (hd (cyc q)) ! tq_CurrentCursor q)"
      using s cyc_hd [OF inv] by (simp add: GetNextDeadline_def)
    with head_min [OF ok True] pending_next(1) [OF ok True] show ?thesis by simp
  next
    case False
    obtain a b r where d: "cyc q = a # b # r" "tq_CurrentCursor q = length (bk_Items a)" "bk_Items b \<noteq> []"
      using exhausted_decomp [OF inv s False] by blast
    have n: "1 < length (tq_Buckets q)" using timer_invD(2) [OF inv] by linarith
    have "tq_Buckets q ! ((tq_CurrentBucket q + 1) mod length (tq_Buckets q)) = b" using cyc_nth [OF n] d(1) by simp
    then have g: "GetNextDeadline q = bk_MinDeadline b"
      using s False cyc_hd [OF inv] d n by (simp add: GetNextDeadline_def upt_conv_Cons)
    have "bk_MinDeadline b \<in> ti_Deadline ` set (bk_Items b)" using ok d by (simp add: cyc_ok_def bucket_ok_def)
    moreover have b: "\<forall>x \<in> set (bk_Items b). bk_MinDeadline b \<le> ti_Deadline x" using ok d by (simp add: cyc_ok_def bucket_ok_def)
    moreover have "bk_MinDeadline b \<le> ti_Deadline x" if c: "c \<in> set r" "x \<in> set (bk_Items c)" for c x
    proof -
      have "bucket_ok c" "bk_Items c \<noteq> []" using ok d c by (auto simp: cyc_ok_def)
      then have "bk_MaxDeadline b \<le> bk_MinDeadline c" "bk_MinDeadline c \<le> ti_Deadline x"
        using ok d c by (auto simp: cyc_ok_def bucket_ok_def)
      moreover have "bk_MinDeadline b \<le> bk_MaxDeadline b" using ok d by (intro bucket_ok_bounds) (simp_all add: cyc_ok_def)
      ultimately show ?thesis by linarith
    qed
    ultimately show ?thesis unfolding g d(2) d(1) pending_list_def by auto
  qed
  then show "\<exists>x \<in># pending q. ti_Deadline x = GetNextDeadline q" "\<forall>x \<in># pending q. GetNextDeadline q \<le> ti_Deadline x" by blast+
qed

lemma bucket_ok_extremes:
  assumes "bucket_ok b" "bk_Items b \<noteq> []"
  shows "bk_MinDeadline b = Min (ti_Deadline ` set (bk_Items b))" "bk_MaxDeadline b = Max (ti_Deadline ` set (bk_Items b))"
proof -
  have "bk_MinDeadline b \<in> ti_Deadline ` set (bk_Items b)" "bk_MaxDeadline b \<in> ti_Deadline ` set (bk_Items b)"
    "\<forall>d \<in> ti_Deadline ` set (bk_Items b). bk_MinDeadline b \<le> d \<and> d \<le> bk_MaxDeadline b"
    using assms by (auto simp: bucket_ok_def)
  then show "bk_MinDeadline b = Min (ti_Deadline ` set (bk_Items b))" "bk_MaxDeadline b = Max (ti_Deadline ` set (bk_Items b))"
    by (auto intro!: Min_eqI [symmetric] Max_eqI [symmetric])
qed

lemma sum_list_map_rotate: "sum_list (map f (rotate n xs)) = (sum_list (map f xs) :: nat)"
proof (induction n)
  case (Suc n)
  then show ?case by (cases "rotate n xs") auto
qed simp

lemma sum_list_minus_at:
  fixes f :: "nat \<Rightarrow> nat"
  assumes "c < n" "k \<le> f c"
  shows "sum_list (map (\<lambda>i. if i = c then f i - k else f i) [0..<n]) + k = sum_list (map f [0..<n])"
  using assms by (induction n) (auto simp: less_Suc_eq intro!: arg_cong2 [where f = "(+)"] arg_cong [where f = sum_list])

lemma validate_size:
  assumes inv: "timer_inv q"
  shows "sum_list (map (\<lambda>i. if i = tq_CurrentBucket q then length (bk_Items (tq_Buckets q ! i)) - tq_CurrentCursor q
                         else length (bk_Items (tq_Buckets q ! i))) [0..<length (tq_Buckets q)]) = tq_Size q" (is "?s = _")
proof -
  have c: "tq_CurrentBucket q < length (tq_Buckets q)" "tq_CurrentCursor q \<le> length (bk_Items (hd (cyc q)))"
    using inv by (simp_all add: timer_inv_def cyc_ok_def)
  then have "?s + tq_CurrentCursor q = sum_list (map (\<lambda>i. length (bk_Items (tq_Buckets q ! i))) [0..<length (tq_Buckets q)])"
    using cyc_hd [OF inv] by (intro sum_list_minus_at) simp_all
  also have "\<dots> = sum_list (map (\<lambda>b. length (bk_Items b)) (tq_Buckets q))"
    by (rule arg_cong [where f = sum_list], rule nth_equalityI) simp_all
  also have "\<dots> = sum_list (map (\<lambda>b. length (bk_Items b)) (cyc q))"
    by (simp add: cyc_def sum_list_map_rotate)
  also have "\<dots> = length (pending_list (tq_CurrentCursor q) (cyc q)) + tq_CurrentCursor q"
    using c(2) inv by (cases "cyc q") (auto simp: pending_list_def length_concat comp_def timer_inv_def cyc_ok_def)
  finally show ?thesis using inv by (simp add: timer_inv_def)
qed

lemma timer_inv_validates:
  assumes inv: "timer_inv q"
  shows "Timer_Validate q"
proof -
  let ?n = "length (tq_Buckets q)" and ?c = "tq_CurrentBucket q" and ?i = "bk_Items (hd (cyc q))"
  have ok: "cyc_ok (tq_CurrentCursor q) (cyc q)" using inv by (simp add: timer_inv_def)
  have "ti_Deadline (?i ! (i - 1)) \<le> ti_Deadline (?i ! i)" if "tq_CurrentCursor q + 1 \<le> i" "i < length ?i" for i
  proof -
    have "sorted (map ti_Deadline (drop (tq_CurrentCursor q) ?i))" using ok by (simp add: cyc_ok_def by_deadline_def)
    from sorted_nth_mono [OF this, of "i - 1 - tq_CurrentCursor q" "i - tq_CurrentCursor q"] that show ?thesis by simp
  qed
  then have "list_all (\<lambda>i. \<not> ti_Deadline (?i ! (i - 1)) > ti_Deadline (?i ! i)) [tq_CurrentCursor q + 1..<length ?i]"
    by (simp add: list_all_iff not_less)
  moreover have "list_all (\<lambda>b. if bk_Items b \<noteq> []
           then bk_MinDeadline b = Min (set (map ti_Deadline (bk_Items b))) \<and> bk_MaxDeadline b = Max (set (map ti_Deadline (bk_Items b)))
           else bk_MinDeadline b = time_max \<and> bk_MaxDeadline b = time_min) (tq_Buckets q)"
  proof -
    have "bucket_ok b" if "b \<in> set (tq_Buckets q)" for b using ok that by (simp add: cyc_ok_def cyc_def)
    then show ?thesis unfolding list_all_iff set_map by (simp add: bucket_ok_extremes bucket_ok_empty)
  qed
  moreover have "bk_MaxDeadline (tq_Buckets q ! ((?c + offset) mod ?n)) \<le> bk_MinDeadline (tq_Buckets q ! (((?c + offset) mod ?n + 1) mod ?n))"
    if "offset < ?n - 1" "bk_Items (tq_Buckets q ! (((?c + offset) mod ?n + 1) mod ?n)) \<noteq> []" for offset
  proof -
    have n: "offset < ?n" "offset + 1 < ?n" using that(1) by linarith+
    have "((?c + offset) mod ?n + 1) mod ?n = (?c + (offset + 1)) mod ?n" by (metis add.assoc mod_add_left_eq)
    with that(2) show ?thesis using timer_invD(3) [OF inv less_add_one n(2)] cyc_nth [OF n(1)] cyc_nth [OF n(2)] by simp
  qed
  then have "list_all (\<lambda>offset.
         (let i = (?c + offset) mod ?n; j = (i + 1) mod ?n; a = tq_Buckets q ! i; b = tq_Buckets q ! j in
          bk_Items a \<noteq> [] \<and> bk_Items b \<noteq> [] \<longrightarrow> bk_MaxDeadline a \<le> bk_MinDeadline b)) [0..<?n - 1]"
    by (simp add: list_all_iff Let_def)
  ultimately show ?thesis
    using validate_size [OF inv] unfolding Timer_Validate_def Let_def cyc_hd [OF inv] by blast
qed

lemma new_timer_queue_inv:
  obtains q where "new_timer_queue bucketCount bucketSoftLimit = Inr q" "timer_inv q" "pending q = {#}"
proof -
  let ?n = "max 2 bucketCount"
  let ?q = "\<lparr> tq_Buckets = replicate ?n new_bucket, tq_BucketSoftLimit = max 1 bucketSoftLimit, tq_Size = 0, tq_CurrentBucket = 0,
    tq_CurrentCursor = 0 \<rparr> :: 'a TBinnedTimerQueue"
  have b: "bucket_ok new_bucket" "bk_Items new_bucket = []" by (simp_all add: new_bucket_def bucket_ok_def)
  have c: "cyc ?q = replicate ?n new_bucket" by (simp add: cyc_def)
  have "buckets_ordered (replicate ?n new_bucket)" unfolding buckets_ordered_def by (simp add: b)
  moreover have h: "hd (replicate ?n new_bucket) = new_bucket" by simp
  moreover have p: "pending_list 0 (replicate ?n new_bucket) = []" unfolding pending_list_def h by (simp add: b)
  moreover have "\<forall>x \<in> set (tl (replicate ?n new_bucket)). x = new_bucket" by (metis in_set_replicate list.set_sel(2) replicate_empty tl_Nil)
  ultimately have "timer_inv ?q" unfolding timer_inv_def c cyc_ok_def by (auto simp: by_deadline_def b)
  moreover have "new_timer_queue bucketCount bucketSoftLimit = Inr ?q" by (simp add: new_timer_queue_def Timer_Resize_def Let_def)
  moreover have "pending ?q = {#}" using p c by simp
  ultimately show thesis using that by blast
qed

section \<open>The queue as a priority queue\<close>

text \<open>Sequences of operations and the specification they are held to: a multiset of items, from which a pop takes
  one with the least deadline.\<close>

datatype 'a timer_op = AddOp int 'a int | PopOp

type_synonym 'a timer_answer = "'a TItem option result"

fun run_ops :: "('a TItem \<Rightarrow> 'q \<Rightarrow> 'q) \<Rightarrow> ('q \<Rightarrow> 'a TItem result \<times> 'q) \<Rightarrow> 'a timer_op list \<Rightarrow> 'q \<Rightarrow> 'a timer_answer list \<times> 'q" where
  "run_ops add pop [] q = ([], q)"
| "run_ops add pop (AddOp delay_us v now # ops) q =
     (case bind_r (i64 (delay_us * 1000)) (\<lambda>d. i64 (now + d)) of
        Inl e \<Rightarrow> apfst (Cons (Inl e)) (run_ops add pop ops q)
      | Inr deadline \<Rightarrow> apfst (Cons (Inr None)) (run_ops add pop ops (add \<lparr> ti_Deadline = deadline, ti_Value = v \<rparr> q)))"
| "run_ops add pop (PopOp # ops) q = (let (r, q') = pop q in apfst (Cons (map_r Some r)) (run_ops add pop ops q'))"

fun timer_run :: "('a TItem list \<Rightarrow> 'a TItem list) \<Rightarrow> 'a timer_op list \<Rightarrow> 'a TBinnedTimerQueue \<Rightarrow> 'a timer_answer list \<times> 'a TBinnedTimerQueue" where
  "timer_run std_sort [] q = ([], q)"
| "timer_run std_sort (AddOp delay_us v now # ops) q =
     (case Timer_Add delay_us v now q of
        Inl e \<Rightarrow> apfst (Cons (Inl e)) (timer_run std_sort ops q)
      | Inr q' \<Rightarrow> apfst (Cons (Inr None)) (timer_run std_sort ops q'))"
| "timer_run std_sort (PopOp # ops) q =
     (let (r, q') = PopFront std_sort q in apfst (Cons (map_r Some r)) (timer_run std_sort ops q'))"

fun pq_accepts :: "'a TItem multiset \<Rightarrow> 'a timer_op list \<Rightarrow> 'a timer_answer list \<Rightarrow> 'a TItem multiset \<Rightarrow> bool" where
  "pq_accepts M [] answers M' \<longleftrightarrow> answers = [] \<and> M' = M"
| "pq_accepts M (AddOp delay_us v now # ops) (r # rs) M' \<longleftrightarrow>
     (if in_i64 (delay_us * 1000) \<and> in_i64 (now + delay_us * 1000)
      then r = Inr None \<and> pq_accepts (add_mset \<lparr> ti_Deadline = now + delay_us * 1000, ti_Value = v \<rparr> M) ops rs M'
      else r = Inl SignedOverflow \<and> pq_accepts M ops rs M')"
| "pq_accepts M (PopOp # ops) (r # rs) M' \<longleftrightarrow>
     (if M = {#} then r = Inl (RuntimeError ''Cannot pop from empty timer queue'') \<and> pq_accepts M ops rs M'
      else \<exists>it M1. r = Inr (Some it) \<and> M = add_mset it M1 \<and> (\<forall>x \<in># M1. ti_Deadline it \<le> ti_Deadline x) \<and> pq_accepts M1 ops rs M')"
| "pq_accepts M (op # ops) [] M' \<longleftrightarrow> False"

text \<open>Clocks and delays are not negative.\<close>

fun op_ok :: "'a timer_op \<Rightarrow> bool" where
  "op_ok (AddOp delay_us v now) \<longleftrightarrow> 0 \<le> delay_us \<and> 0 \<le> now"
| "op_ok PopOp \<longleftrightarrow> True"

text \<open>Up to \<open>n\<close> pops in a row.\<close>

fun drain :: "('q \<Rightarrow> 'a TItem result \<times> 'q) \<Rightarrow> nat \<Rightarrow> 'q \<Rightarrow> 'a TItem list" where
  "drain pop 0 q = []"
| "drain pop (Suc n) q = (case pop q of (Inr it, q') \<Rightarrow> it # drain pop n q' | (Inl e, q') \<Rightarrow> [])"

locale delay_queue =
  fixes inv :: "'q \<Rightarrow> bool" and items :: "'q \<Rightarrow> 'a TItem multiset"
    and add :: "'a TItem \<Rightarrow> 'q \<Rightarrow> 'q" and pop :: "'q \<Rightarrow> 'a TItem result \<times> 'q"
  assumes add_inv: "\<lbrakk> inv q; time_min < ti_Deadline it; ti_Deadline it \<le> time_max \<rbrakk> \<Longrightarrow> inv (add it q)"
    and add_items: "\<lbrakk> inv q; time_min < ti_Deadline it; ti_Deadline it \<le> time_max \<rbrakk> \<Longrightarrow> items (add it q) = add_mset it (items q)"
    and pop_empty: "\<lbrakk> inv q; items q = {#} \<rbrakk> \<Longrightarrow> pop q = (Inl (RuntimeError ''Cannot pop from empty timer queue''), q)"
    and pop_least: "\<lbrakk> inv q; items q \<noteq> {#} \<rbrakk> \<Longrightarrow> \<exists>it q'. pop q = (Inr it, q') \<and> inv q' \<and> items q = add_mset it (items q') \<and>
       (\<forall>x \<in># items q. ti_Deadline it \<le> ti_Deadline x)"
begin

lemma run_accepted:
  "inv q \<Longrightarrow> \<forall>op \<in> set ops. op_ok op \<Longrightarrow> run_ops add pop ops q = (rs, q') \<Longrightarrow> inv q' \<and> pq_accepts (items q) ops rs (items q')"
proof (induction ops arbitrary: q rs)
  case (Cons op ops)
  note IH = Cons.IH [OF _ ballI]
  have ops: "op_ok x" if "x \<in> set ops" for x using Cons.prems(2) that by simp
  show ?case
  proof (cases op)
    case op: (AddOp delay_us v now)
    let ?d = "now + delay_us * 1000"
    have nn: "0 \<le> delay_us" "0 \<le> now" using Cons.prems(2) op by simp_all
    show ?thesis
    proof (cases "in_i64 (delay_us * 1000) \<and> in_i64 ?d")
      case True
      let ?it = "\<lparr> ti_Deadline = ?d, ti_Value = v \<rparr>"
      have "time_min < ti_Deadline ?it" "ti_Deadline ?it \<le> time_max" using nn True by (simp_all add: time_min_def time_max_def in_i64_def)
      note a = add_inv [OF Cons.prems(1) this] add_items [OF Cons.prems(1) this]
      from Cons.prems(3) op True obtain rs' where "run_ops add pop ops (add ?it q) = (rs', q')" "rs = Inr None # rs'"
        by (cases "run_ops add pop ops (add ?it q)") auto
      with IH [OF a(1) ops this(1)] a(2) True op show ?thesis by simp
    next
      case False
      from Cons.prems(3) op False obtain rs' where "run_ops add pop ops q = (rs', q')" "rs = Inl SignedOverflow # rs'"
        by (cases "run_ops add pop ops q") (auto simp: i64_def split: if_splits)
      with IH [OF Cons.prems(1) ops this(1)] False op show ?thesis by simp
    qed
  next
    case op: PopOp
    show ?thesis
    proof (cases "items q = {#}")
      case True
      from Cons.prems(3) op pop_empty [OF Cons.prems(1) True] obtain rs'
        where "run_ops add pop ops q = (rs', q')" "rs = Inl (RuntimeError ''Cannot pop from empty timer queue'') # rs'"
        by (cases "run_ops add pop ops q") auto
      with IH [OF Cons.prems(1) ops this(1)] True op show ?thesis by simp
    next
      case False
      obtain it q1 where p: "pop q = (Inr it, q1)" "inv q1" "items q = add_mset it (items q1)" "\<forall>x \<in># items q. ti_Deadline it \<le> ti_Deadline x"
        using pop_least [OF Cons.prems(1) False] by blast
      from Cons.prems(3) op p(1) obtain rs' where "run_ops add pop ops q1 = (rs', q')" "rs = Inr (Some it) # rs'"
        by (cases "run_ops add pop ops q1") auto
      with IH [OF p(2) ops this(1)] False op p(3,4) show ?thesis by auto
    qed
  qed
qed simp

lemma drain_sorts:
  "inv q \<Longrightarrow> size (items q) \<le> n \<Longrightarrow> mset (drain pop n q) = items q \<and> by_deadline (drain pop n q)"
proof (induction n arbitrary: q)
  case (Suc n)
  show ?case
  proof (cases "items q = {#}")
    case False
    obtain it q1 where p: "pop q = (Inr it, q1)" "inv q1" "items q = add_mset it (items q1)" "\<forall>x \<in># items q. ti_Deadline it \<le> ti_Deadline x"
      using pop_least [OF Suc.prems(1) False] by blast
    have "size (items q1) \<le> n" using Suc.prems(2) p(3) by simp
    from Suc.IH [OF p(2) this] have IH: "mset (drain pop n q1) = items q1" "by_deadline (drain pop n q1)" by simp_all
    then have "\<forall>x \<in> set (drain pop n q1). ti_Deadline it \<le> ti_Deadline x" using p(3,4) by (metis set_mset_mset union_iff add_mset_add_single)
    with IH p show ?thesis by (simp add: by_deadline_def)
  qed (use pop_empty [OF Suc.prems(1)] in \<open>simp add: by_deadline_def\<close>)
qed (simp add: by_deadline_def)

end

lemma timer_delay_queue: "sorts std_sort \<Longrightarrow> delay_queue timer_inv pending add_item (PopFront std_sort)"
proof unfold_locales
  assume s: "sorts std_sort"
  fix q :: "'a TBinnedTimerQueue" assume q: "timer_inv q"
  have size: "tq_Size q = 0 \<longleftrightarrow> pending q = {#}" using q by (simp add: timer_inv_def)
  show "PopFront std_sort q = (Inl (RuntimeError ''Cannot pop from empty timer queue''), q)" if "pending q = {#}"
    using size that by (simp add: PopFront_def)
  show "\<exists>it q'. PopFront std_sort q = (Inr it, q') \<and> timer_inv q' \<and> pending q = add_mset it (pending q') \<and>
      (\<forall>x \<in># pending q. ti_Deadline it \<le> ti_Deadline x)" if "pending q \<noteq> {#}"
    using size that by (intro PopFront_first [OF s q]) simp
qed (rule add_item_inv; assumption)+

lemma sort_key_sorts: "sorts (sort_key ti_Deadline)"
  by (simp add: sorts_def by_deadline_def)

interpretation timer_pq: delay_queue timer_inv pending add_item "PopFront (sort_key ti_Deadline)"
  by (rule timer_delay_queue [OF sort_key_sorts])

lemma timer_run_ops: "timer_run std_sort ops q = run_ops add_item (PopFront std_sort) ops q"
proof (induction ops arbitrary: q)
  case (Cons op ops)
  then show ?case by (cases op) (auto simp: Timer_Add_def i64_def split: prod.splits)
qed simp

text \<open>C7: every sequence of additions and pops on a new timer queue, for every permitted behaviour of the sort, is a run
  of the priority queue on a multiset: an addition whose deadline does not fit is refused, a pop takes an item with the
  least deadline of those pending and raises exactly when none is. The state it ends in passes the queue's own
  consistency check, and the next deadline it reports is the least one pending.\<close>

theorem timer_queue_refines:
  assumes "sorts std_sort" and "\<forall>op \<in> set ops. op_ok op"
    and "new_timer_queue bucketCount bucketSoftLimit = Inr q0" and "timer_run std_sort ops q0 = (answers, q)"
  shows "\<exists>M. pq_accepts {#} ops answers M \<and> tq_Size q = size M \<and> Timer_Validate q \<and>
     GetNextDeadline q = (if M = {#} then time_max else Min (ti_Deadline ` set_mset M))"
proof -
  obtain "timer_inv q0" "pending q0 = {#}" using new_timer_queue_inv [of bucketCount bucketSoftLimit] assms(3) by (metis Inr_inject)
  with delay_queue.run_accepted [OF timer_delay_queue [OF assms(1)] _ assms(2), of q0] assms(4)
  have q: "timer_inv q" "pq_accepts {#} ops answers (pending q)" by (simp_all add: timer_run_ops)
  have s: "tq_Size q = size (pending q)" using q(1) by (simp add: timer_inv_def)
  have "GetNextDeadline q = (if pending q = {#} then time_max else Min (ti_Deadline ` set_mset (pending q)))"
  proof (cases "tq_Size q = 0")
    case False
    note g = GetNextDeadline_least [OF q(1) False]
    from g(1) have "GetNextDeadline q \<in> ti_Deadline ` set_mset (pending q)" by (metis image_eqI)
    then have "GetNextDeadline q = Min (ti_Deadline ` set_mset (pending q))" using g(2) by (intro Min_eqI [symmetric]) auto
    with False s show ?thesis by auto
  qed (use s in \<open>simp add: GetNextDeadline_def\<close>)
  with q(2) s timer_inv_validates [OF q(1)] show ?thesis by blast
qed

lemma timer_queue_refines_witness:
  "\<exists>q0 answers q. new_timer_queue 2 1 = Inr q0 \<and>
     timer_run (sort_key ti_Deadline) [AddOp 5 ''a'' 0, AddOp 9 ''b'' 0, AddOp 7 ''c'' 0, PopOp, AddOp 1 ''d'' 0, PopOp, PopOp, AddOp 2 ''e'' 0] q0 = (answers, q) \<and>
     map (\<lambda>r. case r of Inr (Some it) \<Rightarrow> ti_Value it | _ \<Rightarrow> []) answers = [[], [], [], ''a'', [], ''d'', ''c'', []] \<and>
     (\<exists>M. pq_accepts {#} [AddOp 5 ''a'' 0, AddOp 9 ''b'' 0, AddOp 7 ''c'' 0, PopOp, AddOp 1 ''d'' 0, PopOp, PopOp, AddOp 2 ''e'' 0] answers M \<and>
        tq_Size q = size M \<and> Timer_Validate q \<and> GetNextDeadline q = (if M = {#} then time_max else Min (ti_Deadline ` set_mset M)))"
proof -
  let ?ops = "[AddOp 5 ''a'' 0, AddOp 9 ''b'' 0, AddOp 7 ''c'' 0, PopOp, AddOp 1 ''d'' 0, PopOp, PopOp, AddOp 2 ''e'' 0]"
  let ?run = "\<lambda>q. timer_run (sort_key ti_Deadline) ?ops q"
  let ?q0 = "projr (new_timer_queue 2 1) :: string TBinnedTimerQueue"
  have q0: "new_timer_queue 2 1 = Inr ?q0" by (simp add: new_timer_queue_def Timer_Resize_def Let_def)
  have a: "map (\<lambda>r. case r of Inr (Some it) \<Rightarrow> ti_Value it | _ \<Rightarrow> []) (fst (?run ?q0)) = [[], [], [], ''a'', [], ''d'', ''c'', []]"
    by code_simp
  have "\<forall>op \<in> set ?ops. op_ok op" by simp
  from timer_queue_refines [OF sort_key_sorts this q0, of "fst (?run ?q0)" "snd (?run ?q0)"] q0 a show ?thesis
    by (metis prod.collapse)
qed

text \<open>C17: popping a queue until it is empty sorts: the deadlines come out as the sorted list of the deadlines added, and the
  items are those added, whatever the number of buckets, the soft limit and the order of insertion.\<close>

theorem timer_drain_sorted:
  assumes "sorts std_sort" and "\<forall>it \<in> set its. time_min < ti_Deadline it \<and> ti_Deadline it \<le> time_max"
    and "new_timer_queue bucketCount bucketSoftLimit = Inr q0"
  shows "map ti_Deadline (drain (PopFront std_sort) (length its) (fold add_item its q0)) = sort (map ti_Deadline its) \<and>
     mset (drain (PopFront std_sort) (length its) (fold add_item its q0)) = mset its"
proof -
  obtain q0: "timer_inv q0" "pending q0 = {#}" using new_timer_queue_inv [of bucketCount bucketSoftLimit] assms(3) by (metis Inr_inject)
  have "timer_inv q \<Longrightarrow> timer_inv (fold add_item its q) \<and> pending (fold add_item its q) = mset its + pending q" for q
    using assms(2) by (induction its arbitrary: q) (auto simp: add_item_inv simp del: add_item_other)
  from this [OF q0(1)] have f: "timer_inv (fold add_item its q0)" "pending (fold add_item its q0) = mset its" using q0(2) by simp_all
  let ?d = "drain (PopFront std_sort) (length its) (fold add_item its q0)"
  from delay_queue.drain_sorts [OF timer_delay_queue [OF assms(1)] f(1), of "length its"] f(2)
  have d: "mset ?d = mset its" "by_deadline ?d" by simp_all
  from d(1) have "mset (map ti_Deadline ?d) = mset (map ti_Deadline its)" by simp
  with d(2) have "sort (map ti_Deadline its) = map ti_Deadline ?d" by (intro properties_for_sort) (simp_all add: by_deadline_def)
  with d(1) show ?thesis by simp
qed

lemma timer_drain_sorted_witness:
  "\<exists>q0. new_timer_queue 3 1 = Inr q0 \<and>
     map ti_Deadline (drain (PopFront (sort_key ti_Deadline)) 3 (fold add_item
       [\<lparr> ti_Deadline = 7, ti_Value = ''a'' \<rparr>, \<lparr> ti_Deadline = 3, ti_Value = ''b'' \<rparr>, \<lparr> ti_Deadline = 5, ti_Value = ''c'' \<rparr>] q0)) = [3, 5, 7]"
proof -
  let ?q0 = "projr (new_timer_queue 3 1) :: string TBinnedTimerQueue"
  let ?its = "[\<lparr> ti_Deadline = 7, ti_Value = ''a'' \<rparr>, \<lparr> ti_Deadline = 3, ti_Value = ''b'' \<rparr>, \<lparr> ti_Deadline = 5, ti_Value = ''c'' \<rparr>] :: string TItem list"
  have q0: "new_timer_queue 3 1 = Inr ?q0" by (simp add: new_timer_queue_def Timer_Resize_def Let_def)
  have "\<forall>it \<in> set ?its. time_min < ti_Deadline it \<and> ti_Deadline it \<le> time_max" by (simp add: time_min_def time_max_def)
  note d = timer_drain_sorted [OF sort_key_sorts this q0]
  have "length ?its = 3" "sort (map ti_Deadline ?its) = [3, 5, 7]" by simp_all
  with d q0 show ?thesis by metis
qed

end
