(* ===== verification/Histogram.thy ===== *)
theory Histogram
  imports Prelude
begin

text \<open>
  \<^verbatim>\<open>tpcc/metrics/histogram.{h,cpp}\<close>: latency histograms with unit buckets below \<^verbatim>\<open>HdrTill\<close> and at most
  64 equal sub-buckets for each doubling above it. The fields are 64-bit unsigned numbers, kept as natural
  numbers with the wrap-around written out where an operation can leave the range; lengths and indices of
  the bucket vector are natural numbers. The rank that \<^verbatim>\<open>GetValueAtPercentile\<close> computes from its
  floating-point argument is an argument of the model.
\<close>

section \<open>Buckets\<close>

definition u64_max :: nat where "u64_max = 2 ^ 64 - 1"

definition wrap64 :: "nat \<Rightarrow> nat" where "wrap64 x = x mod 2 ^ 64"

definition kSubBucketsPerOctave :: nat where "kSubBucketsPerOctave = 64"

definition SubBucketCount :: "nat \<Rightarrow> nat" where
  "SubBucketCount span = (if span = 0 then 1 else if span < kSubBucketsPerOctave then span else kSubBucketsPerOctave)"

definition AddSaturating :: "nat \<Rightarrow> nat \<Rightarrow> nat" where
  "AddSaturating a b = (if b > u64_max - a then u64_max else a + b)"

record THistogram =
  h_HdrTill :: nat
  h_MaxValue :: nat
  h_Buckets :: "nat list"
  h_TotalCount :: nat
  h_OverflowCount :: nat
  h_MaxRecordedValue :: nat
  h_MinRecordedValue :: nat
  h_SumValues :: nat

text \<open>The calls of \<^verbatim>\<open>ForEachOctave\<close>, as the list of the arguments \<^verbatim>\<open>(start, end, span, nsubs)\<close>. The size
  doubles on every turn and the loop is left once it exceeds half of the range, so 64 turns are enough.\<close>

fun octaves_from :: "nat \<Rightarrow> nat \<Rightarrow> nat \<Rightarrow> nat \<Rightarrow> (nat \<times> nat \<times> nat \<times> nat) list" where
  "octaves_from 0 maxValue start sz = []"
| "octaves_from (Suc turns) maxValue start sz =
     (if start < maxValue then
        let stop = min (AddSaturating start sz) maxValue;
            span = stop - start;
            nsubs = SubBucketCount span in
        (start, stop, span, nsubs) # (if sz > u64_max div 2 then [] else octaves_from turns maxValue stop (sz * 2))
      else [])"

definition ForEachOctave :: "nat \<Rightarrow> nat \<Rightarrow> (nat \<times> nat \<times> nat \<times> nat) list" where
  "ForEachOctave hdrTill maxValue = octaves_from 64 maxValue hdrTill hdrTill"

definition GetTotalBuckets :: "nat \<Rightarrow> nat \<Rightarrow> nat" where
  "GetTotalBuckets hdrTill maxValue = fold (\<lambda>(start, stop, span, nsubs) count. count + nsubs) (ForEachOctave hdrTill maxValue) hdrTill"

definition new_histogram :: "nat \<Rightarrow> nat \<Rightarrow> THistogram result" where
  "new_histogram hdrTill maxValue =
     (if hdrTill = 0 \<or> maxValue = 0 \<or> hdrTill > maxValue then Inl (InvalidArgument ''Invalid histogram parameters'')
      else Inr \<lparr> h_HdrTill = hdrTill, h_MaxValue = maxValue, h_Buckets = replicate (GetTotalBuckets hdrTill maxValue) 0,
                 h_TotalCount = 0, h_OverflowCount = 0, h_MaxRecordedValue = 0, h_MinRecordedValue = u64_max, h_SumValues = 0 \<rparr>)"

text \<open>The callbacks of \<^verbatim>\<open>GetBucketIndex\<close> and \<^verbatim>\<open>GetBucketUpperBound\<close>, on the variables they capture.\<close>

fun index_step :: "nat \<Rightarrow> nat \<Rightarrow> nat \<times> nat \<times> nat \<times> nat \<Rightarrow> nat \<times> nat \<Rightarrow> nat \<times> nat" where
  "index_step n value (start, stop, span, nsubs) (index, found) =
     (if found \<noteq> n then (index, found)
      else if value \<ge> start \<and> value < stop then
        let off = value - start;
            sub = wrap64 (off * nsubs) div span in
        (index, index + (if sub \<ge> nsubs then nsubs - 1 else sub))
      else (index + nsubs, found))"

definition GetBucketIndex :: "THistogram \<Rightarrow> nat \<Rightarrow> nat result" where
  "GetBucketIndex h value =
     (if value < h_HdrTill h then Inr value
      else
        let n = length (h_Buckets h);
            found = snd (fold (index_step n value) (ForEachOctave (h_HdrTill h) (h_MaxValue h)) (h_HdrTill h, n)) in
        if found = n then Inl (RuntimeError ''THistogram internal error'') else Inr found)"

fun bound_step :: "nat \<Rightarrow> nat \<times> nat \<times> nat \<times> nat \<Rightarrow> nat \<times> nat option \<Rightarrow> nat \<times> nat option" where
  "bound_step bucketIndex (start, stop, span, nsubs) (index, have) =
     (case have of
        Some found \<Rightarrow> (index, have)
      | None \<Rightarrow>
          if bucketIndex < index + nsubs then
            let sub = bucketIndex - index;
                upper = wrap64 (start + wrap64 ((sub + 1) * span) div nsubs) in
            (index, Some (if upper > stop \<or> upper < start then stop else upper))
          else (index + nsubs, None))"

definition GetBucketUpperBound :: "THistogram \<Rightarrow> nat \<Rightarrow> nat" where
  "GetBucketUpperBound h bucketIndex =
     (if bucketIndex < h_HdrTill h then bucketIndex + 1
      else case snd (fold (bound_step bucketIndex) (ForEachOctave (h_HdrTill h) (h_MaxValue h)) (h_HdrTill h, None)) of
             None \<Rightarrow> h_MaxValue h
           | Some found \<Rightarrow> found)"

section \<open>Recording, merging and reading\<close>

definition RecordValue :: "nat \<Rightarrow> THistogram \<Rightarrow> THistogram result" where
  "RecordValue value h =
     (let h1 = h \<lparr> h_TotalCount := wrap64 (h_TotalCount h + 1), h_MaxRecordedValue := max (h_MaxRecordedValue h) value,
                   h_MinRecordedValue := min (h_MinRecordedValue h) value, h_SumValues := wrap64 (h_SumValues h + value) \<rparr> in
      if value \<ge> h_MaxValue h then Inr (h1 \<lparr> h_OverflowCount := wrap64 (h_OverflowCount h1 + 1) \<rparr>)
      else bind_r (GetBucketIndex h1 value) (\<lambda>bucketIndex.
        if bucketIndex \<ge> length (h_Buckets h1) then Inl (RuntimeError ''THistogram internal error'')
        else Inr (h1 \<lparr> h_Buckets := (h_Buckets h1)[bucketIndex := wrap64 (h_Buckets h1 ! bucketIndex + 1)] \<rparr>)))"

text \<open>The loops that add and subtract bucket by bucket stop at the shorter vector.\<close>

fun zip_into :: "(nat \<Rightarrow> nat \<Rightarrow> nat) \<Rightarrow> nat list \<Rightarrow> nat list \<Rightarrow> nat list" where
  "zip_into f (a # as) (b # bs) = f a b # zip_into f as bs"
| "zip_into f as bs = as"

definition sub64 :: "nat \<Rightarrow> nat \<Rightarrow> nat" where "sub64 a b = wrap64 (a + (2 ^ 64 - wrap64 b))"

definition Hist_Add :: "THistogram \<Rightarrow> THistogram \<Rightarrow> THistogram result" where
  "Hist_Add h other =
     (if h_HdrTill h \<noteq> h_HdrTill other \<or> h_MaxValue h \<noteq> h_MaxValue other
      then Inl (InvalidArgument ''Cannot add histograms with different parameters'')
      else Inr (h \<lparr>
        h_Buckets := zip_into (\<lambda>a b. wrap64 (a + b)) (h_Buckets h) (h_Buckets other),
        h_MinRecordedValue := (if h_TotalCount other > 0 then min (h_MinRecordedValue h) (h_MinRecordedValue other) else h_MinRecordedValue h),
        h_TotalCount := wrap64 (h_TotalCount h + h_TotalCount other),
        h_OverflowCount := wrap64 (h_OverflowCount h + h_OverflowCount other),
        h_MaxRecordedValue := max (h_MaxRecordedValue h) (h_MaxRecordedValue other),
        h_SumValues := wrap64 (h_SumValues h + h_SumValues other) \<rparr>))"

definition Hist_Sub :: "THistogram \<Rightarrow> THistogram \<Rightarrow> THistogram result" where
  "Hist_Sub h other =
     (if h_HdrTill h \<noteq> h_HdrTill other \<or> h_MaxValue h \<noteq> h_MaxValue other
      then Inl (InvalidArgument ''Cannot sub histograms with different parameters'')
      else Inr (h \<lparr>
        h_Buckets := zip_into sub64 (h_Buckets h) (h_Buckets other),
        h_TotalCount := sub64 (h_TotalCount h) (h_TotalCount other),
        h_OverflowCount := sub64 (h_OverflowCount h) (h_OverflowCount other),
        h_SumValues := sub64 (h_SumValues h) (h_SumValues other) \<rparr>))"

definition Hist_Reset :: "THistogram \<Rightarrow> THistogram" where
  "Hist_Reset h = h \<lparr> h_Buckets := replicate (length (h_Buckets h)) 0, h_TotalCount := 0, h_OverflowCount := 0,
     h_MaxRecordedValue := 0, h_MinRecordedValue := u64_max, h_SumValues := 0 \<rparr>"

text \<open>The scan of \<^verbatim>\<open>GetValueAtPercentile\<close>: the first bucket at which the running count reaches the target.\<close>

fun scan_buckets :: "nat \<Rightarrow> nat \<Rightarrow> nat \<Rightarrow> nat list \<Rightarrow> nat + nat" where
  "scan_buckets targetCount i currentCount [] = Inl currentCount"
| "scan_buckets targetCount i currentCount (b # bs) =
     (let c = wrap64 (currentCount + b) in if c \<ge> targetCount then Inr i else scan_buckets targetCount (i + 1) c bs)"

definition GetValueAtRank :: "nat \<Rightarrow> THistogram \<Rightarrow> nat" where
  "GetValueAtRank targetCount h =
     (if h_TotalCount h = 0 then 0
      else case scan_buckets targetCount 0 0 (h_Buckets h) of
             Inr i \<Rightarrow> GetBucketUpperBound h i
           | Inl currentCount \<Rightarrow>
               if h_OverflowCount h > 0 \<and> wrap64 (currentCount + h_OverflowCount h) \<ge> targetCount then h_MaxValue h else u64_max)"

definition MinRecordedValue :: "THistogram \<Rightarrow> nat" where
  "MinRecordedValue h = (if h_TotalCount h = 0 then 0 else h_MinRecordedValue h)"

section \<open>The octaves cover the range\<close>

lemma wrap64_id: "x < 2 ^ 64 \<Longrightarrow> wrap64 x = x"
  by (simp add: wrap64_def)

fun octave_chain :: "nat \<Rightarrow> nat \<Rightarrow> (nat \<times> nat \<times> nat \<times> nat) list \<Rightarrow> bool" where
  "octave_chain s m [] \<longleftrightarrow> s = m"
| "octave_chain s m ((start, stop, span, nsubs) # os) \<longleftrightarrow>
     start = s \<and> s < stop \<and> stop \<le> m \<and> stop \<le> 2 * s \<and> span = stop - s \<and> nsubs = SubBucketCount span \<and> octave_chain stop m os"

definition sub_total :: "(nat \<times> nat \<times> nat \<times> nat) list \<Rightarrow> nat" where
  "sub_total os = sum_list (map (\<lambda>(start, stop, span, nsubs). nsubs) os)"

lemma sub_total_simps [simp]: "sub_total [] = 0" "sub_total ((a, e, s, n) # os) = n + sub_total os"
  by (simp_all add: sub_total_def)

lemma SubBucketCount_bounds: "0 < span \<Longrightarrow> 0 < SubBucketCount span \<and> SubBucketCount span \<le> span \<and> SubBucketCount span \<le> 64"
  by (simp add: SubBucketCount_def kSubBucketsPerOctave_def)

lemma octaves_chain:
  assumes "start \<le> m" "start = sz \<or> start = m" "0 < sz" "sz \<le> u64_max" "2 ^ 64 \<le> sz * 2 ^ turns" "m \<le> u64_max"
  shows "octave_chain start m (octaves_from turns m start sz)"
  using assms
proof (induction turns arbitrary: start sz)
  case 0
  then show ?case by (simp add: u64_max_def)
next
  case (Suc turns)
  show ?case
  proof (cases "start < m")
    case True
    let ?e = "min (AddSaturating start sz) m"
    have s: "start = sz" using Suc.prems(2) True by simp
    have e: "start < ?e" "?e \<le> 2 * start" using True Suc.prems(3) s Suc.prems(6) by (auto simp: AddSaturating_def min_def)
    have "octave_chain ?e m (if sz > u64_max div 2 then [] else octaves_from turns m ?e (sz * 2))"
    proof (cases "sz > u64_max div 2")
      case big: True
      then have "?e = m" using s Suc.prems(6) by (auto simp: AddSaturating_def u64_max_def min_def)
      with big show ?thesis by simp
    next
      case False
      then have "AddSaturating start sz = sz * 2" using s by (auto simp: AddSaturating_def u64_max_def)
      then have "?e = sz * 2 \<or> ?e = m" by (simp add: min_def)
      moreover have "sz * 2 \<le> u64_max" using False by simp
      ultimately show ?thesis using False Suc.prems by (simp add: Suc.IH)
    qed
    with True e show ?thesis by (simp add: Let_def)
  qed (use Suc.prems in simp)
qed

lemma ForEachOctave_chain:
  "0 < hdrTill \<Longrightarrow> hdrTill \<le> maxValue \<Longrightarrow> maxValue \<le> u64_max \<Longrightarrow> octave_chain hdrTill maxValue (ForEachOctave hdrTill maxValue)"
  unfolding ForEachOctave_def by (intro octaves_chain) auto

lemma GetTotalBuckets_sum: "GetTotalBuckets hdrTill maxValue = hdrTill + sub_total (ForEachOctave hdrTill maxValue)"
proof -
  have "fold (\<lambda>(start, stop, span, nsubs) count. count + nsubs) os c = c + sub_total os" for os c
    by (induction os arbitrary: c) auto
  then show ?thesis by (simp add: GetTotalBuckets_def)
qed

section \<open>The bucket of a value\<close>

fun locate :: "nat \<Rightarrow> nat \<Rightarrow> (nat \<times> nat \<times> nat \<times> nat) list \<Rightarrow> nat option" where
  "locate v index [] = None"
| "locate v index ((start, stop, span, nsubs) # os) =
     (if start \<le> v \<and> v < stop then Some (index + min (wrap64 ((v - start) * nsubs) div span) (nsubs - 1)) else locate v (index + nsubs) os)"

lemma locate_range: "octave_chain s m os \<Longrightarrow> s \<le> v \<Longrightarrow> v < m \<Longrightarrow> \<exists>i. locate v index os = Some i \<and> index \<le> i \<and> i < index + sub_total os"
proof (induction s m os arbitrary: index rule: octave_chain.induct)
  case (2 s m start stop span nsubs os)
  then have n: "0 < nsubs" using SubBucketCount_bounds [of span] by simp
  show ?case
  proof (cases "v < stop")
    case True
    have "min x (nsubs - 1) < nsubs + sub_total os" for x using n min.cobounded2 [of x "nsubs - 1"] by linarith
    with True 2(2,3) show ?thesis by simp
  next
    case False
    with 2 obtain i where "locate v (index + nsubs) os = Some i" "index + nsubs \<le> i" "i < index + nsubs + sub_total os" by fastforce
    with False show ?thesis by simp
  qed
qed simp

lemma index_fold_found: "found \<noteq> n \<Longrightarrow> fold (index_step n v) os (index, found) = (index, found)"
proof (induction os)
  case (Cons x os)
  then show ?case by (cases x) simp
qed simp

lemma index_fold:
  assumes "octave_chain s m os" "s \<le> v" "v < m" "index + sub_total os \<le> n"
  shows "snd (fold (index_step n v) os (index, n)) = the (locate v index os)"
  using assms
proof (induction s m os arbitrary: index rule: octave_chain.induct)
  case (2 s m start stop span nsubs os)
  then have n: "0 < nsubs" using SubBucketCount_bounds [of span] by simp
  show ?case
  proof (cases "v < stop")
    case True
    let ?sub = "wrap64 ((v - s) * nsubs) div span"
    let ?i = "index + (if ?sub \<ge> nsubs then nsubs - 1 else ?sub)"
    have ne: "?i \<noteq> n" using 2(5) n by auto
    have "index_step n v (start, stop, span, nsubs) (index, n) = (index, ?i)" using 2(2,3) True by (simp add: Let_def)
    then have "snd (fold (index_step n v) ((start, stop, span, nsubs) # os) (index, n)) = ?i"
      by (simp only: fold_simps index_fold_found [OF ne] snd_conv)
    also have "?i = index + min ?sub (nsubs - 1)" using n by (auto simp: min_def)
    also have "\<dots> = the (locate v index ((start, stop, span, nsubs) # os))" using 2(2,3) True by simp
    finally show ?thesis .
  next
    case False
    with 2 show ?thesis by simp
  qed
qed simp

lemma bound_fold_found: "fold (bound_step i) os (index, Some u) = (index, Some u)"
proof (induction os)
  case (Cons x os)
  then show ?case by (cases x) simp
qed simp

text \<open>Within one octave the upper bound of the sub-bucket of a value is at most a 64th above it.\<close>

lemma octave_bound:
  fixes off n span :: nat
  assumes "off < span" "n = SubBucketCount span"
  shows "off * n div span < n" "off \<le> (off * n div span + 1) * span div n" "(off * n div span + 1) * span div n \<le> span"
    "(off * n div span + 1) * span div n \<le> off + max 1 (span div 64)"
proof -
  have n: "0 < n" "n \<le> span" "n \<le> 64" using SubBucketCount_bounds [of span] assms by simp_all
  let ?q = "off * n div span"
  show q: "?q < n" using assms(1) n by (simp add: less_mult_imp_div_less mult.commute)
  have up: "off * n < (?q + 1) * span" using assms(1) by (simp add: dividend_less_div_times)
  then show "off \<le> (?q + 1) * span div n" using n by (simp add: less_eq_div_iff_mult_less_eq)
  have "(?q + 1) * span \<le> n * span" using q by (intro mult_right_mono) simp_all
  then show "(?q + 1) * span div n \<le> span" using n by (metis div_le_mono nonzero_mult_div_cancel_left not_gr0)
  have "(?q + 1) * span \<le> off * n + span" by (simp add: mult.commute)
  then have "(?q + 1) * span div n \<le> (off * n + span) div n" by (rule div_le_mono)
  also have "\<dots> = off + span div n" using n by simp
  also have "span div n \<le> max 1 (span div 64)" using assms(2) n by (auto simp: SubBucketCount_def kSubBucketsPerOctave_def split: if_splits)
  finally show "(?q + 1) * span div n \<le> off + max 1 (span div 64)" by simp
qed

lemma bound_of_located:
  assumes "octave_chain s m os" "s \<le> v" "v < m" "locate v index os = Some i" "m \<le> 2 ^ 58"
  shows "\<exists>u. snd (fold (bound_step i) os (index, None)) = Some u \<and> v \<le> u \<and> u \<le> v + max 1 (v div 64) \<and> u \<le> m"
  using assms
proof (induction s m os arbitrary: index rule: octave_chain.induct)
  case (2 s m start stop span nsubs os)
  then have c: "start = s" "s < stop" "stop \<le> m" "stop \<le> 2 * s" "span = stop - s" "nsubs = SubBucketCount span" "octave_chain stop m os" by simp_all
  have n: "0 < nsubs" "nsubs \<le> 64" using SubBucketCount_bounds [of span] c by simp_all
  show ?case
  proof (cases "v < stop")
    case True
    let ?off = "v - s"
    define q where "q = ?off * nsubs div span"
    have off: "?off < span" using True 2(3) c(5) by simp
    note b = octave_bound [OF off c(6), folded q_def]
    have small: "span < 2 ^ 58" using c(2-5) 2(6) by simp
    have "?off * nsubs < 2 ^ 58 * 64" using off small n by (intro mult_less_le_imp_less) simp_all
    then have w1: "wrap64 (?off * nsubs) = ?off * nsubs" by (intro wrap64_id) simp
    have i: "i = index + q" using 2(5) True 2(3) b(1) unfolding c(1) locate.simps w1 q_def [symmetric] by simp
    have "(q + 1) * span < 64 * 2 ^ 58" using b(1) n(2) small by (intro mult_le_less_imp_less) simp_all
    then have w2: "wrap64 ((q + 1) * span) = (q + 1) * span" by (intro wrap64_id) simp
    define u where "u = s + (q + 1) * span div nsubs"
    have le: "u \<le> stop" "s \<le> u" using b(3) c(2,5) unfolding u_def by linarith+
    then have "u < 2 ^ 64" using 2(6) c(3) by simp
    then have w3: "wrap64 u = u" by (rule wrap64_id)
    have "bound_step i (start, stop, span, nsubs) (index, None) = (index, Some u)"
      using b(1) le unfolding i c(1) by (simp add: Let_def w2 [simplified] flip: u_def [simplified]) (simp add: w3)
    then have "snd (fold (bound_step i) ((start, stop, span, nsubs) # os) (index, None)) = Some u"
      by (simp only: fold_simps bound_fold_found snd_conv)
    moreover have "v \<le> u" using b(2) 2(3) unfolding u_def by linarith
    moreover have "span \<le> v" using c(2,4,5) 2(3) by linarith
    then have "span div 64 \<le> v div 64" by (rule div_le_mono)
    then have "u \<le> v + max 1 (v div 64)" using b(4) 2(3) unfolding u_def by linarith
    moreover have "u \<le> m" using le c(3) by linarith
    ultimately show ?thesis by blast
  next
    case False
    then have l: "locate v (index + nsubs) os = Some i" "stop \<le> v" using 2(5) by simp_all
    then have "index + nsubs \<le> i" using locate_range [OF c(7) l(2) 2(4), of "index + nsubs"] by auto
    then have "bound_step i (start, stop, span, nsubs) (index, None) = (index + nsubs, None)" by simp
    with 2(1) [OF c(7) l(2) 2(4) l(1) 2(6)] show ?thesis by (simp only: fold_simps)
  qed
qed simp

lemma locate_mono:
  assumes "octave_chain s m os" "s \<le> v" "v \<le> v'" "v' < m" "locate v index os = Some i" "locate v' index os = Some i'" "m \<le> 2 ^ 58"
  shows "i \<le> i'"
  using assms
proof (induction s m os arbitrary: index rule: octave_chain.induct)
  case (2 s m start stop span nsubs os)
  then have c: "start = s" "s < stop" "stop \<le> m" "span = stop - s" "nsubs = SubBucketCount span" "octave_chain stop m os" by simp_all
  have n: "0 < nsubs" "nsubs \<le> 64" using SubBucketCount_bounds [of span] c by simp_all
  have loc: "locate x index ((start, stop, span, nsubs) # os) = Some (index + min ((x - s) * nsubs div span) (nsubs - 1))" if x: "s \<le> x" "x < stop" for x
  proof -
    have "(x - s) * nsubs < 2 ^ 58 * 64" using x c 2(8) n by (intro mult_less_le_imp_less) simp_all
    then have "wrap64 ((x - s) * nsubs) = (x - s) * nsubs" by (intro wrap64_id) simp
    with x c(1) show ?thesis by simp
  qed
  consider "v' < stop" | "v < stop" "stop \<le> v'" | "stop \<le> v" by linarith
  then show ?case
  proof cases
    case 1
    have "(v - s) * nsubs div span \<le> (v' - s) * nsubs div span" using 2(4) by (intro div_le_mono mult_right_mono) simp_all
    moreover have "s \<le> v'" "v < stop" using 1 "2.prems"(2,3) by linarith+
    then have "Some i = Some (index + min ((v - s) * nsubs div span) (nsubs - 1))" "Some i' = Some (index + min ((v' - s) * nsubs div span) (nsubs - 1))"
      unfolding "2.prems"(5,6) [symmetric] using 1 "2.prems"(2) by (blast intro: loc)+
    then have "i = index + min ((v - s) * nsubs div span) (nsubs - 1)" "i' = index + min ((v' - s) * nsubs div span) (nsubs - 1)" by (simp_all only: option.inject)
    ultimately show ?thesis by linarith
  next
    case prems: 2
    have "Some i = Some (index + min ((v - s) * nsubs div span) (nsubs - 1))"
      unfolding "2.prems"(5) [symmetric] using prems(1) "2.prems"(2) by (blast intro: loc)
    then have "i = index + min ((v - s) * nsubs div span) (nsubs - 1)" by (simp only: option.inject)
    then have "i \<le> index + nsubs" by linarith
    moreover have l: "locate v' (index + nsubs) os = Some i'" using "2.prems"(6) prems by simp
    then have "index + nsubs \<le> i'" using locate_range [OF c(6) prems(2) "2.prems"(4), of "index + nsubs"] by auto
    ultimately show ?thesis by linarith
  next
    case 3
    then have "locate v (index + nsubs) os = Some i" "locate v' (index + nsubs) os = Some i'" using "2.prems" by simp_all
    with "2.IH" [OF c(6) 3 "2.prems"(3,4)] "2.prems"(7) show ?thesis by blast
  qed
qed simp

text \<open>Parameters the constructor accepts, and the bucket of a value below the maximum.\<close>

definition hist_params :: "nat \<Rightarrow> nat \<Rightarrow> bool" where
  "hist_params hdrTill maxValue \<longleftrightarrow> 0 < hdrTill \<and> hdrTill \<le> maxValue \<and> maxValue \<le> u64_max"

definition bucket_of :: "nat \<Rightarrow> nat \<Rightarrow> nat \<Rightarrow> nat" where
  "bucket_of hdrTill maxValue v = (if v < hdrTill then v else the (locate v hdrTill (ForEachOctave hdrTill maxValue)))"

lemma locate_params:
  assumes "hist_params hdrTill maxValue" "v < maxValue" "hdrTill \<le> v"
  shows "locate v hdrTill (ForEachOctave hdrTill maxValue) = Some (bucket_of hdrTill maxValue v)"
    "hdrTill \<le> bucket_of hdrTill maxValue v" "bucket_of hdrTill maxValue v < GetTotalBuckets hdrTill maxValue"
proof -
  have "octave_chain hdrTill maxValue (ForEachOctave hdrTill maxValue)" using assms(1) by (simp add: hist_params_def ForEachOctave_chain)
  from locate_range [OF this assms(3,2), of hdrTill] obtain i where
    "locate v hdrTill (ForEachOctave hdrTill maxValue) = Some i" "hdrTill \<le> i" "i < GetTotalBuckets hdrTill maxValue" by (auto simp: GetTotalBuckets_sum)
  with assms(3) show "locate v hdrTill (ForEachOctave hdrTill maxValue) = Some (bucket_of hdrTill maxValue v)"
    "hdrTill \<le> bucket_of hdrTill maxValue v" "bucket_of hdrTill maxValue v < GetTotalBuckets hdrTill maxValue" by (simp_all add: bucket_of_def)
qed

lemma bucket_of_less: "hist_params hdrTill maxValue \<Longrightarrow> v < maxValue \<Longrightarrow> bucket_of hdrTill maxValue v < GetTotalBuckets hdrTill maxValue"
  by (cases "v < hdrTill") (auto simp: bucket_of_def GetTotalBuckets_sum dest: locate_params(3) [unfolded bucket_of_def GetTotalBuckets_sum])

lemma bucket_of_mono:
  assumes p: "hist_params hdrTill maxValue" and v: "v \<le> v'" "v' < maxValue" and m: "maxValue \<le> 2 ^ 58"
  shows "bucket_of hdrTill maxValue v \<le> bucket_of hdrTill maxValue v'"
proof -
  consider "v' < hdrTill" | "v < hdrTill" "hdrTill \<le> v'" | "hdrTill \<le> v" by linarith
  then show ?thesis
  proof cases
    case 2
    with locate_params(2) [OF p v(2)] show ?thesis by (simp add: bucket_of_def)
  next
    case 3
    have "octave_chain hdrTill maxValue (ForEachOctave hdrTill maxValue)" using p by (simp add: hist_params_def ForEachOctave_chain)
    with 3 v m show ?thesis by (intro locate_mono [OF _ 3 v locate_params(1) locate_params(1)] p) auto
  qed (use v in \<open>simp add: bucket_of_def\<close>)
qed

lemma GetBucketIndex_bucket_of:
  assumes p: "hist_params (h_HdrTill h) (h_MaxValue h)" and v: "v < h_MaxValue h"
    and n: "length (h_Buckets h) = GetTotalBuckets (h_HdrTill h) (h_MaxValue h)"
  shows "GetBucketIndex h v = Inr (bucket_of (h_HdrTill h) (h_MaxValue h) v)"
proof (cases "v < h_HdrTill h")
  case False
  let ?os = "ForEachOctave (h_HdrTill h) (h_MaxValue h)"
  have "octave_chain (h_HdrTill h) (h_MaxValue h) ?os" using p by (simp add: hist_params_def ForEachOctave_chain)
  with False v n have "snd (fold (index_step (length (h_Buckets h)) v) ?os (h_HdrTill h, length (h_Buckets h))) = bucket_of (h_HdrTill h) (h_MaxValue h) v"
    by (simp add: index_fold bucket_of_def GetTotalBuckets_sum)
  moreover have "bucket_of (h_HdrTill h) (h_MaxValue h) v \<noteq> length (h_Buckets h)" using bucket_of_less [OF p v] n by simp
  ultimately show ?thesis using False by (simp add: GetBucketIndex_def Let_def)
qed (simp add: GetBucketIndex_def bucket_of_def)

lemma GetBucketUpperBound_bounds:
  assumes p: "hist_params (h_HdrTill h) (h_MaxValue h)" and v: "v < h_MaxValue h" and m: "h_MaxValue h \<le> 2 ^ 58"
  defines "u \<equiv> GetBucketUpperBound h (bucket_of (h_HdrTill h) (h_MaxValue h) v)"
  shows "v \<le> u \<and> u \<le> v + max 1 (v div 64) \<and> u \<le> h_MaxValue h"
proof (cases "v < h_HdrTill h")
  case True
  then show ?thesis using v by (simp add: u_def GetBucketUpperBound_def bucket_of_def)
next
  case False
  let ?os = "ForEachOctave (h_HdrTill h) (h_MaxValue h)" and ?i = "bucket_of (h_HdrTill h) (h_MaxValue h) v"
  have c: "octave_chain (h_HdrTill h) (h_MaxValue h) ?os" using p by (simp add: hist_params_def ForEachOctave_chain)
  have l: "locate v (h_HdrTill h) ?os = Some ?i" "h_HdrTill h \<le> ?i" using locate_params [OF p v] False by simp_all
  obtain x where "snd (fold (bound_step ?i) ?os (h_HdrTill h, None)) = Some x" "v \<le> x" "x \<le> v + max 1 (v div 64)" "x \<le> h_MaxValue h"
    using bound_of_located [OF c _ v l(1) m] False by auto
  then show ?thesis using l(2) by (simp add: u_def GetBucketUpperBound_def)
qed

section \<open>A histogram summarises what was recorded\<close>

fun record_all :: "nat list \<Rightarrow> THistogram \<Rightarrow> THistogram result" where
  "record_all [] h = Inr h"
| "record_all (v # vs) h = bind_r (RecordValue v h) (record_all vs)"

text \<open>The histogram of a list, written down directly.\<close>

definition in_bucket :: "nat \<Rightarrow> nat \<Rightarrow> nat \<Rightarrow> nat \<Rightarrow> bool" where
  "in_bucket hdrTill maxValue i v \<longleftrightarrow> v < maxValue \<and> bucket_of hdrTill maxValue v = i"

definition summary :: "nat \<Rightarrow> nat \<Rightarrow> nat list \<Rightarrow> THistogram" where
  "summary hdrTill maxValue vs = \<lparr> h_HdrTill = hdrTill, h_MaxValue = maxValue,
     h_Buckets = map (\<lambda>i. wrap64 (length (filter (in_bucket hdrTill maxValue i) vs))) [0..<GetTotalBuckets hdrTill maxValue],
     h_TotalCount = wrap64 (length vs), h_OverflowCount = wrap64 (length (filter (\<lambda>v. maxValue \<le> v) vs)),
     h_MaxRecordedValue = Max (insert 0 (set vs)), h_MinRecordedValue = Min (insert u64_max (set vs)), h_SumValues = wrap64 (sum_list vs) \<rparr>"

lemma wrap64_add: "wrap64 (wrap64 a + b) = wrap64 (a + b)" "wrap64 (a + wrap64 b) = wrap64 (a + b)"
  by (simp_all add: wrap64_def mod_simps)

lemma extremes_append:
  "Max (insert 0 (set (us @ vs))) = max (Max (insert 0 (set us))) (Max (insert (0 :: nat) (set vs)))"
  "Min (insert u64_max (set (us @ vs))) = min (Min (insert u64_max (set us))) (Min (insert u64_max (set vs)))"
proof -
  have e: "insert x (set (us @ vs)) = insert x (set us) \<union> insert x (set vs)" for x by auto
  show "Max (insert 0 (set (us @ vs))) = max (Max (insert 0 (set us))) (Max (insert 0 (set vs)))"
    "Min (insert u64_max (set (us @ vs))) = min (Min (insert u64_max (set us))) (Min (insert u64_max (set vs)))"
    unfolding e by (rule Max_Un Min_Un; simp)+
qed

lemma summary_append:
  "h_TotalCount (summary hdrTill maxValue (us @ vs)) = wrap64 (h_TotalCount (summary hdrTill maxValue us) + length vs)"
  "h_SumValues (summary hdrTill maxValue (us @ vs)) = wrap64 (h_SumValues (summary hdrTill maxValue us) + sum_list vs)"
  "h_OverflowCount (summary hdrTill maxValue (us @ vs)) = wrap64 (h_OverflowCount (summary hdrTill maxValue us) + length (filter (\<lambda>v. maxValue \<le> v) vs))"
  "h_MaxRecordedValue (summary hdrTill maxValue (us @ vs)) = max (h_MaxRecordedValue (summary hdrTill maxValue us)) (Max (insert 0 (set vs)))"
  "h_MinRecordedValue (summary hdrTill maxValue (us @ vs)) = min (h_MinRecordedValue (summary hdrTill maxValue us)) (Min (insert u64_max (set vs)))"
  unfolding summary_def by (simp_all only: THistogram.simps extremes_append wrap64_add length_append filter_append sum_list_append)

lemma new_histogram_summary:
  "new_histogram hdrTill maxValue = Inr h \<Longrightarrow> maxValue \<le> u64_max \<Longrightarrow> h = summary hdrTill maxValue [] \<and> hist_params hdrTill maxValue"
  by (auto simp: new_histogram_def summary_def hist_params_def wrap64_def map_replicate_trivial split: if_splits)

lemma RecordValue_summary:
  assumes p: "hist_params hdrTill maxValue" and v: "v \<le> u64_max"
  shows "RecordValue v (summary hdrTill maxValue vs) = Inr (summary hdrTill maxValue (vs @ [v]))"
proof -
  let ?s = "summary hdrTill maxValue"
  let ?i = "bucket_of hdrTill maxValue v" and ?n = "GetTotalBuckets hdrTill maxValue"
  define h1 where "h1 = ?s vs \<lparr> h_TotalCount := wrap64 (h_TotalCount (?s vs) + 1), h_MaxRecordedValue := max (h_MaxRecordedValue (?s vs)) v,
     h_MinRecordedValue := min (h_MinRecordedValue (?s vs)) v, h_SumValues := wrap64 (h_SumValues (?s vs) + v) \<rparr>"
  have x: "Max (insert 0 (set [v])) = v" "Min (insert u64_max (set [v])) = v" using v by simp_all
  have s: "?s (vs @ [v]) = h1 \<lparr> h_Buckets := h_Buckets (?s (vs @ [v])), h_OverflowCount := h_OverflowCount (?s (vs @ [v])) \<rparr>"
    using summary_append [of hdrTill maxValue vs "[v]"] unfolding h1_def x by (simp add: summary_def)
  have h1: "h_Buckets h1 = h_Buckets (?s vs)" "h_OverflowCount h1 = h_OverflowCount (?s vs)" "h_HdrTill h1 = hdrTill" "h_MaxValue h1 = maxValue"
    "h_MaxValue (?s vs) = maxValue" "length (h_Buckets (?s vs)) = ?n" by (simp_all add: h1_def summary_def)
  show ?thesis
  proof (cases "maxValue \<le> v")
    case True
    have "h_Buckets (?s (vs @ [v])) = h_Buckets h1" using True unfolding h1 by (simp add: summary_def in_bucket_def)
    moreover have "h_OverflowCount (?s (vs @ [v])) = wrap64 (h_OverflowCount h1 + 1)" unfolding h1 summary_append(3) using True by simp
    ultimately have "?s (vs @ [v]) = h1 \<lparr> h_OverflowCount := wrap64 (h_OverflowCount h1 + 1) \<rparr>" using s by simp
    with True show ?thesis unfolding RecordValue_def h1_def [symmetric] Let_def h1(5) by simp
  next
    case False
    have i: "?i < ?n" using bucket_of_less [OF p] False by simp
    have g: "GetBucketIndex h1 v = Inr ?i" using GetBucketIndex_bucket_of [of h1 v] p False h1 by simp
    have "h_Buckets (?s (vs @ [v])) = (h_Buckets h1)[?i := wrap64 (h_Buckets h1 ! ?i + 1)]"
    proof (rule nth_equalityI)
      fix j assume "j < length (h_Buckets (?s (vs @ [v])))"
      then have "j < ?n" by (simp add: summary_def)
      then show "h_Buckets (?s (vs @ [v])) ! j = (h_Buckets h1)[?i := wrap64 (h_Buckets h1 ! ?i + 1)] ! j"
        using False i unfolding h1(1) by (cases "j = ?i") (auto simp: summary_def in_bucket_def wrap64_def mod_Suc_eq)
    qed (simp add: h1 summary_def)
    moreover have "h_OverflowCount (?s (vs @ [v])) = h_OverflowCount h1" unfolding h1 summary_append(3) using False by (simp add: summary_def wrap64_def)
    ultimately have "?s (vs @ [v]) = h1 \<lparr> h_Buckets := (h_Buckets h1)[?i := wrap64 (h_Buckets h1 ! ?i + 1)] \<rparr>" using s by simp
    with False i g show ?thesis unfolding RecordValue_def h1_def [symmetric] Let_def h1(5) by (simp add: h1)
  qed
qed

lemma record_all_summary:
  "hist_params hdrTill maxValue \<Longrightarrow> \<forall>v \<in> set vs. v \<le> u64_max \<Longrightarrow> record_all vs (summary hdrTill maxValue us) = Inr (summary hdrTill maxValue (us @ vs))"
  by (induction vs arbitrary: us) (simp_all add: RecordValue_summary)

lemma new_histogram_records:
  assumes "new_histogram hdrTill maxValue = Inr h" "maxValue < 2 ^ 64" "\<forall>v \<in> set vs. v < 2 ^ 64"
  shows "record_all vs h = Inr (summary hdrTill maxValue vs)" "hist_params hdrTill maxValue"
proof -
  have "maxValue \<le> u64_max" "\<forall>v \<in> set vs. v \<le> u64_max" using assms(2,3) by (auto simp: u64_max_def Suc_le_eq less_Suc_eq_le)
  with new_histogram_summary [OF assms(1)] record_all_summary [of hdrTill maxValue vs "[]"]
  show "record_all vs h = Inr (summary hdrTill maxValue vs)" "hist_params hdrTill maxValue" by auto
qed

lemma zip_into_map: "zip_into f (map g xs) (map k xs) = map (\<lambda>x. f (g x) (k x)) xs"
  by (induction xs) simp_all

lemma sub64_cancel: "sub64 (wrap64 (a + b)) (wrap64 b) = wrap64 a"
proof -
  define c where "c = 2 ^ 64 - wrap64 b"
  have c: "wrap64 b + c = 2 ^ 64" unfolding c_def by (simp add: wrap64_def)
  have "sub64 (wrap64 (a + b)) (wrap64 b) = wrap64 (wrap64 (a + b) + c)" by (simp add: sub64_def c_def wrap64_def)
  also have "\<dots> = wrap64 (a + c + b)" unfolding wrap64_add by (simp add: ac_simps)
  also have "\<dots> = wrap64 (a + c + wrap64 b)" unfolding wrap64_add ..
  also have "a + c + wrap64 b = a + 2 ^ 64" using c by simp
  finally show ?thesis by (simp add: wrap64_def)
qed

lemma Hist_Add_summary:
  assumes "length vs < 2 ^ 64"
  shows "Hist_Add (summary hdrTill maxValue us) (summary hdrTill maxValue vs) = Inr (summary hdrTill maxValue (us @ vs))"
proof -
  let ?s = "summary hdrTill maxValue"
  have n: "h_TotalCount (?s vs) > 0 \<longleftrightarrow> vs \<noteq> []" using assms by (simp add: summary_def wrap64_id)
  have "(if h_TotalCount (?s vs) > 0 then min (h_MinRecordedValue (?s us)) (h_MinRecordedValue (?s vs)) else h_MinRecordedValue (?s us))
      = h_MinRecordedValue (?s (us @ vs))"
    unfolding n summary_append(5) by (auto simp: summary_def)
  moreover have "zip_into (\<lambda>a b. wrap64 (a + b)) (h_Buckets (?s us)) (h_Buckets (?s vs)) = h_Buckets (?s (us @ vs))"
    by (simp add: summary_def zip_into_map wrap64_add)
  moreover have "wrap64 (h_TotalCount (?s us) + h_TotalCount (?s vs)) = h_TotalCount (?s (us @ vs))"
    "wrap64 (h_OverflowCount (?s us) + h_OverflowCount (?s vs)) = h_OverflowCount (?s (us @ vs))"
    "wrap64 (h_SumValues (?s us) + h_SumValues (?s vs)) = h_SumValues (?s (us @ vs))"
    "max (h_MaxRecordedValue (?s us)) (h_MaxRecordedValue (?s vs)) = h_MaxRecordedValue (?s (us @ vs))"
    unfolding summary_append by (simp_all add: summary_def wrap64_add)
  ultimately show ?thesis unfolding Hist_Add_def by (simp add: summary_def)
qed

lemma Hist_Sub_summary:
  "Hist_Sub (summary hdrTill maxValue (us @ vs)) (summary hdrTill maxValue vs) = Inr (summary hdrTill maxValue us \<lparr>
     h_MaxRecordedValue := h_MaxRecordedValue (summary hdrTill maxValue (us @ vs)),
     h_MinRecordedValue := h_MinRecordedValue (summary hdrTill maxValue (us @ vs)) \<rparr>)"
  by (simp add: Hist_Sub_def summary_def zip_into_map sub64_cancel)

lemma Hist_Reset_summary: "Hist_Reset (summary hdrTill maxValue vs) = summary hdrTill maxValue []"
  by (simp add: Hist_Reset_def summary_def wrap64_def map_replicate_trivial)

section \<open>Ranks\<close>

lemma rank_filter:
  assumes "sorted ys" "\<And>u v. u \<le> v \<Longrightarrow> P v \<Longrightarrow> P u" "k < length ys"
  shows "Suc k \<le> length (filter P ys) \<longleftrightarrow> P (ys ! k)"
  using assms(1,3)
proof (induction ys arbitrary: k)
  case (Cons y ys)
  show ?case
  proof (cases "P y")
    case True
    with Cons show ?thesis by (cases k) simp_all
  next
    case False
    then have "\<not> P z" if "z \<in> set (y # ys)" for z using Cons.prems(1) assms(2) that by auto
    then have "filter P (y # ys) = []" "\<not> P ((y # ys) ! k)" using nth_mem [OF Cons.prems(2)] by (blast intro: filter_False)+
    then show ?thesis by simp
  qed
qed simp

lemma length_filter_sort: "length (filter P (sort xs)) = length (filter P (xs :: nat list))"
  by (metis mset_filter mset_sort size_mset)

lemma scan_buckets_first:
  assumes "c < k" "c + sum_list bs < 2 ^ 64"
  shows "case scan_buckets k i c bs of
       Inl c' \<Rightarrow> c' = c + sum_list bs \<and> c' < k
     | Inr j \<Rightarrow> i \<le> j \<and> j < i + length bs \<and> k \<le> c + sum_list (take (Suc (j - i)) bs) \<and> c + sum_list (take (j - i) bs) < k"
  using assms
proof (induction bs arbitrary: i c)
  case (Cons b bs)
  have w: "wrap64 (c + b) = c + b" using Cons.prems(2) by (intro wrap64_id) simp
  show ?case
  proof (cases "k \<le> c + b")
    case False
    have "case scan_buckets k (i + 1) (c + b) bs of
       Inl c' \<Rightarrow> c' = c + b + sum_list bs \<and> c' < k
     | Inr j \<Rightarrow> i + 1 \<le> j \<and> j < i + 1 + length bs \<and> k \<le> c + b + sum_list (take (Suc (j - (i + 1))) bs) \<and> c + b + sum_list (take (j - (i + 1)) bs) < k"
      using False Cons.prems(2) by (intro Cons.IH) simp_all
    moreover have "j - i = Suc (j - (i + 1))" if "i + 1 \<le> j" for j using that by simp
    ultimately show ?thesis using False w by (auto simp: Let_def add.assoc split: sum.splits)
  qed (use Cons.prems(1) w in simp)
qed simp

lemma prefix_counts:
  assumes p: "hist_params hdrTill maxValue" and l: "length vs < 2 ^ 64" and j: "j \<le> GetTotalBuckets hdrTill maxValue"
  shows "sum_list (take j (h_Buckets (summary hdrTill maxValue vs))) = length (filter (\<lambda>v. v < maxValue \<and> bucket_of hdrTill maxValue v < j) vs)"
  using j
proof (induction j)
  case (Suc j)
  let ?b = "h_Buckets (summary hdrTill maxValue vs)"
  have "length (filter (in_bucket hdrTill maxValue j) vs) < 2 ^ 64" using l length_filter_le [of _ vs] by (meson le_less_trans)
  then have "?b ! j = length (filter (in_bucket hdrTill maxValue j) vs)" using Suc.prems by (simp add: summary_def wrap64_id)
  moreover have "take (Suc j) ?b = take j ?b @ [?b ! j]" using Suc.prems by (intro take_Suc_conv_app_nth) (simp add: summary_def)
  moreover have "length (filter (\<lambda>v. v < maxValue \<and> bucket_of hdrTill maxValue v < Suc j) vs) =
      length (filter (\<lambda>v. v < maxValue \<and> bucket_of hdrTill maxValue v < j) vs) + length (filter (in_bucket hdrTill maxValue j) vs)"
    by (induction vs) (auto simp: in_bucket_def less_Suc_eq)
  ultimately show ?case using Suc by simp
qed simp

lemma value_at_rank:
  assumes p: "hist_params hdrTill maxValue" and m: "maxValue \<le> 2 ^ 58" and l: "length vs < 2 ^ 64" and k: "1 \<le> k" "k \<le> length vs"
  defines "v \<equiv> sort vs ! (k - 1)" and "h \<equiv> summary hdrTill maxValue vs"
  shows "GetValueAtRank k h = (if v < maxValue then GetBucketUpperBound h (bucket_of hdrTill maxValue v) else maxValue)"
proof -
  let ?n = "GetTotalBuckets hdrTill maxValue" and ?idx = "bucket_of hdrTill maxValue"
  let ?P = "\<lambda>j v. v < maxValue \<and> ?idx v < j"
  have len: "length (h_Buckets h) = ?n" by (simp add: h_def summary_def)
  have rank: "k \<le> length (filter (?P j) vs) \<longleftrightarrow> ?P j v" for j
  proof -
    have "?P j a" if "a \<le> b" "?P j b" for a b using that bucket_of_mono [OF p that(1) _ m] by auto
    from rank_filter [of "sort vs" "?P j" "k - 1", OF _ this] k show ?thesis by (simp add: length_filter_sort v_def)
  qed
  have t: "h_TotalCount h \<noteq> 0" using k l by (auto simp: h_def summary_def wrap64_id)
  have all: "length (filter (?P ?n) vs) = length (filter (\<lambda>v. v < maxValue) vs)"
    by (rule arg_cong [where f = length], rule filter_cong) (auto intro: bucket_of_less [OF p])
  have tot: "sum_list (h_Buckets h) = length (filter (\<lambda>v. v < maxValue) vs)" using prefix_counts [OF p l, of ?n] len all by (simp add: h_def)
  have "sum_list (h_Buckets h) < 2 ^ 64" unfolding tot using l length_filter_le [of _ vs] by (meson le_less_trans)
  with scan_buckets_first [of 0 k "h_Buckets h" 0] k have scan: "case scan_buckets k 0 0 (h_Buckets h) of
       Inl c' \<Rightarrow> c' = sum_list (h_Buckets h) \<and> c' < k
     | Inr j \<Rightarrow> j < ?n \<and> k \<le> sum_list (take (Suc j) (h_Buckets h)) \<and> sum_list (take j (h_Buckets h)) < k" by (simp add: len split: sum.splits)
  show ?thesis
  proof (cases "scan_buckets k 0 0 (h_Buckets h)")
    case (Inr j)
    with scan have "j < ?n" "k \<le> length (filter (?P (Suc j)) vs)" "\<not> k \<le> length (filter (?P j) vs)"
      using prefix_counts [OF p l, of j] prefix_counts [OF p l, of "Suc j"] by (simp_all add: h_def)
    then have "v < maxValue" "?idx v = j" unfolding rank by auto
    with Inr t show ?thesis by (simp add: GetValueAtRank_def)
  next
    case (Inl c)
    with scan have c: "c = length (filter (\<lambda>v. v < maxValue) vs)" "c < k" by (simp_all add: tot)
    then have "\<not> ?P ?n v" unfolding rank [symmetric] all by simp
    then have v: "\<not> v < maxValue" using bucket_of_less [OF p] by blast
    have o: "length (filter (\<lambda>v. maxValue \<le> v) vs) + c = length vs" unfolding c(1) by (induction vs) auto
    then have "h_OverflowCount h = length vs - c" using l by (simp add: h_def summary_def wrap64_id)
    moreover have "c \<le> length vs" using o by simp
    ultimately have "h_OverflowCount h > 0 \<and> wrap64 (c + h_OverflowCount h) \<ge> k" using c(2) k l by (simp add: wrap64_id)
    with Inl t v show ?thesis by (simp add: GetValueAtRank_def h_def summary_def)
  qed
qed

text \<open>C12: on a new histogram, any sequence of 64-bit values can be recorded, and the value reported for rank \<open>k\<close> is that of the
  \<open>k\<close>-th smallest recorded value with an error of at most one 64th, or of one unit for small values, always upwards. When the
  \<open>k\<close>-th smallest value is censored the maximum of the histogram is reported.\<close>

theorem histogram_rank_error:
  assumes "new_histogram hdrTill maxValue = Inr h0" "maxValue \<le> 2 ^ 58" "\<forall>v \<in> set vs. v < 2 ^ 64" "length vs < 2 ^ 64"
  shows "\<exists>h. record_all vs h0 = Inr h \<and>
     (\<forall>k. 1 \<le> k \<and> k \<le> length vs \<longrightarrow>
        (let v = sort vs ! (k - 1); r = GetValueAtRank k h in
         if v < maxValue then v \<le> r \<and> r \<le> v + max 1 (v div 64) \<and> r \<le> maxValue else r = maxValue))"
proof -
  have "maxValue < 2 ^ 64" using assms(2) by simp
  note r = new_histogram_records(1) [OF assms(1) this assms(3)] and p = new_histogram_records(2) [OF assms(1) this assms(3)]
  let ?s = "summary hdrTill maxValue vs"
  have hm: "h_HdrTill ?s = hdrTill" "h_MaxValue ?s = maxValue" by (simp_all add: summary_def)
  have "let v = sort vs ! (k - 1); r = GetValueAtRank k ?s in
      if v < maxValue then v \<le> r \<and> r \<le> v + max 1 (v div 64) \<and> r \<le> maxValue else r = maxValue" if "1 \<le> k" "k \<le> length vs" for k
    using value_at_rank [OF p assms(2,4) that] GetBucketUpperBound_bounds [of ?s "sort vs ! (k - 1)", unfolded hm, OF p _ assms(2)]
    unfolding Let_def by simp
  with r show ?thesis by blast
qed

lemma histogram_rank_error_witness:
  "\<exists>h0 h. new_histogram 4 100 = Inr h0 \<and> record_all [70, 3, 200, 9] h0 = Inr h \<and> 70 \<le> GetValueAtRank 3 h \<and> GetValueAtRank 3 h \<le> 71 \<and>
     GetValueAtRank 4 h = 100"
proof -
  let ?h0 = "projr (new_histogram 4 100)" and ?vs = "[70, 3, 200, 9] :: nat list"
  have h0: "new_histogram 4 100 = Inr ?h0" by (simp add: new_histogram_def)
  have "(100 :: nat) \<le> 2 ^ 58" "\<forall>v \<in> set ?vs. v < 2 ^ 64" "length ?vs < 2 ^ 64" by simp_all
  from histogram_rank_error [OF h0 this] obtain h where r: "record_all ?vs ?h0 = Inr h"
    and k: "\<And>k. 1 \<le> k \<and> k \<le> length ?vs \<Longrightarrow> (let v = sort ?vs ! (k - 1); r = GetValueAtRank k h in
         if v < 100 then v \<le> r \<and> r \<le> v + max 1 (v div 64) \<and> r \<le> 100 else r = 100)" by blast
  from k [of 3] k [of 4] h0 r show ?thesis by (intro exI [of _ ?h0] exI [of _ h]) (simp add: Let_def)
qed

text \<open>C16: merging the histograms of two runs gives the histogram of all their values, and subtracting one of them again leaves
  the counts, the overflow and the sum of the other; only the extreme values stay those of the merge.\<close>

theorem histogram_merge:
  assumes "new_histogram hdrTill maxValue = Inr h0" "maxValue < 2 ^ 64" "\<forall>v \<in> set us. v < 2 ^ 64" "\<forall>v \<in> set vs. v < 2 ^ 64" "length vs < 2 ^ 64"
  shows "\<exists>h1 h2 h3. record_all us h0 = Inr h1 \<and> record_all vs h0 = Inr h2 \<and> record_all (us @ vs) h0 = Inr h3 \<and>
     Hist_Add h1 h2 = Inr h3 \<and>
     Hist_Sub h3 h2 = Inr (h1 \<lparr> h_MaxRecordedValue := h_MaxRecordedValue h3, h_MinRecordedValue := h_MinRecordedValue h3 \<rparr>)"
proof -
  note r = new_histogram_records(1) [OF assms(1,2)]
  have "\<forall>v \<in> set (us @ vs). v < 2 ^ 64" using assms(3,4) by auto
  from r [OF assms(3)] r [OF assms(4)] r [OF this] Hist_Add_summary [OF assms(5)] Hist_Sub_summary show ?thesis by blast
qed

lemma histogram_merge_witness:
  "\<exists>h0 h1 h2 h3. new_histogram 4 100 = Inr h0 \<and> record_all [70, 3] h0 = Inr h1 \<and> record_all [200, 9] h0 = Inr h2 \<and>
     record_all [70, 3, 200, 9] h0 = Inr h3 \<and> Hist_Add h1 h2 = Inr h3 \<and>
     Hist_Sub h3 h2 = Inr (h1 \<lparr> h_MaxRecordedValue := h_MaxRecordedValue h3, h_MinRecordedValue := h_MinRecordedValue h3 \<rparr>)"
proof -
  let ?h0 = "projr (new_histogram 4 100)"
  have h0: "new_histogram 4 100 = Inr ?h0" by (simp add: new_histogram_def)
  from histogram_merge [OF h0, of "[70, 3]" "[200, 9]"] h0 show ?thesis by simp blast
qed

end
