(* ===== verification/Terminal_Stats.thy ===== *)
theory Terminal_Stats
  imports Domain Histogram
begin

text \<open>
  \<^verbatim>\<open>TTerminalStats\<close> of \<^verbatim>\<open>tpcc/harness/terminal.h\<close>: the counters and latency histograms of every transaction
  type, measured and for the progress line, and how the statistics of several threads are collected. The
  counters are 64-bit and wrap; the spin lock that guards the histograms is left out, each operation is
  one step. An operation that a histogram refuses returns its exception.
\<close>

section \<open>State\<close>

record TLatencySample =
  ls_Transaction :: int
  ls_Full :: int
  ls_Pure :: int
  ls_AdmissionWait :: int
  ls_SessionPoolWait :: int
  ls_RetryBackoff :: int

record TTransactionStats =
  st_OK :: nat
  st_Failed :: nat
  st_UserAborted :: nat
  st_Retried :: nat
  st_ProgressOK :: nat
  st_ProgressFailed :: nat
  st_ProgressUserAborted :: nat
  st_LatencyHistogramMs :: THistogram
  st_LatencyHistogramFullMs :: THistogram
  st_LatencyHistogramPure :: THistogram
  st_LatencyHistogramAdmission :: THistogram
  st_LatencyHistogramSessionPool :: THistogram
  st_LatencyHistogramRetryBackoff :: THistogram
  st_ProgressLatencyFullMs :: THistogram

record TTerminalStats =
  ts_PerTransactionTypeStats :: "TTransactionStats list"
  ts_ProgressClearedForMeasure :: bool
  ts_RecordMicroseconds :: bool
  ts_HdrTill :: nat
  ts_MaxValue :: nat

section \<open>One transaction type\<close>

definition new_tx_stats :: "nat \<Rightarrow> nat \<Rightarrow> TTransactionStats result" where
  "new_tx_stats hdrTill maxValue =
     map_r (\<lambda>h. \<lparr> st_OK = 0, st_Failed = 0, st_UserAborted = 0, st_Retried = 0,
       st_ProgressOK = 0, st_ProgressFailed = 0, st_ProgressUserAborted = 0,
       st_LatencyHistogramMs = h, st_LatencyHistogramFullMs = h, st_LatencyHistogramPure = h, st_LatencyHistogramAdmission = h,
       st_LatencyHistogramSessionPool = h, st_LatencyHistogramRetryBackoff = h, st_ProgressLatencyFullMs = h \<rparr>)
     (new_histogram hdrTill maxValue)"

definition ResetHistograms :: "nat \<Rightarrow> nat \<Rightarrow> TTransactionStats \<Rightarrow> TTransactionStats result" where
  "ResetHistograms hdrTill maxValue s =
     map_r (\<lambda>h. s \<lparr> st_LatencyHistogramMs := h, st_LatencyHistogramFullMs := h, st_LatencyHistogramPure := h,
       st_LatencyHistogramAdmission := h, st_LatencyHistogramSessionPool := h, st_LatencyHistogramRetryBackoff := h,
       st_ProgressLatencyFullMs := h \<rparr>)
     (new_histogram hdrTill maxValue)"

definition tx_Collect :: "TTransactionStats \<Rightarrow> TTransactionStats \<Rightarrow> TTransactionStats result" where
  "tx_Collect src dst =
     (let d = dst \<lparr> st_OK := wrap64 (st_OK dst + st_OK src), st_Failed := wrap64 (st_Failed dst + st_Failed src),
            st_UserAborted := wrap64 (st_UserAborted dst + st_UserAborted src), st_Retried := wrap64 (st_Retried dst + st_Retried src) \<rparr> in
      bind_r (Hist_Add (st_LatencyHistogramMs d) (st_LatencyHistogramMs src)) (\<lambda>h1.
      bind_r (Hist_Add (st_LatencyHistogramFullMs d) (st_LatencyHistogramFullMs src)) (\<lambda>h2.
      bind_r (Hist_Add (st_LatencyHistogramPure d) (st_LatencyHistogramPure src)) (\<lambda>h3.
      bind_r (Hist_Add (st_LatencyHistogramAdmission d) (st_LatencyHistogramAdmission src)) (\<lambda>h4.
      bind_r (Hist_Add (st_LatencyHistogramSessionPool d) (st_LatencyHistogramSessionPool src)) (\<lambda>h5.
      map_r (\<lambda>h6. d \<lparr> st_LatencyHistogramMs := h1, st_LatencyHistogramFullMs := h2, st_LatencyHistogramPure := h3,
               st_LatencyHistogramAdmission := h4, st_LatencyHistogramSessionPool := h5, st_LatencyHistogramRetryBackoff := h6 \<rparr>)
        (Hist_Add (st_LatencyHistogramRetryBackoff d) (st_LatencyHistogramRetryBackoff src))))))))"

definition tx_ClearProgress :: "TTransactionStats \<Rightarrow> TTransactionStats" where
  "tx_ClearProgress s = s \<lparr> st_ProgressOK := 0, st_ProgressFailed := 0, st_ProgressUserAborted := 0,
     st_ProgressLatencyFullMs := Hist_Reset (st_ProgressLatencyFullMs s) \<rparr>"

definition tx_Clear :: "TTransactionStats \<Rightarrow> TTransactionStats" where
  "tx_Clear s =
     (let c = tx_ClearProgress (s \<lparr> st_OK := 0, st_Failed := 0, st_UserAborted := 0, st_Retried := 0 \<rparr>) in
      c \<lparr> st_LatencyHistogramMs := Hist_Reset (st_LatencyHistogramMs c), st_LatencyHistogramFullMs := Hist_Reset (st_LatencyHistogramFullMs c),
          st_LatencyHistogramPure := Hist_Reset (st_LatencyHistogramPure c), st_LatencyHistogramAdmission := Hist_Reset (st_LatencyHistogramAdmission c),
          st_LatencyHistogramSessionPool := Hist_Reset (st_LatencyHistogramSessionPool c),
          st_LatencyHistogramRetryBackoff := Hist_Reset (st_LatencyHistogramRetryBackoff c) \<rparr>)"

section \<open>All transaction types\<close>

definition new_terminal_stats :: "nat \<Rightarrow> nat \<Rightarrow> bool \<Rightarrow> TTerminalStats result" where
  "new_terminal_stats hdrTill maxValue recordMicroseconds =
     bind_r (new_tx_stats 4096 32768) (\<lambda>d.
     map_r (\<lambda>s. \<lparr> ts_PerTransactionTypeStats = replicate TRANSACTION_TYPE_COUNT s, ts_ProgressClearedForMeasure = False,
                  ts_RecordMicroseconds = recordMicroseconds, ts_HdrTill = hdrTill, ts_MaxValue = maxValue \<rparr>)
       (ResetHistograms hdrTill maxValue d))"

definition GetStats :: "ETransactionType \<Rightarrow> TTerminalStats \<Rightarrow> TTransactionStats" where
  "GetStats type s = ts_PerTransactionTypeStats s ! tx_index type"

definition ToRecorded :: "bool \<Rightarrow> int \<Rightarrow> nat" where
  "ToRecorded recordMicroseconds value =
     (let n = (if value < 0 then 0 else value) in if recordMicroseconds then nat n else nat (n div 1000))"

definition RecordProgressLatency :: "bool \<Rightarrow> int \<Rightarrow> TTransactionStats \<Rightarrow> TTransactionStats result" where
  "RecordProgressLatency micro full s =
     map_r (\<lambda>h. s \<lparr> st_ProgressLatencyFullMs := h \<rparr>) (RecordValue (ToRecorded micro full) (st_ProgressLatencyFullMs s))"

definition RecordLatency :: "bool \<Rightarrow> TLatencySample \<Rightarrow> TTransactionStats \<Rightarrow> TTransactionStats result" where
  "RecordLatency micro sample s =
     bind_r (RecordValue (ToRecorded micro (ls_Transaction sample)) (st_LatencyHistogramMs s)) (\<lambda>h1.
     bind_r (RecordValue (ToRecorded micro (ls_Full sample)) (st_LatencyHistogramFullMs s)) (\<lambda>h2.
     bind_r (RecordValue (ToRecorded micro (ls_Pure sample)) (st_LatencyHistogramPure s)) (\<lambda>h3.
     bind_r (RecordValue (ToRecorded micro (ls_AdmissionWait sample)) (st_LatencyHistogramAdmission s)) (\<lambda>h4.
     bind_r (RecordValue (ToRecorded micro (ls_SessionPoolWait sample)) (st_LatencyHistogramSessionPool s)) (\<lambda>h5.
     map_r (\<lambda>h6. s \<lparr> st_LatencyHistogramMs := h1, st_LatencyHistogramFullMs := h2, st_LatencyHistogramPure := h3,
               st_LatencyHistogramAdmission := h4, st_LatencyHistogramSessionPool := h5, st_LatencyHistogramRetryBackoff := h6 \<rparr>)
       (RecordValue (ToRecorded micro (ls_RetryBackoff sample)) (st_LatencyHistogramRetryBackoff s)))))))"

text \<open>The operations change the entry of their type.\<close>

definition at_type :: "ETransactionType \<Rightarrow> (TTransactionStats \<Rightarrow> TTransactionStats result) \<Rightarrow> TTerminalStats \<Rightarrow> TTerminalStats result" where
  "at_type type f s =
     map_r (\<lambda>x. s \<lparr> ts_PerTransactionTypeStats := (ts_PerTransactionTypeStats s)[tx_index type := x] \<rparr>) (f (GetStats type s))"

definition AddOK :: "ETransactionType \<Rightarrow> TLatencySample \<Rightarrow> TTerminalStats \<Rightarrow> TTerminalStats result" where
  "AddOK type sample s =
     at_type type (\<lambda>t. RecordLatency (ts_RecordMicroseconds s) sample (t \<lparr> st_OK := wrap64 (st_OK t + 1) \<rparr>)) s"

definition IncFailed :: "ETransactionType \<Rightarrow> TTerminalStats \<Rightarrow> TTerminalStats result" where
  "IncFailed type s = at_type type (\<lambda>t. Inr (t \<lparr> st_Failed := wrap64 (st_Failed t + 1) \<rparr>)) s"

definition AddUserAborted :: "ETransactionType \<Rightarrow> TLatencySample \<Rightarrow> TTerminalStats \<Rightarrow> TTerminalStats result" where
  "AddUserAborted type sample s =
     at_type type (\<lambda>t. RecordLatency (ts_RecordMicroseconds s) sample (t \<lparr> st_UserAborted := wrap64 (st_UserAborted t + 1) \<rparr>)) s"

definition IncRetried :: "ETransactionType \<Rightarrow> TTerminalStats \<Rightarrow> TTerminalStats result" where
  "IncRetried type s = at_type type (\<lambda>t. Inr (t \<lparr> st_Retried := wrap64 (st_Retried t + 1) \<rparr>)) s"

definition AddProgressOK :: "ETransactionType \<Rightarrow> int \<Rightarrow> TTerminalStats \<Rightarrow> TTerminalStats result" where
  "AddProgressOK type fullLatency s =
     at_type type (\<lambda>t. RecordProgressLatency (ts_RecordMicroseconds s) fullLatency (t \<lparr> st_ProgressOK := wrap64 (st_ProgressOK t + 1) \<rparr>)) s"

definition IncProgressFailed :: "ETransactionType \<Rightarrow> TTerminalStats \<Rightarrow> TTerminalStats result" where
  "IncProgressFailed type s = at_type type (\<lambda>t. Inr (t \<lparr> st_ProgressFailed := wrap64 (st_ProgressFailed t + 1) \<rparr>)) s"

definition AddProgressUserAborted :: "ETransactionType \<Rightarrow> int \<Rightarrow> TTerminalStats \<Rightarrow> TTerminalStats result" where
  "AddProgressUserAborted type fullLatency s =
     at_type type (\<lambda>t. RecordProgressLatency (ts_RecordMicroseconds s) fullLatency
       (t \<lparr> st_ProgressUserAborted := wrap64 (st_ProgressUserAborted t + 1) \<rparr>)) s"

fun collect_lists :: "(TTransactionStats \<Rightarrow> TTransactionStats \<Rightarrow> TTransactionStats result) \<Rightarrow> TTransactionStats list \<Rightarrow>
    TTransactionStats list \<Rightarrow> TTransactionStats list result" where
  "collect_lists f (x # xs) (y # ys) = bind_r (f x y) (\<lambda>z. map_r (Cons z) (collect_lists f xs ys))"
| "collect_lists f xs ys = Inr ys"

definition Stats_Collect :: "TTerminalStats \<Rightarrow> TTerminalStats \<Rightarrow> TTerminalStats result" where
  "Stats_Collect src dst =
     map_r (\<lambda>xs. dst \<lparr> ts_PerTransactionTypeStats := xs \<rparr>)
       (collect_lists tx_Collect (ts_PerTransactionTypeStats src) (ts_PerTransactionTypeStats dst))"

definition CollectProgressLatency :: "TTerminalStats \<Rightarrow> TTerminalStats \<Rightarrow> TTerminalStats result" where
  "CollectProgressLatency src dst =
     map_r (\<lambda>xs. dst \<lparr> ts_PerTransactionTypeStats := xs \<rparr>)
       (collect_lists (\<lambda>x y. map_r (\<lambda>h. y \<lparr> st_ProgressLatencyFullMs := h \<rparr>) (Hist_Add (st_ProgressLatencyFullMs y) (st_ProgressLatencyFullMs x)))
          (ts_PerTransactionTypeStats src) (ts_PerTransactionTypeStats dst))"

definition Stats_Clear :: "TTerminalStats \<Rightarrow> TTerminalStats" where
  "Stats_Clear s = s \<lparr> ts_PerTransactionTypeStats := map tx_Clear (ts_PerTransactionTypeStats s), ts_ProgressClearedForMeasure := False \<rparr>"

definition ClearProgressOnce :: "TTerminalStats \<Rightarrow> bool \<times> TTerminalStats" where
  "ClearProgressOnce s =
     (if \<not> ts_ProgressClearedForMeasure s
      then (True, s \<lparr> ts_ProgressClearedForMeasure := True, ts_PerTransactionTypeStats := map tx_ClearProgress (ts_PerTransactionTypeStats s) \<rparr>)
      else (False, s))"

section \<open>The statistics of a sequence of calls\<close>

datatype stat_call =
    CAddOK ETransactionType TLatencySample
  | CIncFailed ETransactionType
  | CAddUserAborted ETransactionType TLatencySample
  | CIncRetried ETransactionType
  | CAddProgressOK ETransactionType int
  | CIncProgressFailed ETransactionType
  | CAddProgressUserAborted ETransactionType int

fun apply_call :: "stat_call \<Rightarrow> TTerminalStats \<Rightarrow> TTerminalStats result" where
  "apply_call (CAddOK t s) = AddOK t s"
| "apply_call (CIncFailed t) = IncFailed t"
| "apply_call (CAddUserAborted t s) = AddUserAborted t s"
| "apply_call (CIncRetried t) = IncRetried t"
| "apply_call (CAddProgressOK t d) = AddProgressOK t d"
| "apply_call (CIncProgressFailed t) = IncProgressFailed t"
| "apply_call (CAddProgressUserAborted t d) = AddProgressUserAborted t d"

fun apply_calls :: "stat_call list \<Rightarrow> TTerminalStats \<Rightarrow> TTerminalStats result" where
  "apply_calls [] s = Inr s"
| "apply_calls (c # cs) s = bind_r (apply_call c s) (apply_calls cs)"

text \<open>The samples, progress latencies and counters of one type, written down directly.\<close>

fun samples :: "ETransactionType \<Rightarrow> stat_call list \<Rightarrow> TLatencySample list" where
  "samples t [] = []"
| "samples t (CAddOK u s # cs) = (if u = t then s # samples t cs else samples t cs)"
| "samples t (CAddUserAborted u s # cs) = (if u = t then s # samples t cs else samples t cs)"
| "samples t (c # cs) = samples t cs"

fun fulls :: "ETransactionType \<Rightarrow> stat_call list \<Rightarrow> int list" where
  "fulls t [] = []"
| "fulls t (CAddProgressOK u d # cs) = (if u = t then d # fulls t cs else fulls t cs)"
| "fulls t (CAddProgressUserAborted u d # cs) = (if u = t then d # fulls t cs else fulls t cs)"
| "fulls t (c # cs) = fulls t cs"

definition counted :: "(stat_call \<Rightarrow> bool) \<Rightarrow> stat_call list \<Rightarrow> nat" where
  "counted P cs = wrap64 (length (filter P cs))"

fun is_ok :: "ETransactionType \<Rightarrow> stat_call \<Rightarrow> bool" where
  "is_ok t (CAddOK u s) \<longleftrightarrow> u = t" | "is_ok t c \<longleftrightarrow> False"

fun is_aborted :: "ETransactionType \<Rightarrow> stat_call \<Rightarrow> bool" where
  "is_aborted t (CAddUserAborted u s) \<longleftrightarrow> u = t" | "is_aborted t c \<longleftrightarrow> False"

fun is_progress_ok :: "ETransactionType \<Rightarrow> stat_call \<Rightarrow> bool" where
  "is_progress_ok t (CAddProgressOK u d) \<longleftrightarrow> u = t" | "is_progress_ok t c \<longleftrightarrow> False"

fun is_progress_aborted :: "ETransactionType \<Rightarrow> stat_call \<Rightarrow> bool" where
  "is_progress_aborted t (CAddProgressUserAborted u d) \<longleftrightarrow> u = t" | "is_progress_aborted t c \<longleftrightarrow> False"

definition tx_stats_of :: "nat \<Rightarrow> nat \<Rightarrow> bool \<Rightarrow> stat_call list \<Rightarrow> ETransactionType \<Rightarrow> TTransactionStats" where
  "tx_stats_of hdrTill maxValue micro cs t =
     (let H = (\<lambda>f. summary hdrTill maxValue (map (\<lambda>s. ToRecorded micro (f s)) (samples t cs))) in
      \<lparr> st_OK = counted (is_ok t) cs, st_Failed = counted (\<lambda>c. c = CIncFailed t) cs, st_UserAborted = counted (is_aborted t) cs,
        st_Retried = counted (\<lambda>c. c = CIncRetried t) cs, st_ProgressOK = counted (is_progress_ok t) cs,
        st_ProgressFailed = counted (\<lambda>c. c = CIncProgressFailed t) cs, st_ProgressUserAborted = counted (is_progress_aborted t) cs,
        st_LatencyHistogramMs = H ls_Transaction, st_LatencyHistogramFullMs = H ls_Full, st_LatencyHistogramPure = H ls_Pure,
        st_LatencyHistogramAdmission = H ls_AdmissionWait, st_LatencyHistogramSessionPool = H ls_SessionPoolWait,
        st_LatencyHistogramRetryBackoff = H ls_RetryBackoff,
        st_ProgressLatencyFullMs = summary hdrTill maxValue (map (ToRecorded micro) (fulls t cs)) \<rparr>)"

definition tx_types :: "ETransactionType list" where
  "tx_types = [NewOrder, Delivery, OrderStatus, Payment, StockLevel]"

definition stats_of :: "nat \<Rightarrow> nat \<Rightarrow> bool \<Rightarrow> stat_call list \<Rightarrow> TTerminalStats" where
  "stats_of hdrTill maxValue micro cs =
     \<lparr> ts_PerTransactionTypeStats = map (tx_stats_of hdrTill maxValue micro cs) tx_types, ts_ProgressClearedForMeasure = False,
       ts_RecordMicroseconds = micro, ts_HdrTill = hdrTill, ts_MaxValue = maxValue \<rparr>"

fun call_type :: "stat_call \<Rightarrow> ETransactionType" where
  "call_type (CAddOK t s) = t"
| "call_type (CIncFailed t) = t"
| "call_type (CAddUserAborted t s) = t"
| "call_type (CIncRetried t) = t"
| "call_type (CAddProgressOK t d) = t"
| "call_type (CIncProgressFailed t) = t"
| "call_type (CAddProgressUserAborted t d) = t"

text \<open>Durations are 64-bit.\<close>

definition sample_ok :: "TLatencySample \<Rightarrow> bool" where
  "sample_ok s \<longleftrightarrow> in_i64 (ls_Transaction s) \<and> in_i64 (ls_Full s) \<and> in_i64 (ls_Pure s) \<and> in_i64 (ls_AdmissionWait s) \<and>
     in_i64 (ls_SessionPoolWait s) \<and> in_i64 (ls_RetryBackoff s)"

fun call_ok :: "stat_call \<Rightarrow> bool" where
  "call_ok (CAddOK t s) \<longleftrightarrow> sample_ok s"
| "call_ok (CAddUserAborted t s) \<longleftrightarrow> sample_ok s"
| "call_ok (CAddProgressOK t d) \<longleftrightarrow> in_i64 d"
| "call_ok (CAddProgressUserAborted t d) \<longleftrightarrow> in_i64 d"
| "call_ok c \<longleftrightarrow> True"

lemma ToRecorded_le: "in_i64 d \<Longrightarrow> ToRecorded micro d \<le> u64_max"
proof -
  assume "in_i64 d"
  then have "ToRecorded micro d < 2 ^ 63" unfolding ToRecorded_def Let_def in_i64_def by (auto simp: nat_less_iff)
  then show ?thesis by (simp add: u64_max_def)
qed

lemma samples_append: "samples t (cs @ ds) = samples t cs @ samples t ds"
  by (induction t cs rule: samples.induct) auto

lemma fulls_append: "fulls t (cs @ ds) = fulls t cs @ fulls t ds"
  by (induction t cs rule: fulls.induct) auto

lemma counted_append: "counted P (cs @ ds) = wrap64 (counted P cs + counted P ds)"
  by (simp add: counted_def wrap64_add)

lemma counted_one: "counted P [c] = (if P c then 1 else 0)"
  by (simp add: counted_def wrap64_def)

lemma counted_wrap: "wrap64 (counted P cs) = counted P cs" "wrap64 (counted P cs + 0) = counted P cs"
  by (simp_all add: counted_def wrap64_def)

lemmas stats_append = tx_stats_of_def Let_def samples_append fulls_append counted_append counted_one counted_wrap

lemma RecordLatency_stats:
  assumes p: "hist_params hdrTill maxValue" and s: "sample_ok s"
    and c: "c = CAddOK t s \<or> c = CAddUserAborted t s"
  shows "RecordLatency micro s ((tx_stats_of hdrTill maxValue micro cs t) \<lparr> st_OK := st_OK (tx_stats_of hdrTill maxValue micro (cs @ [c]) t),
      st_UserAborted := st_UserAborted (tx_stats_of hdrTill maxValue micro (cs @ [c]) t) \<rparr>) = Inr (tx_stats_of hdrTill maxValue micro (cs @ [c]) t)"
proof -
  have "RecordValue (ToRecorded micro d) (summary hdrTill maxValue vs) = Inr (summary hdrTill maxValue (vs @ [ToRecorded micro d]))"
    if "in_i64 d" for d vs using that by (intro RecordValue_summary [OF p] ToRecorded_le)
  with s c show ?thesis by (auto simp: RecordLatency_def sample_ok_def stats_append)
qed

lemma at_type_stats:
  assumes "f (tx_stats_of hdrTill maxValue micro cs (call_type c)) = Inr (tx_stats_of hdrTill maxValue micro (cs @ [c]) (call_type c))"
  shows "at_type (call_type c) f (stats_of hdrTill maxValue micro cs) = Inr (stats_of hdrTill maxValue micro (cs @ [c]))"
proof -
  have o: "tx_stats_of hdrTill maxValue micro (cs @ [c]) u = tx_stats_of hdrTill maxValue micro cs u" if "u \<noteq> call_type c" for u
    using that by (cases c) (auto simp: stats_append)
  have g: "GetStats t (stats_of hdrTill maxValue micro cs) = tx_stats_of hdrTill maxValue micro cs t" for t
    by (cases t) (simp_all add: GetStats_def stats_of_def tx_types_def)
  have "(map (tx_stats_of hdrTill maxValue micro cs) tx_types)[tx_index (call_type c) := tx_stats_of hdrTill maxValue micro (cs @ [c]) (call_type c)]
      = map (tx_stats_of hdrTill maxValue micro (cs @ [c])) tx_types"
    by (cases "call_type c") (simp_all add: tx_types_def o)
  with assms show ?thesis by (simp add: at_type_def g) (simp add: stats_of_def)
qed

lemma apply_call_stats:
  assumes p: "hist_params hdrTill maxValue" and c: "call_ok c"
  shows "apply_call c (stats_of hdrTill maxValue micro cs) = Inr (stats_of hdrTill maxValue micro (cs @ [c]))"
proof -
  let ?S = "tx_stats_of hdrTill maxValue micro"
  have m: "ts_RecordMicroseconds (stats_of hdrTill maxValue micro cs) = micro" by (simp add: stats_of_def)
  have pr: "RecordValue (ToRecorded micro d) (summary hdrTill maxValue vs) = Inr (summary hdrTill maxValue (vs @ [ToRecorded micro d]))"
    if "in_i64 d" for d vs using that by (intro RecordValue_summary [OF p] ToRecorded_le)
  show ?thesis
  proof (cases c)
    case (CAddOK t s)
    have e: "(?S cs t) \<lparr> st_OK := wrap64 (st_OK (?S cs t) + 1) \<rparr> = (?S cs t) \<lparr> st_OK := st_OK (?S (cs @ [c]) t), st_UserAborted := st_UserAborted (?S (cs @ [c]) t) \<rparr>"
      by (simp add: CAddOK stats_append)
    show ?thesis using at_type_stats [where c = c] RecordLatency_stats [OF p, of s c t micro cs] c CAddOK e by (simp add: AddOK_def m)
  next
    case (CAddUserAborted t s)
    have e: "(?S cs t) \<lparr> st_UserAborted := wrap64 (st_UserAborted (?S cs t) + 1) \<rparr> = (?S cs t) \<lparr> st_OK := st_OK (?S (cs @ [c]) t), st_UserAborted := st_UserAborted (?S (cs @ [c]) t) \<rparr>"
      by (simp add: CAddUserAborted stats_append)
    show ?thesis using at_type_stats [where c = c] RecordLatency_stats [OF p, of s c t micro cs] c CAddUserAborted e by (simp add: AddUserAborted_def m)
  qed (use at_type_stats [where c = c] c pr in \<open>simp_all add: IncFailed_def IncRetried_def AddProgressOK_def IncProgressFailed_def
      AddProgressUserAborted_def RecordProgressLatency_def m stats_append\<close>)
qed

lemma apply_calls_stats:
  "hist_params hdrTill maxValue \<Longrightarrow> \<forall>c \<in> set ds. call_ok c \<Longrightarrow>
     apply_calls ds (stats_of hdrTill maxValue micro cs) = Inr (stats_of hdrTill maxValue micro (cs @ ds))"
  by (induction ds arbitrary: cs) (simp_all add: apply_call_stats)

lemma five_types: "replicate TRANSACTION_TYPE_COUNT x = [x, x, x, x, x]"
  by (simp add: TRANSACTION_TYPE_COUNT_def numeral_eq_Suc)

lemma new_terminal_stats_of:
  assumes new: "new_terminal_stats hdrTill maxValue micro = Inr s" and m: "maxValue < 2 ^ 64"
  shows "s = stats_of hdrTill maxValue micro []" "hist_params hdrTill maxValue"
proof -
  obtain d where d: "new_tx_stats 4096 32768 = Inr d" "st_OK d = 0" "st_Failed d = 0" "st_UserAborted d = 0" "st_Retried d = 0"
    "st_ProgressOK d = 0" "st_ProgressFailed d = 0" "st_ProgressUserAborted d = 0" by (simp add: new_tx_stats_def new_histogram_def)
  obtain h where h: "new_histogram hdrTill maxValue = Inr h"
    using new by (cases "new_histogram hdrTill maxValue") (simp_all add: new_terminal_stats_def ResetHistograms_def d)
  from new_histogram_summary [OF h] m have s: "h = summary hdrTill maxValue []" and p: "hist_params hdrTill maxValue" by (auto simp: u64_max_def)
  from p show "hist_params hdrTill maxValue" .
  have c: "counted P [] = 0" for P by (simp add: counted_def wrap64_def)
  show "s = stats_of hdrTill maxValue micro []"
    using new unfolding new_terminal_stats_def ResetHistograms_def h d(1) s by (auto simp: stats_of_def tx_stats_of_def tx_types_def five_types c d(2-))
qed

section \<open>Collecting the statistics of several threads\<close>

fun is_measured :: "stat_call \<Rightarrow> bool" where
  "is_measured (CAddProgressOK t d) \<longleftrightarrow> False"
| "is_measured (CIncProgressFailed t) \<longleftrightarrow> False"
| "is_measured (CAddProgressUserAborted t d) \<longleftrightarrow> False"
| "is_measured c \<longleftrightarrow> True"

lemma samples_measured: "samples t (filter is_measured cs) = samples t cs"
  by (induction t cs rule: samples.induct) auto

lemma fulls_measured: "fulls t (filter is_measured cs) = []"
  by (induction t cs rule: fulls.induct) auto

lemma counted_measured:
  "counted (is_ok t) (filter is_measured cs) = counted (is_ok t) cs"
  "counted (is_aborted t) (filter is_measured cs) = counted (is_aborted t) cs"
  "counted (\<lambda>c. c = CIncFailed t) (filter is_measured cs) = counted (\<lambda>c. c = CIncFailed t) cs"
  "counted (\<lambda>c. c = CIncRetried t) (filter is_measured cs) = counted (\<lambda>c. c = CIncRetried t) cs"
  "counted (is_progress_ok t) (filter is_measured cs) = 0" "counted (is_progress_aborted t) (filter is_measured cs) = 0"
  "counted (\<lambda>c. c = CIncProgressFailed t) (filter is_measured cs) = 0"
proof -
  have "P c \<and> is_measured c \<longleftrightarrow> P c" if "\<And>c. P c \<Longrightarrow> is_measured c" for P c using that by blast
  then show "counted (is_ok t) (filter is_measured cs) = counted (is_ok t) cs"
    "counted (is_aborted t) (filter is_measured cs) = counted (is_aborted t) cs"
    "counted (\<lambda>c. c = CIncFailed t) (filter is_measured cs) = counted (\<lambda>c. c = CIncFailed t) cs"
    "counted (\<lambda>c. c = CIncRetried t) (filter is_measured cs) = counted (\<lambda>c. c = CIncRetried t) cs"
    unfolding counted_def filter_filter by (auto intro!: arg_cong [where f = "\<lambda>xs. wrap64 (length xs)"] filter_cong elim: is_ok.elims is_aborted.elims)
  show "counted (is_progress_ok t) (filter is_measured cs) = 0" "counted (is_progress_aborted t) (filter is_measured cs) = 0"
    "counted (\<lambda>c. c = CIncProgressFailed t) (filter is_measured cs) = 0"
    unfolding counted_def filter_filter
    by (rule arg_cong [where f = "\<lambda>xs. wrap64 (length xs)" and y = "[]", simplified list.size wrap64_def mod_0, folded wrap64_def],
      auto simp: filter_empty_conv elim: is_progress_ok.elims is_progress_aborted.elims)+
qed

lemma length_samples: "length (samples t cs) \<le> length cs"
  by (induction t cs rule: samples.induct) auto

lemma tx_Collect_stats:
  assumes "length cs < 2 ^ 64"
  shows "tx_Collect (tx_stats_of hdrTill maxValue micro cs t) (tx_stats_of hdrTill maxValue micro ds t) =
     Inr (tx_stats_of hdrTill maxValue micro (ds @ filter is_measured cs) t)"
proof -
  have "length (samples t cs) < 2 ^ 64" using assms length_samples [of t cs] by (rule le_less_trans [rotated])
  then have "Hist_Add (summary hdrTill maxValue us) (summary hdrTill maxValue (map f (samples t cs))) = Inr (summary hdrTill maxValue (us @ map f (samples t cs)))"
    for us f by (intro Hist_Add_summary) simp
  then show ?thesis
    unfolding tx_Collect_def by (simp add: stats_append counted_measured samples_measured fulls_measured)
qed

lemma collect_lists_map:
  "(\<And>t. t \<in> set ts \<Longrightarrow> f (g t) (h t) = Inr (k t)) \<Longrightarrow> collect_lists f (map g ts) (map h ts) = Inr (map k ts)"
  by (induction ts) simp_all

lemma Stats_Collect_stats:
  assumes "length cs < 2 ^ 64"
  shows "Stats_Collect (stats_of hdrTill maxValue micro cs) (stats_of hdrTill maxValue micro ds) =
     Inr (stats_of hdrTill maxValue micro (ds @ filter is_measured cs))"
  unfolding Stats_Collect_def using assms
  by (simp add: stats_of_def collect_lists_map [where k = "tx_stats_of hdrTill maxValue micro (ds @ filter is_measured cs)"] tx_Collect_stats)

fun collect_all :: "TTerminalStats list \<Rightarrow> TTerminalStats \<Rightarrow> TTerminalStats result" where
  "collect_all [] dst = Inr dst"
| "collect_all (s # ss) dst = bind_r (Stats_Collect s dst) (collect_all ss)"

lemma collect_all_stats:
  "length (concat css) < 2 ^ 64 \<Longrightarrow> collect_all (map (stats_of hdrTill maxValue micro) css) (stats_of hdrTill maxValue micro ds) =
     Inr (stats_of hdrTill maxValue micro (ds @ filter is_measured (concat css)))"
proof (induction css arbitrary: ds)
  case (Cons cs css)
  then have "length cs < 2 ^ 64" "length (concat css) < 2 ^ 64" by simp_all
  with Cons.IH show ?case by (simp add: Stats_Collect_stats)
qed simp

text \<open>Entering the measurement drops the progress of the ramp, once, and leaves what was measured.\<close>

lemma ClearProgressOnce_stats:
  "ClearProgressOnce (stats_of hdrTill maxValue micro cs) =
     (True, (stats_of hdrTill maxValue micro (filter is_measured cs)) \<lparr> ts_ProgressClearedForMeasure := True \<rparr>)"
  "ClearProgressOnce (snd (ClearProgressOnce s)) = (False, snd (ClearProgressOnce s))"
  by (simp_all add: ClearProgressOnce_def stats_of_def tx_ClearProgress_def tx_stats_of_def Let_def counted_measured samples_measured
      fulls_measured Hist_Reset_summary)

lemma Stats_Clear_stats: "Stats_Clear (stats_of hdrTill maxValue micro cs) = stats_of hdrTill maxValue micro []"
  by (simp add: Stats_Clear_def stats_of_def tx_Clear_def tx_ClearProgress_def tx_stats_of_def Let_def Hist_Reset_summary counted_def wrap64_def)



end
