(* ===== verification/Terminal.thy ===== *)
theory Terminal
  imports Rng Pg_Runs Terminal_Stats
begin

text \<open>
  \<^verbatim>\<open>tpcc/runtime/phase_controller.h\<close>, \<^verbatim>\<open>tpcc/domain/think_time.h\<close> and \<^verbatim>\<open>tpcc/harness/terminal.cpp\<close>: the phases of
  a run, the choice of the next transaction, the retry rules and the loop of a terminal. What a terminal
  reads from the world, clocks, the stop flag, the published phase and the answers of the session pool, is
  given by a record per attempt and per turn of the loop; what it does is the list of its calls on the
  statistics and the task queue. The task itself is a function on the state of the database.
\<close>

section \<open>Phases\<close>

datatype ERunPhase = Prepare | Ramp | Measure | Drain | Stop

fun phase_index :: "ERunPhase \<Rightarrow> nat" where
  "phase_index Prepare = 0"
| "phase_index Ramp = 1"
| "phase_index Measure = 2"
| "phase_index Drain = 3"
| "phase_index Stop = 4"

record TPhaseDurations =
  RampUpMs :: int
  MeasurementMs :: int
  TransactionDrainMs :: int
  StopGraceMs :: int

text \<open>Time points of the system clock, in nanoseconds.\<close>

record TPhaseSchedule =
  RampStart :: int
  MeasurementStart :: int
  MeasurementEnd :: int
  DrainDeadline :: int
  StopGraceDeadline :: int

definition plus_ms :: "int \<Rightarrow> int \<Rightarrow> int result" where
  "plus_ms t ms = bind_r (i64 (ms * 1000000)) (\<lambda>d. i64 (t + d))"

definition BuildPhaseSchedule :: "int \<Rightarrow> TPhaseDurations \<Rightarrow> TPhaseSchedule result" where
  "BuildPhaseSchedule rampStart d =
     bind_r (plus_ms rampStart (RampUpMs d)) (\<lambda>measurementStart.
     bind_r (plus_ms measurementStart (MeasurementMs d)) (\<lambda>measurementEnd.
     bind_r (plus_ms measurementEnd (TransactionDrainMs d)) (\<lambda>drainDeadline.
     map_r (\<lambda>stopGraceDeadline. \<lparr> RampStart = rampStart, MeasurementStart = measurementStart, MeasurementEnd = measurementEnd,
         DrainDeadline = drainDeadline, StopGraceDeadline = stopGraceDeadline \<rparr>)
       (plus_ms drainDeadline (StopGraceMs d)))))"

record TPhaseController =
  pc_Schedule :: TPhaseSchedule
  pc_Phase :: ERunPhase

definition InMeasurementInterval :: "TPhaseController \<Rightarrow> int \<Rightarrow> bool" where
  "InMeasurementInterval pc t \<longleftrightarrow> t \<ge> MeasurementStart (pc_Schedule pc) \<and> t < MeasurementEnd (pc_Schedule pc)"

definition CompletelyWithinMeasurement :: "TPhaseController \<Rightarrow> int \<Rightarrow> int \<Rightarrow> bool" where
  "CompletelyWithinMeasurement pc start stop \<longleftrightarrow>
     start \<ge> MeasurementStart (pc_Schedule pc) \<and> stop \<le> MeasurementEnd (pc_Schedule pc) \<and> stop \<ge> start"

definition MayAdmit :: "TPhaseController \<Rightarrow> int \<Rightarrow> bool" where
  "MayAdmit pc now \<longleftrightarrow>
     (if pc_Phase pc \<noteq> Ramp \<and> pc_Phase pc \<noteq> Measure then False else now < MeasurementEnd (pc_Schedule pc))"

definition MayRecord :: "TPhaseController \<Rightarrow> int \<Rightarrow> bool" where
  "MayRecord pc now \<longleftrightarrow> InMeasurementInterval pc now"

definition Tick :: "int \<Rightarrow> TPhaseController \<Rightarrow> TPhaseController" where
  "Tick now pc =
     (let cur = pc_Phase pc in
      if cur = Stop \<or> cur = Prepare then pc
      else if now \<ge> MeasurementEnd (pc_Schedule pc)
      then (if cur \<noteq> Drain \<and> cur \<noteq> Stop then pc \<lparr> pc_Phase := Drain \<rparr> else pc)
      else if now \<ge> MeasurementStart (pc_Schedule pc)
      then (if cur = Ramp then pc \<lparr> pc_Phase := Measure \<rparr> else pc)
      else if cur = Prepare then pc \<lparr> pc_Phase := Ramp \<rparr>
      else pc)"

section \<open>Choosing and pacing\<close>

text \<open>The loop over the cumulative weights; the drawn value is the random number divided by 100.\<close>

fun choose_from :: "nat \<Rightarrow> rat \<Rightarrow> rat \<Rightarrow> rat list \<Rightarrow> nat \<Rightarrow> nat" where
  "choose_from last_index randomValue cumulativeWeight [] i = last_index"
| "choose_from last_index randomValue cumulativeWeight (w # ws) i =
     (if randomValue \<le> cumulativeWeight + w then i else choose_from last_index randomValue (cumulativeWeight + w) ws (i + 1))"

definition choose_index :: "rat list \<Rightarrow> nat \<Rightarrow> nat" where
  "choose_index weights draw = choose_from (length weights - 1) (of_nat draw / 100) 0 weights 0"

definition ChooseRandomTransactionIndex :: "rat list \<Rightarrow> TFastRng \<Rightarrow> nat \<times> TFastRng" where
  "ChooseRandomTransactionIndex weights rng =
     (let totalWeight = sum_list weights in
      if totalWeight \<le> 0 then (0, rng)
      else let (r, rng') = RandomNumber rng 0 (of_int \<lfloor>totalWeight * 100\<rfloor>) in (choose_index weights (unat r), rng'))"

datatype EThinkTimeDistribution = Exponential | Compatibility

text \<open>\<open>sampled\<close> is the truncated exponential draw, computed in floating point.\<close>

definition SampleThinkTimeMs :: "int \<Rightarrow> int \<Rightarrow> EThinkTimeDistribution \<Rightarrow> int" where
  "SampleThinkTimeMs sampled meanMs distribution =
     (if meanMs \<le> 0 then 0 else if distribution = Compatibility then meanMs else sampled)"

definition ThinkTimeDistributionToString :: "EThinkTimeDistribution \<Rightarrow> string" where
  "ThinkTimeDistributionToString d = (case d of Compatibility \<Rightarrow> ''compatibility'' | Exponential \<Rightarrow> ''exponential'')"

definition ParseThinkTimeDistribution :: "string \<Rightarrow> EThinkTimeDistribution option" where
  "ParseThinkTimeDistribution value =
     (if value = [] \<or> value = ''exponential'' then Some Exponential
      else if value = ''compatibility'' \<or> value = ''constant'' then Some Compatibility
      else None)"

section \<open>Retries\<close>

definition EffectiveRetryMaxAttempts :: "nat \<Rightarrow> nat" where
  "EffectiveRetryMaxAttempts configured = (if configured = 0 then 4 else configured)"

fun retry_doubling :: "nat \<Rightarrow> int \<Rightarrow> int \<Rightarrow> int result" where
  "retry_doubling 0 maxBackoffMs delay = Inr delay"
| "retry_doubling (Suc n) maxBackoffMs delay =
     (if delay < maxBackoffMs then
        if delay > maxBackoffMs div 2 then retry_doubling n maxBackoffMs maxBackoffMs
        else bind_r (i64 (delay * 2)) (retry_doubling n maxBackoffMs)
      else Inr delay)"

definition RetryDelayCapMs :: "nat \<Rightarrow> int \<Rightarrow> int \<Rightarrow> int result" where
  "RetryDelayCapMs retryIndex initialBackoffMs maxBackoffMs =
     (if initialBackoffMs \<le> 0 \<or> maxBackoffMs \<le> 0 then Inr 0
      else map_r (\<lambda>delay. min delay maxBackoffMs) (retry_doubling retryIndex maxBackoffMs initialBackoffMs))"

definition RetryDelay :: "nat \<Rightarrow> int \<Rightarrow> int \<Rightarrow> string \<Rightarrow> TFastRng \<Rightarrow> int result" where
  "RetryDelay retryIndex initialBackoffMs maxBackoffMs jitter rng =
     map_r (\<lambda>cap. if cap \<le> 0 then 0 else if jitter = ''full'' then int (unat (fst (RandomNumber rng 0 (of_int cap)))) else cap)
       (RetryDelayCapMs retryIndex initialBackoffMs maxBackoffMs)"

definition ShouldRetryClass :: "EErrorClass \<Rightarrow> bool \<Rightarrow> bool" where
  "ShouldRetryClass cls retryAmbiguousCommit =
     (if MayBlindRetry cls then True else cls = AmbiguousCommit \<and> retryAmbiguousCommit)"

section \<open>The attempts of one transaction\<close>

record TTerminal =
  tm_Workload :: TWorkloadConfig
  tm_NoDelays :: bool
  tm_SimulateTransactionSelect1 :: int
  tm_RetryMaxAttempts :: nat
  tm_RetryInitialBackoffMs :: int
  tm_RetryMaxBackoffMs :: int
  tm_RetryJitter :: string
  tm_RetryAmbiguousCommit :: bool
  tm_ThinkTimeDistribution :: EThinkTimeDistribution
  tm_Schedule :: TPhaseSchedule

text \<open>What a terminal does to its surroundings.\<close>

datatype terminal_call =
    Stat stat_call
  | Suspend int
  | TakeInflight
  | DecInflight
  | RequestStopWithError

text \<open>How an attempt can be left by an exception: the user abort, a classified error, or another exception with the class the
  adapter's classifier gives to it.\<close>

datatype caught = UserAborted | ClassifiedError EErrorClass | OtherException EErrorClass

text \<open>The answers of \<^verbatim>\<open>WaitCreateSession\<close> with the time they took; without a session, the stop flag and whether the
  phase still admits transactions.\<close>

datatype pool_answer = GotSession int | NoSession int bool bool | PoolRaises EErrorClass

record 'e attempt_env =
  ae_Pool :: "pool_answer list"
  ae_BeginRaises :: "EErrorClass option"
  ae_Task :: 'e
  ae_LatencyPure :: int
  ae_EndTime :: int
  ae_EndWall :: int
  ae_StopRequested :: bool
  ae_Rng :: TFastRng
  ae_StopAfterBackoff :: bool

record tx_times =
  tt_Type :: ETransactionType
  tt_StartTime :: int
  tt_StartWall :: int
  tt_StartTimeTransaction :: int

text \<open>\<^verbatim>\<open>duration_cast<microseconds>\<close> of nanoseconds truncates toward zero.\<close>

definition cast_us :: "int \<Rightarrow> int" where
  "cast_us ns = (if ns < 0 then - ((- ns) div 1000) else ns div 1000)"

definition shouldRecordMetrics :: "TTerminal \<Rightarrow> tx_times \<Rightarrow> int \<Rightarrow> bool" where
  "shouldRecordMetrics tm tt endWall \<longleftrightarrow>
     CompletelyWithinMeasurement \<lparr> pc_Schedule = tm_Schedule tm, pc_Phase = Measure \<rparr> (tt_StartWall tt) endWall"

definition makeSample :: "tx_times \<Rightarrow> int \<Rightarrow> int \<Rightarrow> int \<Rightarrow> 'e attempt_env \<Rightarrow> TLatencySample" where
  "makeSample tt sessionPoolWait retryBackoff latencyFull e =
     \<lparr> ls_Transaction = cast_us (ae_EndTime e - tt_StartTimeTransaction tt), ls_Full = latencyFull, ls_Pure = ae_LatencyPure e,
       ls_AdmissionWait = cast_us (tt_StartTimeTransaction tt - tt_StartTime tt), ls_SessionPoolWait = sessionPoolWait, ls_RetryBackoff = retryBackoff \<rparr>"

definition recordOk :: "TTerminal \<Rightarrow> tx_times \<Rightarrow> int \<Rightarrow> int \<Rightarrow> 'e attempt_env \<Rightarrow> terminal_call list" where
  "recordOk tm tt poolWait backoff e =
     (let latencyFull = cast_us (ae_EndTime e - tt_StartTime tt) in
      Stat (CAddProgressOK (tt_Type tt) latencyFull) #
      (if shouldRecordMetrics tm tt (ae_EndWall e) then [Stat (CAddOK (tt_Type tt) (makeSample tt poolWait backoff latencyFull e))] else []))"

definition recordFailed :: "TTerminal \<Rightarrow> tx_times \<Rightarrow> 'e attempt_env \<Rightarrow> terminal_call list" where
  "recordFailed tm tt e =
     Stat (CIncProgressFailed (tt_Type tt)) #
     (if shouldRecordMetrics tm tt (ae_EndWall e) then [Stat (CIncFailed (tt_Type tt))] else [])"

definition recordUserAborted :: "TTerminal \<Rightarrow> tx_times \<Rightarrow> int \<Rightarrow> int \<Rightarrow> 'e attempt_env \<Rightarrow> terminal_call list" where
  "recordUserAborted tm tt poolWait backoff e =
     (let latencyFull = cast_us (ae_EndTime e - tt_StartTime tt) in
      Stat (CAddProgressUserAborted (tt_Type tt) latencyFull) #
      (if shouldRecordMetrics tm tt (ae_EndWall e) then [Stat (CAddUserAborted (tt_Type tt) (makeSample tt poolWait backoff latencyFull e))] else []))"

definition recordRetried :: "TTerminal \<Rightarrow> tx_times \<Rightarrow> 'e attempt_env \<Rightarrow> terminal_call list" where
  "recordRetried tm tt e = (if shouldRecordMetrics tm tt (ae_EndWall e) then [Stat (CIncRetried (tt_Type tt))] else [])"

text \<open>What a catch block decides: to leave the loop at once, to try again, or to end the transaction, fatally or not. The two
  blocks for classified and for other exceptions differ in their log lines only.\<close>

datatype decision = LeaveLoop | TryAgain | EndTransaction bool

definition on_error :: "TTerminal \<Rightarrow> tx_times \<Rightarrow> nat \<Rightarrow> 'e attempt_env \<Rightarrow> EErrorClass \<Rightarrow> terminal_call list \<times> decision" where
  "on_error tm tt attempt e cls =
     (let attemptsRemain = attempt + 1 < tm_RetryMaxAttempts tm in
      if ae_StopRequested e then ([], LeaveLoop)
      else if cls = Integrity then (recordFailed tm tt e, EndTransaction True)
      else if cls = Cancelled then ([], LeaveLoop)
      else if ShouldRetryClass cls (tm_RetryAmbiguousCommit tm) \<and> attemptsRemain then (recordRetried tm tt e, TryAgain)
      else (recordFailed tm tt e,
            if cls = AmbiguousCommit \<and> \<not> tm_RetryAmbiguousCommit tm then EndTransaction False
            else if \<not> attemptsRemain \<and> ShouldRetryClass cls (tm_RetryAmbiguousCommit tm) then EndTransaction False
            else EndTransaction (AbortsRun cls)))"

fun on_caught :: "TTerminal \<Rightarrow> tx_times \<Rightarrow> nat \<Rightarrow> int \<Rightarrow> int \<Rightarrow> 'e attempt_env \<Rightarrow> caught \<Rightarrow> terminal_call list \<times> decision" where
  "on_caught tm tt attempt poolWait backoff e UserAborted = (recordUserAborted tm tt poolWait backoff e, EndTransaction False)"
| "on_caught tm tt attempt poolWait backoff e (ClassifiedError cls) = on_error tm tt attempt e cls"
| "on_caught tm tt attempt poolWait backoff e (OtherException cls) = on_error tm tt attempt e cls"

text \<open>Waiting for a session; \<open>None\<close> when the answers end before one decides.\<close>

datatype acquired = Session | NoMoreSession | AcquireRaised EErrorClass

fun acquire :: "pool_answer list \<Rightarrow> int \<Rightarrow> (terminal_call list \<times> acquired \<times> int) option" where
  "acquire [] wait = None"
| "acquire (GotSession d # as) wait = Some ([], Session, wait + d)"
| "acquire (NoSession d stop admits # as) wait =
     (if stop \<or> \<not> admits then Some ([], NoMoreSession, wait + d)
      else map_option (apfst (Cons (Suspend 1))) (acquire as (wait + d)))"
| "acquire (PoolRaises cls # as) wait = Some ([], AcquireRaised cls, wait)"

text \<open>The result of the task: what it returned, or the exception it ended with.\<close>

type_synonym task_result = "caught + bool"

text \<open>One attempt: its calls, the decision and the database. A transaction that finished, successfully or not, is not retried.\<close>

definition attempt_body ::
  "('e \<Rightarrow> 'w \<Rightarrow> task_result \<times> 'w) \<Rightarrow> TTerminal \<Rightarrow> tx_times \<Rightarrow> nat \<Rightarrow> int \<Rightarrow> int \<Rightarrow> 'e attempt_env \<Rightarrow> 'w \<Rightarrow>
     (terminal_call list \<times> decision \<times> int \<times> 'w) option" where
  "attempt_body task tm tt attempt poolWait backoff e w =
     (case acquire (ae_Pool e) poolWait of
        None \<Rightarrow> None
      | Some (cs, NoMoreSession, wait) \<Rightarrow> Some (cs, LeaveLoop, wait, w)
      | Some (cs, AcquireRaised cls, wait) \<Rightarrow>
          (case on_error tm tt attempt e cls of (ds, d) \<Rightarrow> Some (cs @ ds, d, wait, w))
      | Some (cs, Session, wait) \<Rightarrow>
          (case ae_BeginRaises e of
             Some cls \<Rightarrow> (case on_error tm tt attempt e cls of (ds, d) \<Rightarrow> Some (cs @ ds, d, wait, w))
           | None \<Rightarrow>
               (case task (ae_Task e) w of
                  (Inr ok, w') \<Rightarrow> Some (cs @ (if ok then recordOk tm tt wait backoff e else recordFailed tm tt e), EndTransaction False, wait, w')
                | (Inl ex, w') \<Rightarrow> (case on_caught tm tt attempt wait backoff e ex of (ds, d) \<Rightarrow> Some (cs @ ds, d, wait, w')))))"

text \<open>The loop over the attempts: the calls, whether the run must be stopped, and the database.\<close>

function attempts ::
  "('e \<Rightarrow> 'w \<Rightarrow> task_result \<times> 'w) \<Rightarrow> TTerminal \<Rightarrow> tx_times \<Rightarrow> (nat \<Rightarrow> 'e attempt_env) \<Rightarrow> nat \<Rightarrow> int \<Rightarrow> int \<Rightarrow> 'w \<Rightarrow>
     (terminal_call list \<times> bool \<times> 'w) option" where
  "attempts task tm tt env attempt poolWait backoff w =
     (if attempt < tm_RetryMaxAttempts tm then
        let e = env attempt in
        case attempt_body task tm tt attempt poolWait backoff e w of
          None \<Rightarrow> None
        | Some (cs, LeaveLoop, wait, w') \<Rightarrow> Some (cs, False, w')
        | Some (cs, EndTransaction fatal, wait, w') \<Rightarrow> Some (cs, fatal, w')
        | Some (cs, TryAgain, wait, w') \<Rightarrow>
            (case RetryDelay attempt (tm_RetryInitialBackoffMs tm) (tm_RetryMaxBackoffMs tm) (tm_RetryJitter tm) (ae_Rng e) of
               Inl ex \<Rightarrow> None
             | Inr delay \<Rightarrow>
                 if delay > 0 then
                   if ae_StopAfterBackoff e then Some (cs @ [Suspend delay], False, w')
                   else map_option (apfst (\<lambda>ds. cs @ Suspend delay # ds)) (attempts task tm tt env (attempt + 1) wait (backoff + delay * 1000) w')
                 else map_option (apfst (\<lambda>ds. cs @ ds)) (attempts task tm tt env (attempt + 1) wait backoff w'))
      else Some ([], False, w))"
  by auto

termination
  by (relation "measure (\<lambda>(task, tm, tt, env, attempt, p, b, w). tm_RetryMaxAttempts tm - attempt)") auto

declare attempts.simps [simp del]

section \<open>The loop of a terminal\<close>

text \<open>The published phase and the clock at the moment of a check.\<close>

type_synonym phase_view = "ERunPhase \<times> int"

definition admits :: "TTerminal \<Rightarrow> phase_view \<Rightarrow> bool" where
  "admits tm v \<longleftrightarrow> MayAdmit \<lparr> pc_Schedule = tm_Schedule tm, pc_Phase = fst v \<rparr> (snd v)"

record 'e turn_env =
  te_Stop :: bool
  te_View :: phase_view
  te_Rng :: TFastRng
  te_KeyingElapsed :: int
  te_StopAfterKeying :: bool
  te_ViewAfterKeying :: phase_view
  te_StartTime :: int
  te_StartWall :: int
  te_StopWithInflight :: bool
  te_ViewWithInflight :: phase_view
  te_StartTimeTransaction :: int
  te_Attempts :: "nat \<Rightarrow> 'e attempt_env"
  te_ViewAfter :: phase_view
  te_ThinkSampled :: int
  te_ThinkElapsed :: int

datatype turn_end = NextTurn | LoopLeft | Returned

definition tx_type_of :: "nat \<Rightarrow> ETransactionType" where
  "tx_type_of i = [NewOrder, Delivery, OrderStatus, Payment, StockLevel] ! i"

text \<open>A paced wait: the calls and the new credit.\<close>

definition paced_wait :: "int \<Rightarrow> int \<Rightarrow> int \<Rightarrow> terminal_call list \<times> int" where
  "paced_wait credit requested elapsed =
     (let (c, sleep) = ApplyPacingCredit credit requested in
      ((if sleep > 0 then [Suspend sleep] else []), AccruePacingOvershoot c DefaultPacingCreditCap elapsed sleep))"

definition run_transaction ::
  "('e \<Rightarrow> 'w \<Rightarrow> task_result \<times> 'w) \<Rightarrow> TTerminal \<Rightarrow> ETransactionType \<Rightarrow> 'e turn_env \<Rightarrow> 'w \<Rightarrow> (terminal_call list \<times> bool \<times> 'w) option" where
  "run_transaction task tm txType e w =
     attempts task tm \<lparr> tt_Type = txType, tt_StartTime = te_StartTime e, tt_StartWall = te_StartWall e, tt_StartTimeTransaction = te_StartTimeTransaction e \<rparr>
       (te_Attempts e) 0 0 0 w"

definition after_transaction :: "TTerminal \<Rightarrow> bool \<Rightarrow> nat \<Rightarrow> 'e turn_env \<Rightarrow> int \<Rightarrow> terminal_call list \<times> int" where
  "after_transaction tm simulationMode txIndex e credit =
     (if \<not> tm_NoDelays tm \<and> \<not> simulationMode \<and> admits tm (te_ViewAfter e)
      then paced_wait credit (SampleThinkTimeMs (te_ThinkSampled e) (ThinkTimeMs (PerTx (tm_Workload tm) ! txIndex)) (tm_ThinkTimeDistribution tm)) (te_ThinkElapsed e)
      else ([], credit))"

definition with_inflight ::
  "('e \<Rightarrow> 'w \<Rightarrow> task_result \<times> 'w) \<Rightarrow> TTerminal \<Rightarrow> bool \<Rightarrow> nat \<Rightarrow> 'e turn_env \<Rightarrow> int \<Rightarrow> 'w \<Rightarrow> (terminal_call list \<times> turn_end \<times> int \<times> 'w) option" where
  "with_inflight task tm simulationMode txIndex e credit w =
     (if te_StopWithInflight e \<or> \<not> admits tm (te_ViewWithInflight e) then Some ([TakeInflight, DecInflight], LoopLeft, credit, w)
      else case run_transaction task tm (tx_type_of txIndex) e w of
             None \<Rightarrow> None
           | Some (cs, fatal, w') \<Rightarrow>
               if fatal then Some (TakeInflight # cs @ [DecInflight, RequestStopWithError], Returned, credit, w')
               else (case after_transaction tm simulationMode txIndex e credit of
                       (ds, credit') \<Rightarrow> Some (TakeInflight # cs @ DecInflight # ds, NextTurn, credit', w')))"

text \<open>One turn of the loop.\<close>

definition turn ::
  "('e \<Rightarrow> 'w \<Rightarrow> task_result \<times> 'w) \<Rightarrow> TTerminal \<Rightarrow> 'e turn_env \<Rightarrow> int \<Rightarrow> 'w \<Rightarrow> (terminal_call list \<times> turn_end \<times> int \<times> 'w) option" where
  "turn task tm e credit w =
     (if te_Stop e then Some ([], LoopLeft, credit, w)
      else if \<not> admits tm (te_View e) then
        (if fst (te_View e) = Prepare then Some ([Suspend 10], NextTurn, credit, w) else Some ([], LoopLeft, credit, w))
      else
        let simulationMode = tm_SimulateTransactionSelect1 tm > 0;
            txIndex = (if simulationMode then 0 else fst (ChooseRandomTransactionIndex (map Weight (PerTx (tm_Workload tm))) (te_Rng e))) in
        if \<not> tm_NoDelays tm \<and> \<not> simulationMode then
          (case paced_wait credit (KeyingTimeMs (PerTx (tm_Workload tm) ! txIndex)) (te_KeyingElapsed e) of
             (cs, credit1) \<Rightarrow>
               if te_StopAfterKeying e then Some (cs, LoopLeft, credit1, w)
               else if \<not> admits tm (te_ViewAfterKeying e) then Some (cs, NextTurn, credit1, w)
               else map_option (apfst (append cs)) (with_inflight task tm simulationMode txIndex e credit1 w))
        else with_inflight task tm simulationMode txIndex e credit w)"

text \<open>\<^verbatim>\<open>Run\<close> over the turns the world has answers for: the calls, whether the terminal is done, and the database.\<close>

fun terminal_run ::
  "('e \<Rightarrow> 'w \<Rightarrow> task_result \<times> 'w) \<Rightarrow> TTerminal \<Rightarrow> 'e turn_env list \<Rightarrow> int \<Rightarrow> 'w \<Rightarrow> (terminal_call list \<times> bool \<times> 'w) option" where
  "terminal_run task tm [] credit w = Some ([], False, w)"
| "terminal_run task tm (e # es) credit w =
     (case turn task tm e credit w of
        None \<Rightarrow> None
      | Some (cs, NextTurn, credit', w') \<Rightarrow> map_option (apfst (append cs)) (terminal_run task tm es credit' w')
      | Some (cs, _, credit', w') \<Rightarrow> Some (cs, True, w'))"

section \<open>Phases and retry delays\<close>

lemma Tick_forward: "phase_index (pc_Phase pc) \<le> phase_index (pc_Phase (Tick now pc))"
  by (cases "pc_Phase pc") (auto simp: Tick_def Let_def)

lemma MayAdmit_before_end: "MayAdmit pc now \<Longrightarrow> now < MeasurementEnd (pc_Schedule pc)"
  by (simp add: MayAdmit_def split: if_splits)

lemma Tick_drains:
  "pc_Phase pc \<noteq> Prepare \<Longrightarrow> MeasurementEnd (pc_Schedule pc) \<le> now \<Longrightarrow> \<not> MayAdmit (Tick now pc) later"
  by (cases "pc_Phase pc") (auto simp: Tick_def MayAdmit_def Let_def)

lemma retry_doubling_closed:
  "0 < delay \<Longrightarrow> m < 2 ^ 63 \<Longrightarrow> \<exists>r. retry_doubling k m delay = Inr r \<and> min r m = min (delay * 2 ^ k) m"
proof (induction k arbitrary: delay)
  case (Suc k)
  have "(1 :: int) \<le> 2 ^ Suc k" by (rule one_le_power) simp
  from mult_left_mono [OF this, of delay] Suc.prems(1) have p: "delay \<le> delay * 2 ^ Suc k" by simp
  consider "m \<le> delay" | "delay < m" "m div 2 < delay" | "delay < m" "delay \<le> m div 2" by linarith
  then show ?case
  proof cases
    case 1
    with p show ?thesis by simp
  next
    case 2
    then have "0 < m" using Suc.prems(1) by linarith
    then obtain r where r: "retry_doubling k m m = Inr r" "min r m = min (m * 2 ^ k) m" using Suc.IH Suc.prems(2) by blast
    have "m \<le> m * 2 ^ k" using \<open>0 < m\<close> by simp
    moreover have "m \<le> delay * 2" using 2 by linarith
    then have "m * 1 \<le> delay * 2 * 2 ^ k" using \<open>0 < m\<close> by (intro mult_mono) simp_all
    ultimately show ?thesis using 2 r by (simp add: mult.assoc)
  next
    case 3
    then have "in_i64 (delay * 2)" using Suc.prems by (simp add: in_i64_def)
    moreover obtain r where "retry_doubling k m (delay * 2) = Inr r" "min r m = min (delay * 2 * 2 ^ k) m" using Suc.IH [of "delay * 2"] Suc.prems by auto
    ultimately show ?thesis using 3 by (simp add: mult.assoc)
  qed
qed simp

text \<open>C35: the cap of the retry delay is exponential back-off with a ceiling, the initial delay doubled per retry but never more
  than the maximum, and the doubling never overflows, for all 64-bit parameters and any number of retries.\<close>

theorem RetryDelayCapMs_closed:
  assumes "in_i64 initialBackoffMs" "in_i64 maxBackoffMs"
  shows "RetryDelayCapMs retryIndex initialBackoffMs maxBackoffMs =
     Inr (if initialBackoffMs \<le> 0 \<or> maxBackoffMs \<le> 0 then 0 else min (initialBackoffMs * 2 ^ retryIndex) maxBackoffMs)"
proof (cases "initialBackoffMs \<le> 0 \<or> maxBackoffMs \<le> 0")
  case False
  with assms retry_doubling_closed [of initialBackoffMs maxBackoffMs retryIndex] show ?thesis by (auto simp: RetryDelayCapMs_def in_i64_def)
qed (simp add: RetryDelayCapMs_def)

lemma RetryDelayCapMs_closed_witness: "RetryDelayCapMs 3 10 500 = Inr 80 \<and> RetryDelayCapMs 70 10 500 = Inr 500"
  using RetryDelayCapMs_closed [of 10 500 3] RetryDelayCapMs_closed [of 10 500 70] by (simp add: in_i64_def)

section \<open>The transaction mix\<close>

lemma choose_from_ge: "n \<le> c + sum_list ks \<Longrightarrow> c < n \<Longrightarrow> i \<le> choose_from l (of_nat n / 100) (of_nat c / 100) (map (\<lambda>k. of_nat k / 100) ks) i"
proof (induction ks arbitrary: c i)
  case (Cons k ks)
  have e: "of_nat c / 100 + of_nat k / 100 = (of_nat (c + k) / 100 :: rat)" by (simp add: add_divide_distrib)
  show ?case
  proof (cases "n \<le> c + k")
    case False
    then have "\<not> of_nat n / 100 \<le> (of_nat (c + k) / 100 :: rat)" by (simp add: divide_le_cancel)
    moreover have "i + 1 \<le> choose_from l (of_nat n / 100) (of_nat (c + k) / 100) (map (\<lambda>k. of_nat k / 100) ks) (i + 1)"
      using False Cons.prems by (intro Cons.IH) simp_all
    ultimately show ?thesis by (simp add: e del: of_nat_add)
  qed (simp add: e divide_right_mono del: of_nat_add)
qed simp

lemma choose_from_card:
  "i < length ks \<Longrightarrow> card {n. c < n \<and> n \<le> c + sum_list ks \<and>
     choose_from l (of_nat n / 100) (of_nat c / 100) (map (\<lambda>k. of_nat k / 100) ks) i0 = i0 + i} = ks ! i"
proof (induction ks arbitrary: c i i0)
  case (Cons k ks)
  let ?f = "\<lambda>k. of_nat k / 100 :: rat"
  have e: "of_nat c / 100 + of_nat k / 100 = (of_nat (c + k) / 100 :: rat)" by (simp add: add_divide_distrib)
  have step: "choose_from l (?f n) (?f c) (map ?f (k # ks)) i0 = (if n \<le> c + k then i0 else choose_from l (?f n) (?f (c + k)) (map ?f ks) (i0 + 1))" for n
    unfolding list.map choose_from.simps e by (simp only: divide_le_cancel of_nat_le_iff) simp
  show ?case
  proof (cases i)
    case 0
    have "{n. c < n \<and> n \<le> c + sum_list (k # ks) \<and> choose_from l (?f n) (?f c) (map ?f (k # ks)) i0 = i0 + i} = {c<..c + k}"
    proof (rule set_eqI)
      fix n
      have "i0 + 1 \<le> choose_from l (?f n) (?f (c + k)) (map ?f ks) (i0 + 1)" if "\<not> n \<le> c + k" "n \<le> c + sum_list (k # ks)"
        using that by (intro choose_from_ge) simp_all
      then show "n \<in> {n. c < n \<and> n \<le> c + sum_list (k # ks) \<and> choose_from l (?f n) (?f c) (map ?f (k # ks)) i0 = i0 + i} \<longleftrightarrow> n \<in> {c<..c + k}"
        unfolding mem_Collect_eq step 0 by auto
    qed
    then show ?thesis using 0 by simp
  next
    case (Suc j)
    have "{n. c < n \<and> n \<le> c + sum_list (k # ks) \<and> choose_from l (?f n) (?f c) (map ?f (k # ks)) i0 = i0 + i} =
        {n. c + k < n \<and> n \<le> c + k + sum_list ks \<and> choose_from l (?f n) (?f (c + k)) (map ?f ks) (i0 + 1) = i0 + 1 + j}"
      unfolding step Suc by auto
    moreover have "j < length ks" using Cons.prems Suc by simp
    ultimately show ?thesis using Cons.IH [of j "c + k" "i0 + 1"] Suc by simp
  qed
qed simp



section \<open>The calls of a terminal\<close>

fun is_progress_call :: "terminal_call \<Rightarrow> bool" where
  "is_progress_call (Stat c) \<longleftrightarrow> \<not> is_measured c" | "is_progress_call c \<longleftrightarrow> False"

fun is_retried_call :: "terminal_call \<Rightarrow> bool" where
  "is_retried_call (Stat (CIncRetried t)) \<longleftrightarrow> True" | "is_retried_call c \<longleftrightarrow> False"

fun is_outcome_call :: "terminal_call \<Rightarrow> bool" where
  "is_outcome_call (Stat c) \<longleftrightarrow> is_measured c \<and> \<not> is_retried_call (Stat c)" | "is_outcome_call c \<longleftrightarrow> False"

fun is_success_call :: "terminal_call \<Rightarrow> bool" where
  "is_success_call (Stat (CAddProgressOK t d)) \<longleftrightarrow> True" | "is_success_call c \<longleftrightarrow> False"

fun plain_call :: "terminal_call \<Rightarrow> bool" where
  "plain_call (Stat c) \<longleftrightarrow> True" | "plain_call (Suspend d) \<longleftrightarrow> True" | "plain_call c \<longleftrightarrow> False"

definition ncalls :: "(terminal_call \<Rightarrow> bool) \<Rightarrow> terminal_call list \<Rightarrow> nat" where
  "ncalls P cs = length (filter P cs)"

lemma ncalls_simps [simp]:
  "ncalls P [] = 0" "ncalls P (c # cs) = (if P c then Suc (ncalls P cs) else ncalls P cs)" "ncalls P (cs @ ds) = ncalls P cs + ncalls P ds"
  by (simp_all add: ncalls_def)

text \<open>What a part of a transaction may add: at most one progress call, a measured outcome only with one, and a retry only when
  it does not end.\<close>

lemma record_calls:
  "ncalls is_progress_call (recordOk tm tt p b e) = Suc 0" "ncalls is_outcome_call (recordOk tm tt p b e) \<le> Suc 0"
  "ncalls is_progress_call (recordFailed tm tt e) = Suc 0" "ncalls is_outcome_call (recordFailed tm tt e) \<le> Suc 0"
  "ncalls is_progress_call (recordUserAborted tm tt p b e) = Suc 0" "ncalls is_outcome_call (recordUserAborted tm tt p b e) \<le> Suc 0"
  "ncalls is_progress_call (recordRetried tm tt e) = 0" "ncalls is_outcome_call (recordRetried tm tt e) = 0" "ncalls is_retried_call (recordRetried tm tt e) \<le> Suc 0"
  "ncalls is_retried_call (recordOk tm tt p b e) = 0" "ncalls is_retried_call (recordFailed tm tt e) = 0" "ncalls is_retried_call (recordUserAborted tm tt p b e) = 0"
  "ncalls is_success_call (recordOk tm tt p b e) = Suc 0" "ncalls is_success_call (recordFailed tm tt e) = 0"
  "ncalls is_success_call (recordUserAborted tm tt p b e) = 0" "ncalls is_success_call (recordRetried tm tt e) = 0"
  "list_all plain_call (recordOk tm tt p b e)" "list_all plain_call (recordFailed tm tt e)"
  "list_all plain_call (recordUserAborted tm tt p b e)" "list_all plain_call (recordRetried tm tt e)"
  by (simp_all add: recordOk_def recordFailed_def recordUserAborted_def recordRetried_def Let_def)

lemma acquire_calls:
  "acquire as w = Some (cs, a, w') \<Longrightarrow> (\<forall>c \<in> set cs. c = Suspend 1)"
  by (induction as w arbitrary: cs rule: acquire.induct) (auto split: if_splits)

lemma suspends_calls:
  assumes "\<forall>c \<in> set cs. c = Suspend 1"
  shows "ncalls is_progress_call cs = 0" "ncalls is_outcome_call cs = 0" "ncalls is_retried_call cs = 0" "ncalls is_success_call cs = 0" "list_all plain_call cs"
  using assms by (induction cs) auto

text \<open>The calls of one attempt, by its decision.\<close>

definition attempt_calls :: "terminal_call list \<Rightarrow> decision \<Rightarrow> bool" where
  "attempt_calls cs d \<longleftrightarrow> list_all plain_call cs \<and> ncalls is_outcome_call cs \<le> ncalls is_progress_call cs \<and>
     (case d of EndTransaction f \<Rightarrow> ncalls is_progress_call cs = 1 \<and> ncalls is_retried_call cs = 0
        | LeaveLoop \<Rightarrow> ncalls is_progress_call cs = 0 \<and> ncalls is_retried_call cs = 0
        | TryAgain \<Rightarrow> ncalls is_progress_call cs = 0 \<and> ncalls is_retried_call cs \<le> 1)"

lemma on_error_calls:
  assumes "on_error tm tt attempt e cls = (cs, d)"
  shows "attempt_calls cs d" "ncalls is_success_call cs = 0" "d = TryAgain \<Longrightarrow> attempt + 1 < tm_RetryMaxAttempts tm" "d = EndTransaction True \<Longrightarrow> cls = Integrity"
  using assms unfolding on_error_def attempt_calls_def by (auto simp: Let_def AbortsRun_def record_calls split: if_splits)

lemma on_caught_calls:
  assumes "on_caught tm tt attempt p b e ex = (cs, d)"
  shows "attempt_calls cs d \<and> ncalls is_success_call cs = 0 \<and> (d = TryAgain \<longrightarrow> attempt + 1 < tm_RetryMaxAttempts tm)"
proof (cases ex)
  case UserAborted
  with assms show ?thesis by (auto simp: attempt_calls_def record_calls)
next
  case (ClassifiedError cls)
  with assms on_error_calls [of tm tt attempt e cls cs d] show ?thesis by simp
next
  case (OtherException cls)
  with assms on_error_calls [of tm tt attempt e cls cs d] show ?thesis by simp
qed

lemma attempt_calls_append:
  assumes "\<forall>c \<in> set cs. c = Suspend 1"
  shows "attempt_calls (cs @ ds) d = attempt_calls ds d" "ncalls is_success_call (cs @ ds) = ncalls is_success_call ds"
  using suspends_calls [OF assms] by (simp_all add: attempt_calls_def split: decision.splits)

lemma attempt_body_cases:
  assumes "attempt_body task tm tt attempt p b e w = Some (cs, d, wait, w')"
  obtains (leave) "\<forall>c \<in> set cs. c = Suspend 1" "d = LeaveLoop" "w' = w"
    | (error) as cls ds where "\<forall>c \<in> set as. c = Suspend 1" "cs = as @ ds" "on_error tm tt attempt e cls = (ds, d)" "w' = w"
    | (finished) as ok where "\<forall>c \<in> set as. c = Suspend 1" "task (ae_Task e) w = (Inr ok, w')" "d = EndTransaction False"
        "cs = as @ (if ok then recordOk tm tt wait b e else recordFailed tm tt e)"
    | (raised) as ex ds where "\<forall>c \<in> set as. c = Suspend 1" "task (ae_Task e) w = (Inl ex, w')" "on_caught tm tt attempt wait b e ex = (ds, d)" "cs = as @ ds"
proof -
  obtain as a w1 where acq: "acquire (ae_Pool e) p = Some (as, a, w1)"
    using assms by (auto simp: attempt_body_def split: option.splits)
  note sus = acquire_calls [OF acq]
  note body = assms [unfolded attempt_body_def acq, simplified]
  show thesis
  proof (cases a)
    case Session
    then show ?thesis
    proof (cases "ae_BeginRaises e")
      case None
      obtain r w2 where t: "task (ae_Task e) w = (r, w2)" by fastforce
      show ?thesis
      proof (cases r)
        case (Inl ex)
        with body Session None t show ?thesis by (auto split: prod.splits intro: raised [OF sus])
      next
        case (Inr ok)
        with body Session None t show ?thesis by (auto intro: finished [OF sus, of ok])
      qed
    next
      case (Some cls)
      with body Session show ?thesis by (auto split: prod.splits intro: error [OF sus])
    qed
  next
    case NoMoreSession
    with body sus show ?thesis by (auto intro: leave)
  next
    case (AcquireRaised cls)
    with body show ?thesis by (auto split: prod.splits intro: error [OF sus])
  qed
qed

lemma attempt_body_calls:
  assumes "attempt_body task tm tt attempt p b e w = Some (cs, d, wait, w')"
  shows "attempt_calls cs d \<and> (d = TryAgain \<longrightarrow> attempt + 1 < tm_RetryMaxAttempts tm)"
  using assms
proof (cases rule: attempt_body_cases)
  case leave
  with suspends_calls [OF leave(1)] show ?thesis by (simp add: attempt_calls_def)
next
  case (error as cls ds)
  with attempt_calls_append [OF error(1)] on_error_calls [OF error(3)] show ?thesis by simp
next
  case (finished as ok)
  with suspends_calls [OF finished(1)] show ?thesis by (simp add: attempt_calls_def record_calls)
next
  case (raised as ex ds)
  with attempt_calls_append [OF raised(1)] on_caught_calls [OF raised(3)] show ?thesis by simp
qed

lemma RetryDelay_total:
  assumes "in_i64 i" "in_i64 m"
  obtains d where "RetryDelay k i m j rng = Inr d"
proof (cases "i \<le> 0 \<or> m \<le> 0")
  case True
  then show thesis using that by (simp add: RetryDelay_def RetryDelayCapMs_def)
next
  case False
  with retry_doubling_closed [of i m k] assms show thesis using that by (auto simp: RetryDelay_def RetryDelayCapMs_def in_i64_def)
qed

lemma attempts_cases:
  assumes "attempts task tm tt env attempt p b w = Some (cs, fatal, w')"
  obtains (exhausted) "tm_RetryMaxAttempts tm \<le> attempt" "cs = []" "\<not> fatal" "w' = w"
    | (ended) wait d where "attempt < tm_RetryMaxAttempts tm" "attempt_body task tm tt attempt p b (env attempt) w = Some (cs, d, wait, w')"
        "d \<noteq> TryAgain" "fatal \<longleftrightarrow> d = EndTransaction True"
    | (stopped) wait cs1 delay where "attempt < tm_RetryMaxAttempts tm" "attempt_body task tm tt attempt p b (env attempt) w = Some (cs1, TryAgain, wait, w')"
        "cs = cs1 @ [Suspend delay]" "\<not> fatal"
    | (again) wait cs1 w1 sl b1 ds where "attempt < tm_RetryMaxAttempts tm"
        "attempt_body task tm tt attempt p b (env attempt) w = Some (cs1, TryAgain, wait, w1)" "sl = [] \<or> (\<exists>delay. sl = [Suspend delay])"
        "cs = cs1 @ sl @ ds" "attempts task tm tt env (attempt + 1) wait b1 w1 = Some (ds, fatal, w')"
proof (cases "attempt < tm_RetryMaxAttempts tm")
  case False
  with assms show thesis by (auto simp: attempts.simps [of task tm tt env attempt] intro: exhausted)
next
  case True
  note un = assms [unfolded attempts.simps [of task tm tt env attempt p b w] Let_def if_P [OF True]]
  then obtain cs1 d wait w1 where body: "attempt_body task tm tt attempt p b (env attempt) w = Some (cs1, d, wait, w1)"
    by (auto split: option.splits)
  show thesis
  proof (cases d)
    case TryAgain
    then obtain delay where dl: "RetryDelay attempt (tm_RetryInitialBackoffMs tm) (tm_RetryMaxBackoffMs tm) (tm_RetryJitter tm) (ae_Rng (env attempt)) = Inr delay"
      using un body by (auto split: sum.splits)
    note un' = un [unfolded body TryAgain dl, simplified]
    consider (a) "delay > 0" "ae_StopAfterBackoff (env attempt)" | (b) "delay > 0" "\<not> ae_StopAfterBackoff (env attempt)" | (c) "\<not> delay > 0" by blast
    then show thesis
    proof cases
      case a
      with un' body TryAgain show thesis by (intro stopped [OF True, of cs1 wait delay]) simp_all
    next
      case b
      then obtain ds where "cs = cs1 @ [Suspend delay] @ ds" "attempts task tm tt env (attempt + 1) wait (b + delay * 1000) w1 = Some (ds, fatal, w')"
        using un' by auto
      with body TryAgain show thesis by (intro again [OF True]) auto
    next
      case c
      then obtain ds where "cs = cs1 @ [] @ ds" "attempts task tm tt env (attempt + 1) wait b w1 = Some (ds, fatal, w')" using un' by auto
      with body TryAgain show thesis by (intro again [OF True, where sl = "[]"]) auto
    qed
  qed (use un body in \<open>auto intro: ended [OF True]\<close>)
qed

lemma attempts_calls:
  "attempts task tm tt env attempt p b w = Some (cs, fatal, w') \<Longrightarrow>
     list_all plain_call cs \<and> ncalls is_progress_call cs \<le> 1 \<and> ncalls is_outcome_call cs \<le> ncalls is_progress_call cs \<and>
     ncalls is_retried_call cs \<le> tm_RetryMaxAttempts tm - 1 - attempt"
proof (induction "tm_RetryMaxAttempts tm - attempt" arbitrary: attempt p b w cs rule: less_induct)
  case less
  from less.prems show ?case
  proof (cases rule: attempts_cases)
    case (ended wait d)
    with attempt_body_calls [OF ended(2)] show ?thesis by (cases d) (simp_all add: attempt_calls_def)
  next
    case (stopped wait cs1 delay)
    with attempt_body_calls [OF stopped(2)] show ?thesis by (auto simp: attempt_calls_def)
  next
    case (again wait cs1 w1 sl b1 ds)
    have "tm_RetryMaxAttempts tm - (attempt + 1) < tm_RetryMaxAttempts tm - attempt" using again(1) by simp
    from less.hyps [OF this again(5)] attempt_body_calls [OF again(2)] again(3,4) show ?thesis by (auto simp: attempt_calls_def)
  qed simp
qed

text \<open>The slots of a terminal: taken only when none is held, given back only when one is, and none held at the end or when the
  run is stopped.\<close>

fun slots :: "bool \<Rightarrow> terminal_call list \<Rightarrow> bool" where
  "slots held [] \<longleftrightarrow> \<not> held"
| "slots held (TakeInflight # cs) \<longleftrightarrow> \<not> held \<and> slots True cs"
| "slots held (DecInflight # cs) \<longleftrightarrow> held \<and> slots False cs"
| "slots held (RequestStopWithError # cs) \<longleftrightarrow> \<not> held \<and> slots held cs"
| "slots held (c # cs) \<longleftrightarrow> slots held cs"

lemma slots_plain: "list_all plain_call cs \<Longrightarrow> slots held (cs @ ds) = slots held ds"
proof (induction cs)
  case (Cons c cs)
  then show ?case by (cases c) simp_all
qed simp

lemma slots_append: "slots held cs \<Longrightarrow> slots False ds \<Longrightarrow> slots held (cs @ ds)"
  by (induction held cs rule: slots.induct) auto

text \<open>What one turn adds.\<close>

definition turn_calls :: "TTerminal \<Rightarrow> terminal_call list \<Rightarrow> bool" where
  "turn_calls tm cs \<longleftrightarrow> slots False cs \<and> ncalls is_progress_call cs \<le> ncalls (\<lambda>c. c = TakeInflight) cs \<and>
     ncalls is_outcome_call cs \<le> ncalls is_progress_call cs \<and>
     ncalls is_retried_call cs \<le> (tm_RetryMaxAttempts tm - 1) * ncalls (\<lambda>c. c = TakeInflight) cs"

lemma plain_no_take: "list_all plain_call cs \<Longrightarrow> ncalls (\<lambda>c. c = TakeInflight) cs = 0"
  by (induction cs) auto

lemma waits_calls:
  assumes "cs = [] \<or> (\<exists>d. cs = [Suspend d])"
  shows "turn_calls tm cs" "turn_calls tm (cs @ ds) = turn_calls tm ds"
  using assms by (auto simp: turn_calls_def)

lemma paced_wait_calls: "paced_wait credit requested elapsed = (cs, c) \<Longrightarrow> cs = [] \<or> (\<exists>d. cs = [Suspend d])"
  by (auto simp: paced_wait_def split: prod.splits if_splits)

lemma turn_calls_append: "turn_calls tm cs \<Longrightarrow> turn_calls tm ds \<Longrightarrow> turn_calls tm (cs @ ds)"
  by (auto simp: turn_calls_def slots_append distrib_left)

lemma with_inflight_calls:
  assumes "with_inflight task tm sim i e credit w = Some (cs, t, credit', w')"
  shows "turn_calls tm cs"
proof (cases "te_StopWithInflight e \<or> \<not> admits tm (te_ViewWithInflight e)")
  case True
  with assms show ?thesis by (auto simp: with_inflight_def turn_calls_def)
next
  case False
  then obtain bs fatal w1 where r: "run_transaction task tm (tx_type_of i) e w = Some (bs, fatal, w1)"
    using assms by (auto simp: with_inflight_def split: option.splits)
  note c = attempts_calls [OF r [unfolded run_transaction_def]]
  have p: "slots True (bs @ ds) = slots True ds" "ncalls (\<lambda>c. c = TakeInflight) bs = 0" for ds using c slots_plain plain_no_take by blast+
  show ?thesis
  proof (cases fatal)
    case True
    with False assms r have "cs = TakeInflight # bs @ [DecInflight, RequestStopWithError]" by (simp add: with_inflight_def)
    with c p show ?thesis by (simp add: turn_calls_def)
  next
    case nf: False
    obtain ds cr where a: "after_transaction tm sim i e credit = (ds, cr)" by fastforce
    then have ds: "ds = [] \<or> (\<exists>d. ds = [Suspend d])" by (auto simp: after_transaction_def dest: paced_wait_calls split: if_splits)
    from False nf assms r a have "cs = TakeInflight # bs @ DecInflight # ds" by (simp add: with_inflight_def)
    with c p ds show ?thesis by (auto simp: turn_calls_def)
  qed
qed

lemma turn_cases:
  assumes "turn task tm e credit w = Some (cs, t, credit', w')"
  obtains (wait) "cs = [] \<or> (\<exists>d. cs = [Suspend d])" "w' = w"
    | (inflight) as i cr bs where "as = [] \<or> (\<exists>d. as = [Suspend d])" "cs = as @ bs"
        "with_inflight task tm (tm_SimulateTransactionSelect1 tm > 0) i e cr w = Some (bs, t, credit', w')"
proof -
  let ?sim = "tm_SimulateTransactionSelect1 tm > 0"
  define i where "i = (if ?sim then 0 else fst (ChooseRandomTransactionIndex (map Weight (PerTx (tm_Workload tm))) (te_Rng e)))"
  note un = assms [unfolded turn_def Let_def, folded i_def]
  obtain as cr where pw: "paced_wait credit (KeyingTimeMs (PerTx (tm_Workload tm) ! i)) (te_KeyingElapsed e) = (as, cr)" by fastforce
  note pc = paced_wait_calls [OF pw]
  consider "te_Stop e \<or> \<not> admits tm (te_View e)"
    | "\<not> te_Stop e" "admits tm (te_View e)" "\<not> tm_NoDelays tm \<and> \<not> ?sim" "te_StopAfterKeying e \<or> \<not> admits tm (te_ViewAfterKeying e)"
    | "\<not> te_Stop e" "admits tm (te_View e)" "\<not> tm_NoDelays tm \<and> \<not> ?sim" "\<not> te_StopAfterKeying e" "admits tm (te_ViewAfterKeying e)"
    | "\<not> te_Stop e" "admits tm (te_View e)" "\<not> (\<not> tm_NoDelays tm \<and> \<not> ?sim)" by blast
  then show thesis
  proof cases
    case 1
    with un show thesis by (intro wait) (auto split: if_splits)
  next
    case 2
    with un pw have "cs = as" "w' = w" by (auto split: if_splits)
    with pc show thesis by (intro wait) simp_all
  next
    case 3
    with un pw obtain bs where "cs = as @ bs" "with_inflight task tm ?sim i e cr w = Some (bs, t, credit', w')" by auto
    with pc show thesis by (rule inflight)
  next
    case 4
    with un have "with_inflight task tm ?sim i e credit w = Some (cs, t, credit', w')" by simp
    then show thesis by (intro inflight [of "[]"]) simp_all
  qed
qed

lemma turn_calls_turn:
  assumes "turn task tm e credit w = Some (cs, t, credit', w')"
  shows "turn_calls tm cs"
  using assms
proof (cases rule: turn_cases)
  case wait
  then show ?thesis by (intro waits_calls)
next
  case (inflight as i cr bs)
  with with_inflight_calls [OF inflight(3)] waits_calls(2) [OF inflight(1)] show ?thesis by simp
qed

lemma terminal_run_calls: "terminal_run task tm es credit w = Some (cs, fin, w') \<Longrightarrow> turn_calls tm cs"
proof (induction es arbitrary: credit w cs)
  case Nil
  then show ?case by (simp add: turn_calls_def)
next
  case (Cons e es)
  then obtain bs t cr w1 where t: "turn task tm e credit w = Some (bs, t, cr, w1)" by (auto split: option.splits)
  note b = turn_calls_turn [OF t]
  show ?case
  proof (cases t)
    case NextTurn
    with Cons.prems t obtain ds where "terminal_run task tm es cr w1 = Some (ds, fin, w')" "cs = bs @ ds" by auto
    with Cons.IH b turn_calls_append show ?thesis by blast
  qed (use Cons.prems t b in auto)
qed

text \<open>A terminal with the default workload and one turn in which the first attempt meets a serialization failure.\<close>

definition example_terminal :: TTerminal where
  "example_terminal = \<lparr> tm_Workload = MakeDefaultWorkloadConfig, tm_NoDelays = True, tm_SimulateTransactionSelect1 = 0, tm_RetryMaxAttempts = 4,
     tm_RetryInitialBackoffMs = 10, tm_RetryMaxBackoffMs = 500, tm_RetryJitter = ''none'', tm_RetryAmbiguousCommit = False,
     tm_ThinkTimeDistribution = Compatibility,
     tm_Schedule = \<lparr> RampStart = 0, MeasurementStart = 0, MeasurementEnd = 1000000, DrainDeadline = 2000000, StopGraceDeadline = 3000000 \<rparr> \<rparr>"

definition example_turn :: "(nat \<Rightarrow> 'e) \<Rightarrow> 'e turn_env" where
  "example_turn tasks = \<lparr> te_Stop = False, te_View = (Measure, 10), te_Rng = TFastRng_seed 1, te_KeyingElapsed = 0, te_StopAfterKeying = False,
     te_ViewAfterKeying = (Measure, 20), te_StartTime = 20, te_StartWall = 20, te_StopWithInflight = False, te_ViewWithInflight = (Measure, 30),
     te_StartTimeTransaction = 30,
     te_Attempts = (\<lambda>k. \<lparr> ae_Pool = [NoSession 5 False True, GotSession 5], ae_BeginRaises = (if k = 0 then Some RetryableAbort else None),
        ae_Task = tasks k, ae_LatencyPure = 100, ae_EndTime = 900000, ae_EndWall = 900000, ae_StopRequested = False, ae_Rng = TFastRng_seed 1,
        ae_StopAfterBackoff = False \<rparr>),
     te_ViewAfter = (Measure, 40), te_ThinkSampled = 0, te_ThinkElapsed = 0 \<rparr>"

text \<open>C8: a terminal never loses an inflight slot and records every transaction once. However the clocks, the phases, the session
  pool, the tasks and the stop flag behave, a slot is taken only when none is held and is given back before the next one, before
  the run is stopped and at the end; every transaction adds at most one progress count and at most one measured outcome, never a
  measured one without progress, and at most as many retries as the configuration allows.\<close>

theorem terminal_slots_and_counts:
  assumes "terminal_run task tm turns credit w = Some (calls, finished, w')"
  shows "slots False calls \<and> ncalls is_progress_call calls \<le> ncalls (\<lambda>c. c = TakeInflight) calls \<and>
     ncalls is_outcome_call calls \<le> ncalls is_progress_call calls \<and>
     ncalls is_retried_call calls \<le> (tm_RetryMaxAttempts tm - 1) * ncalls (\<lambda>c. c = TakeInflight) calls"
  using terminal_run_calls [OF assms] by (simp add: turn_calls_def)

lemma terminal_slots_and_counts_witness:
  "\<exists>calls w'. terminal_run (\<lambda>x w. (Inr True, w + x)) example_terminal [example_turn (\<lambda>k. k)] 0 (5 :: nat) = Some (calls, False, w') \<and>
     w' = 6 \<and> slots False calls \<and> ncalls is_progress_call calls = 1 \<and> ncalls is_retried_call calls \<le> 3"
proof -
  let ?run = "terminal_run (\<lambda>x w. (Inr True, w + x)) example_terminal [example_turn (\<lambda>k. k)] 0 (5 :: nat)"
  have r: "map_option (\<lambda>(calls, fin, w'). (ncalls is_progress_call calls, ncalls (\<lambda>c. c = TakeInflight) calls, fin, w')) ?run = Some (1, 1, False, 6)" by code_simp
  then obtain calls fin w' where c: "?run = Some (calls, fin, w')" by (cases ?run) auto
  with r have "ncalls is_progress_call calls = 1" "ncalls (\<lambda>c. c = TakeInflight) calls = 1" "\<not> fin" "w' = 6" by simp_all
  with c terminal_slots_and_counts [OF c] show ?thesis by (intro exI [of _ calls] exI [of _ w']) (simp add: example_terminal_def)
qed

section \<open>Retried transactions take effect once\<close>

text \<open>The contract of a task: it changes the database exactly when it reports success.\<close>

locale atomic_task =
  fixes task :: "'e \<Rightarrow> 'w \<Rightarrow> task_result \<times> 'w" and fair :: "'e \<Rightarrow> bool" and commits :: "'w \<Rightarrow> 'w \<Rightarrow> bool"
  assumes success_commits: "fair x \<Longrightarrow> task x w = (Inr True, w') \<Longrightarrow> commits w w'"
    and otherwise_unchanged: "fair x \<Longrightarrow> task x w = (r, w') \<Longrightarrow> r \<noteq> Inr True \<Longrightarrow> w' = w"
begin

lemma attempt_body_effect:
  assumes "attempt_body task tm tt attempt p b e w = Some (cs, d, wait, w')" "fair (ae_Task e)"
  shows "if ncalls is_success_call cs = 0 then w' = w else ncalls is_success_call cs = 1 \<and> commits w w'" "d = TryAgain \<Longrightarrow> ncalls is_success_call cs = 0"
proof -
  have "(if ncalls is_success_call cs = 0 then w' = w else ncalls is_success_call cs = 1 \<and> commits w w') \<and> (d = TryAgain \<longrightarrow> ncalls is_success_call cs = 0)"
    using assms(1)
  proof (cases rule: attempt_body_cases)
    case leave
    with suspends_calls [OF leave(1)] show ?thesis by simp
  next
    case (error as cls ds)
    with suspends_calls [OF error(1)] on_error_calls [OF error(3)] show ?thesis by simp
  next
    case (finished as ok)
    with suspends_calls [OF finished(1)] success_commits [OF assms(2)] otherwise_unchanged [OF assms(2)] show ?thesis
      by (cases ok) (simp_all add: record_calls)
  next
    case (raised as ex ds)
    with suspends_calls [OF raised(1)] on_caught_calls [OF raised(3)] otherwise_unchanged [OF assms(2) raised(2)] show ?thesis by simp
  qed
  then show "if ncalls is_success_call cs = 0 then w' = w else ncalls is_success_call cs = 1 \<and> commits w w'" "d = TryAgain \<Longrightarrow> ncalls is_success_call cs = 0" by blast+
qed

lemma attempts_effect:
  "attempts task tm tt env attempt p b w = Some (cs, fatal, w') \<Longrightarrow> \<forall>k. fair (ae_Task (env k)) \<Longrightarrow>
     if ncalls is_success_call cs = 0 then w' = w else ncalls is_success_call cs = 1 \<and> commits w w'"
proof (induction "tm_RetryMaxAttempts tm - attempt" arbitrary: attempt p b w cs rule: less_induct)
  case less
  then have fair: "fair (ae_Task (env attempt))" by simp
  from less.prems(1) show ?case
  proof (cases rule: attempts_cases)
    case (ended wait d)
    show ?thesis by (rule attempt_body_effect(1) [OF ended(2) fair])
  next
    case (stopped wait cs1 delay)
    with attempt_body_effect [OF stopped(2) fair] show ?thesis by simp
  next
    case (again wait cs1 w1 sl b1 ds)
    have "tm_RetryMaxAttempts tm - (attempt + 1) < tm_RetryMaxAttempts tm - attempt" using again(1) by simp
    from less.hyps [OF this again(5) less.prems(2)] attempt_body_effect [OF again(2) fair] again(3,4) show ?thesis by auto
  qed simp
qed

lemma with_inflight_effect:
  assumes "with_inflight task tm sim i e credit w = Some (cs, t, credit', w')" "\<forall>k. fair (ae_Task (te_Attempts e k))"
  shows "if ncalls is_success_call cs = 0 then w' = w else ncalls is_success_call cs = 1 \<and> commits w w'"
proof (cases "te_StopWithInflight e \<or> \<not> admits tm (te_ViewWithInflight e)")
  case True
  with assms show ?thesis by (auto simp: with_inflight_def)
next
  case False
  then obtain bs fatal w1 where r: "run_transaction task tm (tx_type_of i) e w = Some (bs, fatal, w1)"
    using assms by (auto simp: with_inflight_def split: option.splits)
  obtain ds cr where a: "after_transaction tm sim i e credit = (ds, cr)" by fastforce
  then have "ds = [] \<or> (\<exists>d. ds = [Suspend d])" by (auto simp: after_transaction_def dest: paced_wait_calls split: if_splits)
  then have "ncalls is_success_call ds = 0" by auto
  with False assms(1) r a have "w1 = w'" "ncalls is_success_call cs = ncalls is_success_call bs" by (auto simp: with_inflight_def split: if_splits)
  with attempts_effect [OF r [unfolded run_transaction_def] assms(2)] show ?thesis by (auto split: if_splits)
qed

lemma turn_effect:
  assumes "turn task tm e credit w = Some (cs, t, credit', w')" "\<forall>k. fair (ae_Task (te_Attempts e k))"
  shows "(commits ^^ ncalls is_success_call cs) w w'"
  using assms(1)
proof (cases rule: turn_cases)
  case wait
  then show ?thesis by auto
next
  case (inflight as i cr bs)
  with with_inflight_effect [OF inflight(3) assms(2)] show ?thesis by (auto split: if_splits)
qed

lemma terminal_run_effect:
  assumes "terminal_run task tm es credit w = Some (cs, fin, w')" "\<forall>e \<in> set es. \<forall>k. fair (ae_Task (te_Attempts e k))"
  shows "(commits ^^ ncalls is_success_call cs) w w'"
  using assms
proof (induction es arbitrary: credit w cs)
  case (Cons e es)
  then obtain bs t cr w1 where t: "turn task tm e credit w = Some (bs, t, cr, w1)" by (auto split: option.splits)
  have "\<forall>k. fair (ae_Task (te_Attempts e k))" using Cons.prems(2) by simp
  note b = turn_effect [OF t this]
  show ?case
  proof (cases t)
    case NextTurn
    with Cons.prems t obtain ds where "terminal_run task tm es cr w1 = Some (ds, fin, w')" "cs = bs @ ds" by auto
    with Cons.IH [of cr w1 ds] Cons.prems(2) b show ?thesis by (auto simp: relpowp_add)
  qed (use Cons.prems t b in auto)
qed simp

end

section \<open>Terminals on PostgreSQL\<close>

text \<open>How the task of a terminal ends, from the end of its workflow.\<close>

fun task_result_of :: "wleaf \<Rightarrow> task_result" where
  "task_result_of Success = Inr True"
| "task_result_of (Failed stop) = Inr False"
| "task_result_of (Thrown TUserAbortedException) = Inl UserAborted"
| "task_result_of (Thrown (TClassifiedError cls code message)) = Inl (ClassifiedError cls)"
| "task_result_of (Thrown ex) = Inl (OtherException (ClassifyException (StdException [])))"

definition pg_task :: "tx_inputs \<times> reply list \<Rightarrow> pg_db \<Rightarrow> task_result \<times> pg_db" where
  "pg_task x db = (case pg_run x db of (l, tr, db') \<Rightarrow> (task_result_of l, db'))"

definition pg_commits :: "pg_db \<Rightarrow> pg_db \<Rightarrow> bool" where
  "pg_commits db db' \<longleftrightarrow> (\<exists>i. committed pg_sem (workflow i) db db')"

lemma task_result_success: "task_result_of l = Inr True \<longleftrightarrow> l = Success"
  by (cases l rule: task_result_of.cases) simp_all

interpretation pg_terminal: atomic_task pg_task "\<lambda>x. no_lost_effect (snd x)" pg_commits
proof
  fix x :: "tx_inputs \<times> reply list" and db db' assume f: "no_lost_effect (snd x)"
  obtain l tr db1 where r: "pg_run x db = (l, tr, db1)" by (metis surj_pair)
  from r have r': "pg_run (fst x, snd x) db = (l, tr, db1)" by simp
  note c = pg_run_cases [OF r' f]
  show "pg_commits db db'" if "pg_task x db = (Inr True, db')"
    using that r c task_result_success [of l] by (auto simp: pg_task_def pg_commits_def)
  show "db' = db" if "pg_task x db = (y, db')" "y \<noteq> Inr True" for y
    using that r c task_result_success [of l] by (auto simp: pg_task_def)
qed

text \<open>C3: exactly once. While no request takes effect on a connection that is then lost, the database after a terminal has run,
  with all its retries, is the one before after as many committed workflows as transactions were counted as successful: no retry
  commits twice, and nothing else changes the database.\<close>

theorem terminal_exactly_once:
  assumes "terminal_run pg_task tm turns credit db = Some (calls, finished, db')"
    and "\<forall>e \<in> set turns. \<forall>k. no_lost_effect (snd (ae_Task (te_Attempts e k)))"
  shows "(pg_commits ^^ ncalls is_success_call calls) db db'"
  using assms by (rule pg_terminal.terminal_run_effect)

lemma terminal_exactly_once_witness:
  "\<exists>calls db'. terminal_run pg_task example_terminal
       [example_turn (\<lambda>k. (StockLevelInputs \<lparr> st_WarehouseID = 1, st_DistrictID = 2, st_Threshold = 15 \<rparr>, [Served]))] 0 example_db = Some (calls, False, db') \<and>
     ncalls is_success_call calls = 1 \<and> (pg_commits ^^ 1) example_db db'"
proof -
  let ?turns = "[example_turn (\<lambda>k. (StockLevelInputs \<lparr> st_WarehouseID = 1, st_DistrictID = 2, st_Threshold = 15 \<rparr>, [Served]))]"
  let ?run = "terminal_run pg_task example_terminal ?turns 0 example_db"
  have r: "map_option (\<lambda>(calls, fin, db'). (ncalls is_success_call calls, fin)) ?run = Some (1, False)" by code_simp
  then obtain calls fin db' where c: "?run = Some (calls, fin, db')" by (cases ?run) auto
  with r have "ncalls is_success_call calls = 1" "\<not> fin" by simp_all
  moreover have "\<forall>e \<in> set ?turns. \<forall>k. no_lost_effect (snd (ae_Task (te_Attempts e k)))" by (simp add: example_turn_def no_lost_effect_def)
  ultimately show ?thesis using c terminal_exactly_once [OF c] by auto
qed

end
