(* ===== verification/Spec2Isabelle.thy ===== *)
theory Spec2Isabelle
  imports Money Domain Rng Workflow_Discipline Pg_Import Spsc_Queue Timer_Queue Terminal
begin

text \<open>
  A verification of portable-tpcc, a TPC-C benchmark driver in C++ (\<^verbatim>\<open>src/tpcc\<close>).

  \<^bold>\<open>The program.\<close> A run has three stages. \<^emph>\<open>Import\<close> generates the initial population from a seed and
  loads it with several threads. \<^emph>\<open>Run\<close> drives terminals; each one picks a transaction of the TPC-C mix,
  takes a slot, runs the workflow of the transaction against a database adapter, retries it by its error
  class and records its latency. \<^emph>\<open>Check\<close> evaluates the consistency conditions of TPC-C on the database. The
  adapters translate the semantic operations of a workflow into SQL; the one modelled here is the
  PostgreSQL adapter. Underneath are a task queue with a timer queue and single-producer single-consumer
  rings, a latency histogram, an exact money type and a random number generator.

  \<^bold>\<open>Conventions.\<close> Definitions keep the names of the source. C++ exceptions and undefined behaviour are
  values: \<open>'a result\<close> is an exception or a value, and \<open>i32\<close>, \<open>i64\<close> turn a signed
  overflow into one (\<open>Prelude\<close>). 64-bit unsigned arithmetic is either on 64-bit words or on natural
  numbers with \<open>wrap64\<close> written out. Records are the structures of the source, one field per member;
  the types of different structures distinguish their fields by a prefix. What the code reads from outside,
  the replies of the server, clocks, the stop flag and the answers of the session pool, is an argument of the
  definitions, and the theorems hold for all of it.

  \<^bold>\<open>Theories, in the order of the program.\<close>
  \<^item> \<open>Prelude\<close>: the error type, widths, decimal digits, shared facts.
  \<^item> \<open>Money\<close> (\<^verbatim>\<open>domain/money.h\<close>): \<open>TMoney\<close>, \<open>TRate\<close>, parsing and printing. Printing then parsing is
    the identity; whatever is accepted is a decimal number of that value.
  \<^item> \<open>Domain\<close> (\<^verbatim>\<open>domain/constants.h\<close>, \<^verbatim>\<open>workload_config.h\<close>, \<^verbatim>\<open>pacing_credit.h\<close>): constants, mix and pacing; the
    pacing credit loses no time.
  \<^item> \<open>Xorshift\<close>, \<open>Rng\<close> (\<^verbatim>\<open>domain/rng.h\<close>, \<^verbatim>\<open>transactions/new_order_supply.h\<close>): the generator as a linear
    map over the 64 bits, its full period by a computation in the ring of polynomials, the unbiased bounded
    draw, the samplers and the choice of a supply warehouse. The loops that draw again end because of the
    full period, so no fuel is needed.
  \<^item> \<open>Transaction_Api\<close>, \<open>New_Order_Tx\<close>, \<open>Other_Txs\<close> (\<^verbatim>\<open>transactions\<close>): the semantic operations, their results
    and error classes; the five workflows as trees of requests with a continuation per answer.
    \<open>Workflow_Discipline\<close>: whatever the adapter answers, a workflow commits at most once and last, and
    reports success exactly when the commit was confirmed.
  \<^item> \<open>Tx_Contract\<close>: the locale \<open>tx_contract\<close>, what a workflow relies on from an adapter, and the atomicity of
    every workflow inside it. \<open>Pg_Store\<close>, \<open>Pg_Session\<close>, \<open>Pg_Adapter\<close> (\<^verbatim>\<open>dbms/pgsql/init.cpp\<close>,
    \<^verbatim>\<open>pg_session.cpp\<close>, \<^verbatim>\<open>pg_error_classifier.cpp\<close>, \<^verbatim>\<open>tpcc_session.cpp\<close>, \<^verbatim>\<open>runtime/future_util.h\<close> and the commit
    path of libpqxx): the tables, the session over a script of server replies, and the adapter; the
    interpretation \<open>pgtx\<close> discharges the contract for it.
  \<^item> \<open>Pg_Effects\<close>, \<open>Pg_Checks\<close>, \<open>Pg_Consistency\<close>, \<open>Pg_Consistency_Orders\<close>, \<open>Pg_Runs\<close> (\<^verbatim>\<open>checks\<close>,
    \<^verbatim>\<open>dbms/pgsql/check.cpp\<close>): the effect of each committed workflow, the check queries, and that runs of
    transactions keep every check passing.
  \<^item> \<open>Generator\<close>, \<open>Time_Util\<close> (\<^verbatim>\<open>generator\<close>, \<^verbatim>\<open>runtime/time_util.cpp\<close>): the population, row by row, and UTC
    timestamps.
  \<^item> \<open>Pg_Load\<close>, \<open>Pg_Population\<close>, \<open>Pg_Import\<close> (\<^verbatim>\<open>loader\<close>, \<^verbatim>\<open>dbms/pgsql/load_batch.cpp\<close>, \<^verbatim>\<open>import.cpp\<close>,
    \<^verbatim>\<open>runtime/warehouse_range.cpp\<close>): loading is atomic and idempotent, a loaded warehouse passes all checks, and
    the import as a step relation over its threads, in every interleaving. \<open>import_and_runs_pass_checks\<close> joins
    it with \<open>Pg_Runs\<close>: after an import and any transactions, every check passes.
  \<^item> \<open>Spsc_Queue\<close> (\<^verbatim>\<open>runtime/spsc_circular_queue.h\<close>): the ring at the granularity of its atomic accesses
    refines a bounded FIFO; locale \<open>bounded_fifo\<close>.
  \<^item> \<open>Timer_Queue\<close> (\<^verbatim>\<open>runtime/timer_queue.h\<close>): the binned queue refines a priority queue on a multiset, for
    every behaviour of \<^verbatim>\<open>std::sort\<close>; locale \<open>delay_queue\<close>.
  \<^item> \<open>Histogram\<close> (\<^verbatim>\<open>metrics/histogram.cpp\<close>): what is recorded never raises, merging is exact, and a reported rank is
    at most one 64th above the recorded value. The bound \<open>2 ^ 58\<close> on the maximum keeps the products of the
    bucket computation within 64 bits.
  \<^item> \<open>Terminal_Stats\<close>, \<open>Terminal\<close> (\<^verbatim>\<open>harness/terminal.h\<close>, \<^verbatim>\<open>terminal.cpp\<close>, \<^verbatim>\<open>runtime/phase_controller.h\<close>,
    \<^verbatim>\<open>domain/think_time.h\<close>): the statistics and their collection, phases, mix, retries and the loop of a
    terminal. The locale \<open>atomic_task\<close> is the contract of a task; its interpretation \<open>pg_terminal\<close> rests on
    \<open>Pg_Runs\<close> and gives that retried transactions take effect exactly once.

  \<^bold>\<open>Hypotheses.\<close> The theorems on the server assume that no request takes effect on a connection that is then lost
  (\<open>no_lost_effect\<close>); \<open>in_doubt_commit_reported_as_rollback\<close> shows why it is needed. Transactions run one after
  the other: PostgreSQL runs them at repeatable read, and its concurrency control is not part of the program.
  The order in which a compiler evaluates the arguments of a generated row is a parameter (\<open>left_first\<close>).

  \<^bold>\<open>Fuel.\<close> The octaves of a histogram take at most 64 turns, one per bit of the range; \<open>ForEachOctave_chain\<close> shows
  that they cover it. Every other loop is structural, has a termination proof, or is driven by the list of the
  answers it gets, where a missing answer is the value \<open>None\<close> and not a result.

  \<^bold>\<open>Not modelled.\<close>
  \<^item> The OceanBase and YDB adapters (\<^verbatim>\<open>dbms/oceanbase\<close>, \<^verbatim>\<open>dbms/ydb\<close>): their meaning is that of two further servers
    and client libraries outside the repository's sources.
  \<^item> The scheduler (\<^verbatim>\<open>runtime/task_queue.cpp\<close>, \<^verbatim>\<open>thread_pool.h\<close>, \<^verbatim>\<open>future.h\<close>, \<^verbatim>\<open>coro_traits.h\<close>, \<^verbatim>\<open>spinlock.h\<close>): threads, coroutine
    frames and locks; its two data structures are modelled, and a terminal's use of it is the list of its calls.
  \<^item> The run driver (\<^verbatim>\<open>harness/run_loop.cpp\<close>, \<^verbatim>\<open>orchestrated_roles.cpp\<close>, \<^verbatim>\<open>debug_probe.cpp\<close>, \<^verbatim>\<open>artifacts.cpp\<close>, \<^verbatim>\<open>app\<close>): command
    lines, files, JSON, console output and the coordination of processes.
  \<^item> \<^verbatim>\<open>harness/clock_skew.cpp\<close>, \<^verbatim>\<open>password_secret.cpp\<close>, \<^verbatim>\<open>sha256.cpp\<close>, \<^verbatim>\<open>runtime/log_backend.cpp\<close>: clock sampling, files, a
    digest used for artifact names, and log output.
  \<^item> Floating point: the weights of the mix are rationals, the exponential think time and the rank of a
    percentile are arguments.
  \<^item> The foreign keys, indexes and partitions that \<^verbatim>\<open>init.cpp\<close> can create, and the planner of the server.
\<close>

end
